(* ===== verification/Kasm_Prelude.thy ===== *)
theory Kasm_Prelude
  imports Main "HOL-Library.Word"
begin

text \<open>
  What every component shares: the error values of \<^verbatim>\<open>anyhow\<close>, the standard library's
  \<^verbatim>\<open>HashMap\<close> with the laws its clients use (the locale \<open>hash_map\<close>), machine-integer
  conversions, and the generic scheme for invariants of reachable states (the locale
  \<open>transition_system\<close>).

  A \<^verbatim>\<open>HashMap\<close> is an association list with distinct keys. The position of an entry stands for
  Rust's unspecified iteration order, so that loops over a map are executable here, and a result
  that must not depend on that order has to be proved not to.
\<close>

section \<open>Collections of facts\<close>

named_theorems host_frames \<open>what an operation leaves unchanged of the process state\<close>
named_theorems ext_simps \<open>unfolding of the error plumbing\<close>

section \<open>Errors\<close>

text \<open>
  An \<^verbatim>\<open>anyhow::Error\<close> is a message wrapped in zero or more contexts. \<open>Inl\<close> is \<^verbatim>\<open>Err\<close>, \<open>Inr\<close> is
  \<^verbatim>\<open>Ok\<close>.
\<close>

datatype error = Msg string | Wrap string error

type_synonym 'a res = "error + 'a"

text \<open>\<^verbatim>\<open>to_string\<close> of an \<^verbatim>\<open>anyhow::Error\<close> shows the outermost message only.\<close>

fun err_to_string :: "error \<Rightarrow> string" where
  "err_to_string (Msg m) = m"
| "err_to_string (Wrap c e) = c"

text \<open>\<^verbatim>\<open>result.context(msg)\<close> and \<^verbatim>\<open>option.context(msg)\<close>.\<close>

definition with_context :: "string \<Rightarrow> 'a res \<Rightarrow> 'a res" where
  "with_context c r = (case r of Inl e \<Rightarrow> Inl (Wrap c e) | Inr x \<Rightarrow> Inr x)"

definition some_or :: "string \<Rightarrow> 'a option \<Rightarrow> 'a res" where
  "some_or c r = (case r of None \<Rightarrow> Inl (Msg c) | Some x \<Rightarrow> Inr x)"

text \<open>The \<^verbatim>\<open>?\<close> operator on a pure computation.\<close>

definition and_then :: "'a res \<Rightarrow> ('a \<Rightarrow> 'b res) \<Rightarrow> 'b res" where
  "and_then r f = (case r of Inl e \<Rightarrow> Inl e | Inr x \<Rightarrow> f x)"

text \<open>\<^verbatim>\<open>ensure!(cond, msg)\<close>.\<close>

definition ensure :: "bool \<Rightarrow> string \<Rightarrow> unit res" where
  "ensure b m = (if b then Inr () else Inl (Msg m))"

definition is_ok :: "'a res \<Rightarrow> bool" where
  "is_ok r = (case r of Inl _ \<Rightarrow> False | Inr _ \<Rightarrow> True)"

lemma with_context_simps [simp]:
  "with_context c (Inl e) = Inl (Wrap c e)"
  "with_context c (Inr x) = Inr x"
  by (simp_all add: with_context_def)

lemma some_or_simps [simp]:
  "some_or c None = Inl (Msg c)"
  "some_or c (Some x) = Inr x"
  by (simp_all add: some_or_def)

lemma and_then_simps [simp]:
  "and_then (Inl e) f = Inl e"
  "and_then (Inr x) f = f x"
  by (simp_all add: and_then_def)

lemma is_ok_simps [simp]:
  "\<not> is_ok (Inl e)"
  "is_ok (Inr x)"
  by (simp_all add: is_ok_def)

lemma with_context_Inr [simp]: "with_context c r = Inr x \<longleftrightarrow> r = Inr x"
  by (cases r) simp_all

lemma some_or_Inr [simp]: "some_or c r = Inr x \<longleftrightarrow> r = Some x"
  by (cases r) simp_all

lemma and_then_Inr: "and_then r f = Inr y \<longleftrightarrow> (\<exists>x. r = Inr x \<and> f x = Inr y)"
  by (cases r) simp_all

lemma ensure_Inr [simp]: "ensure b m = Inr u \<longleftrightarrow> b"
  by (simp add: ensure_def)

section \<open>Hash maps\<close>

type_synonym ('k, 'v) hmap = "('k \<times> 'v) list"

definition hm_get :: "('k, 'v) hmap \<Rightarrow> 'k \<Rightarrow> 'v option" where
  "hm_get m k = map_of m k"

primrec hm_insert :: "'k \<Rightarrow> 'v \<Rightarrow> ('k, 'v) hmap \<Rightarrow> ('k, 'v) hmap" where
  "hm_insert k v [] = [(k, v)]"
| "hm_insert k v (p # m) = (if fst p = k then (k, v) # m else p # hm_insert k v m)"

definition hm_remove :: "'k \<Rightarrow> ('k, 'v) hmap \<Rightarrow> ('k, 'v) hmap" where
  "hm_remove k m = filter (\<lambda>p. fst p \<noteq> k) m"

definition hm_keys :: "('k, 'v) hmap \<Rightarrow> 'k list" where
  "hm_keys m = map fst m"

definition hm_values :: "('k, 'v) hmap \<Rightarrow> 'v list" where
  "hm_values m = map snd m"

definition hm_wf :: "('k, 'v) hmap \<Rightarrow> bool" where
  "hm_wf m \<longleftrightarrow> distinct (map fst m)"

text \<open>\<^verbatim>\<open>map.entry(k).or_default()\<close> on a map whose default value is \<open>d\<close>.\<close>

definition hm_get_or :: "'v \<Rightarrow> ('k, 'v) hmap \<Rightarrow> 'k \<Rightarrow> 'v" where
  "hm_get_or d m k = (case hm_get m k of None \<Rightarrow> d | Some v \<Rightarrow> v)"

subsection \<open>The interface the clients of a map rely on\<close>

locale hash_map =
  fixes emp :: "'m"
    and get :: "'m \<Rightarrow> 'k \<Rightarrow> 'v option"
    and ins :: "'k \<Rightarrow> 'v \<Rightarrow> 'm \<Rightarrow> 'm"
    and rem :: "'k \<Rightarrow> 'm \<Rightarrow> 'm"
    and keys :: "'m \<Rightarrow> 'k list"
    and vals :: "'m \<Rightarrow> 'v list"
    and wf :: "'m \<Rightarrow> bool"
  assumes get_emp: "get emp k = None"
    and get_ins: "get (ins k v m) k' = (if k' = k then Some v else get m k')"
    and get_rem: "get (rem k m) k' = (if k' = k then None else get m k')"
    and wf_emp: "wf emp"
    and wf_ins: "wf m \<Longrightarrow> wf (ins k v m)"
    and wf_rem: "wf m \<Longrightarrow> wf (rem k m)"
    and keys_distinct: "wf m \<Longrightarrow> distinct (keys m)"
    and keys_iff: "k \<in> set (keys m) \<longleftrightarrow> (\<exists>v. get m k = Some v)"
    and vals_keys: "wf m \<Longrightarrow> map (get m) (keys m) = map Some (vals m)"
begin

lemma get_ins_same: "get (ins k v m) k = Some v"
  by (simp add: get_ins)

lemma get_ins_other: "k' \<noteq> k \<Longrightarrow> get (ins k v m) k' = get m k'"
  by (simp add: get_ins)

lemma vals_iff:
  assumes "wf m"
  shows "v \<in> set (vals m) \<longleftrightarrow> (\<exists>k. get m k = Some v)"
proof -
  have "v \<in> set (vals m) \<longleftrightarrow> Some v \<in> set (map Some (vals m))"
    by auto
  also have "\<dots> \<longleftrightarrow> Some v \<in> get m ` set (keys m)"
    by (simp add: vals_keys [OF assms, symmetric])
  also have "\<dots> \<longleftrightarrow> (\<exists>k. get m k = Some v)"
    by (force simp: keys_iff)
  finally show ?thesis .
qed

lemma len_ins:
  assumes "wf m"
  shows "length (keys (ins k v m)) = (if get m k = None then Suc (length (keys m)) else length (keys m))"
proof -
  have set_ins: "set (keys (ins k v m)) = insert k (set (keys m))"
    by (auto simp: keys_iff get_ins split: if_splits)
  have "length (keys (ins k v m)) = card (set (keys (ins k v m)))"
    using keys_distinct [OF wf_ins [OF assms]] by (simp add: distinct_card)
  also have "\<dots> = card (insert k (set (keys m)))"
    by (simp add: set_ins)
  also have "\<dots> = (if k \<in> set (keys m) then card (set (keys m)) else Suc (card (set (keys m))))"
    by (simp add: card_insert_if)
  also have "\<dots> = (if get m k = None then Suc (length (keys m)) else length (keys m))"
    using keys_distinct [OF assms] by (auto simp: distinct_card keys_iff)
  finally show ?thesis .
qed

lemma empty_iff: "keys m = [] \<longleftrightarrow> (\<forall>k. get m k = None)"
  by (metis keys_iff list.set_intros(1) list.set(1) empty_iff neq_Nil_conv not_Some_eq)

end

lemma hm_insert_get: "hm_get (hm_insert k v m) k' = (if k' = k then Some v else hm_get m k')"
  by (induction m) (auto simp: hm_get_def)

lemma hm_remove_get: "hm_get (hm_remove k m) k' = (if k' = k then None else hm_get m k')"
  by (induction m) (auto simp: hm_get_def hm_remove_def)

lemma hm_insert_keys: "fst ` set (hm_insert k v m) = insert k (fst ` set m)"
  by (induction m) auto

lemma hm_insert_wf: "hm_wf m \<Longrightarrow> hm_wf (hm_insert k v m)"
  by (induction m) (auto simp: hm_wf_def hm_insert_keys)

lemma hm_remove_wf: "hm_wf m \<Longrightarrow> hm_wf (hm_remove k m)"
  by (induction m) (auto simp: hm_wf_def hm_remove_def)

lemma hm_values_keys: "hm_wf m \<Longrightarrow> map (hm_get m) (hm_keys m) = map Some (hm_values m)"
  by (induction m) (auto simp: hm_wf_def hm_get_def hm_keys_def hm_values_def rev_image_eqI)

interpretation hm: hash_map "[]" hm_get hm_insert hm_remove hm_keys hm_values hm_wf
proof
  show "hm_get [] k = None" for k :: 'k
    by (simp add: hm_get_def)
  show "k \<in> set (hm_keys m) \<longleftrightarrow> (\<exists>v. hm_get m k = Some v)" for k :: 'k and m :: "('k, 'v) hmap"
    by (metis hm_get_def hm_keys_def list.set_map map_of_eq_None_iff not_Some_eq)
qed (simp_all add: hm_insert_get hm_remove_get hm_insert_wf hm_remove_wf hm_values_keys,
     simp_all add: hm_wf_def hm_keys_def)

lemmas hm_laws [simp] =
  hm.get_emp hm.get_ins hm.get_rem hm.wf_emp hm.wf_ins hm.wf_rem

lemma hm_values_iff: "hm_wf m \<Longrightarrow> v \<in> set (hm_values m) \<longleftrightarrow> (\<exists>k. hm_get m k = Some v)"
  by (rule hm.vals_iff)

lemma hm_mem_get: "hm_wf m \<Longrightarrow> (k, v) \<in> set m \<longleftrightarrow> hm_get m k = Some v"
  by (simp add: hm_wf_def hm_get_def)

lemma hm_ball_get: "hm_wf m \<Longrightarrow> (\<forall>(k, v) \<in> set m. P k v) \<longleftrightarrow> (\<forall>k v. hm_get m k = Some v \<longrightarrow> P k v)"
  by (auto simp: hm_mem_get)

lemma hm_remove_absent: "hm_get m k = None \<Longrightarrow> hm_remove k m = m"
  by (induction m) (auto simp: hm_get_def hm_remove_def split: if_splits)

lemma hm_insert_self: "hm_get m k = Some v \<Longrightarrow> hm_insert k v m = m"
  by (induction m) (auto simp: hm_get_def split: if_splits)

lemma hm_remove_insert: "hm_remove k (hm_insert k v m) = hm_remove k m"
  by (induction m) (auto simp: hm_remove_def)

lemma hm_insert_absent: "hm_get m k = None \<Longrightarrow> hm_insert k v m = m @ [(k, v)]"
  by (induction m) (auto simp: hm_get_def split: if_splits)

lemma hm_length_keys: "length (hm_keys m) = length m"
  by (simp add: hm_keys_def)

lemma hm_Nil_iff: "m = [] \<longleftrightarrow> (\<forall>k. hm_get m k = None)"
  using hm.empty_iff [of m] by (simp add: hm_keys_def)

text \<open>Lists kept in the values of a map, when no two of them share an element.\<close>

lemma hm_distinct_concat:
  assumes "hm_wf m" "\<And>k v. hm_get m k = Some v \<Longrightarrow> distinct (f v)"
    and "\<And>k k' v v'. hm_get m k = Some v \<Longrightarrow> hm_get m k' = Some v' \<Longrightarrow> k \<noteq> k' \<Longrightarrow>
      set (f v) \<inter> set (f v') = {}"
  shows "distinct (concat (map f (hm_values m)))"
  using assms
proof (induction m)
  case Nil
  then show ?case by (simp add: hm_values_def)
next
  case (Cons p m)
  obtain k v where p: "p = (k, v)" by (cases p)
  have wf: "hm_wf m" and k: "hm_get m k = None"
    using Cons.prems(1) by (auto simp: p hm_wf_def hm_get_def map_of_eq_None_iff)
  have get: "hm_get (p # m) k' = (if k' = k then Some v else hm_get m k')" for k'
    by (simp add: p hm_get_def)
  have "distinct (concat (map f (hm_values m)))"
  proof (rule Cons.IH [OF wf])
    show "distinct (f w)" if "hm_get m k' = Some w" for k' w
      by (rule Cons.prems(2) [of k']) (use that k in \<open>auto simp: get\<close>)
    show "set (f w) \<inter> set (f w') = {}"
      if "hm_get m k1 = Some w" "hm_get m k2 = Some w'" "k1 \<noteq> k2" for k1 k2 w w'
      by (rule Cons.prems(3) [of k1 _ k2]) (use that k in \<open>auto simp: get\<close>)
  qed
  moreover have "set (f v) \<inter> set (f w) = {}" if "w \<in> set (hm_values m)" for w
  proof -
    from that wf obtain k' where "hm_get m k' = Some w" by (auto simp: hm_values_iff)
    with k show ?thesis
      by (intro Cons.prems(3) [of k v k' w]) (auto simp: get)
  qed
  moreover have "distinct (f v)" using Cons.prems(2) [of k v] by (simp add: get)
  ultimately show ?case by (auto simp: p hm_values_def)
qed

section \<open>Machine integers\<close>

text \<open>
  A \<^verbatim>\<open>usize\<close> (64 bits wide on the supported targets) is the natural number it denotes;
  conversions into it and out of it are where the width matters. \<^verbatim>\<open>x as usize\<close> on an \<^verbatim>\<open>i32\<close>
  sign-extends, \<^verbatim>\<open>x as i64\<close> on a \<^verbatim>\<open>u64\<close> reinterprets the bits.
\<close>

definition i32_as_usize :: "32 word \<Rightarrow> nat" where
  "i32_as_usize w = unat (scast w :: 64 word)"

definition u64_as_i64 :: "64 word \<Rightarrow> int" where
  "u64_as_i64 w = sint w"

text \<open>\<^verbatim>\<open>a.checked_sub(b)\<close> and \<^verbatim>\<open>NonZeroUsize::new\<close>.\<close>

definition checked_sub :: "nat \<Rightarrow> nat \<Rightarrow> nat option" where
  "checked_sub a b = (if b \<le> a then Some (a - b) else None)"

definition nonzero :: "nat \<Rightarrow> nat option" where
  "nonzero n = (if n = 0 then None else Some n)"

lemma checked_sub_Some [simp]: "checked_sub a b = Some d \<longleftrightarrow> b \<le> a \<and> d = a - b"
  by (auto simp: checked_sub_def)

lemma checked_sub_None [simp]: "checked_sub a b = None \<longleftrightarrow> a < b"
  by (auto simp: checked_sub_def)

lemma nonzero_Some [simp]: "nonzero n = Some k \<longleftrightarrow> 0 < n \<and> k = n"
  by (auto simp: nonzero_def)

lemma nonzero_None [simp]: "nonzero n = None \<longleftrightarrow> n = 0"
  by (auto simp: nonzero_def)

lemma i32_as_usize_mod: "int (i32_as_usize w) = sint w mod 2 ^ 64"
proof -
  have "(scast w :: 64 word) = word_of_int (sint w)"
    by (rule scast_eq)
  then have "uint (scast w :: 64 word) = take_bit LENGTH(64) (sint w)"
    by (simp only: uint_word_of_int_eq)
  then show ?thesis
    unfolding i32_as_usize_def by (simp only: take_bit_eq_mod uint_nat len_num1 len_bit0) simp
qed

lemma sint_i32_bounds: "- (2 ^ 31) \<le> sint (w :: 32 word)" "sint (w :: 32 word) < 2 ^ 31"
  using sint_greater_eq [of w] sint_lt [of w] by simp_all

lemma i32_as_usize_nonneg:
  assumes "0 \<le> sint w"
  shows "i32_as_usize w = nat (sint w)"
proof -
  have "sint w mod 2 ^ 64 = sint w"
    using assms sint_i32_bounds [of w] by (intro mod_pos_pos_trivial) auto
  then show ?thesis using i32_as_usize_mod [of w] by linarith
qed

lemma i32_as_usize_neg:
  assumes "sint w < 0"
  shows "i32_as_usize w = nat (2 ^ 64 + sint w)"
proof -
  have "sint w mod 2 ^ 64 = (sint w + 2 ^ 64) mod 2 ^ 64" by simp
  also have "\<dots> = sint w + 2 ^ 64"
    using assms sint_i32_bounds [of w] by (intro mod_pos_pos_trivial) auto
  finally show ?thesis using i32_as_usize_mod [of w] by linarith
qed

text \<open>\<^verbatim>\<open>try_into\<close> between integer types fails with the standard library's message.\<close>

definition out_of_range :: "'a res" where
  "out_of_range = Inl (Msg ''out of range integral type conversion attempted'')"

definition u64_try_from :: "nat \<Rightarrow> 64 word res" where
  "u64_try_from n = (if n < 2 ^ 64 then Inr (word_of_nat n) else out_of_range)"

definition u32_try_from :: "nat \<Rightarrow> 32 word res" where
  "u32_try_from n = (if n < 2 ^ 32 then Inr (word_of_nat n) else out_of_range)"

definition i32_try_from_u64 :: "64 word \<Rightarrow> 32 word res" where
  "i32_try_from_u64 w = (if unat w < 2 ^ 31 then Inr (word_of_nat (unat w)) else out_of_range)"

definition u64_try_from_int :: "int \<Rightarrow> 64 word res" where
  "u64_try_from_int i = (if 0 \<le> i \<and> i < 2 ^ 64 then Inr (word_of_int i) else out_of_range)"

text \<open>A conversion succeeds exactly with the same number.\<close>

lemma u64_try_from_unat: "u64_try_from n = Inr w \<Longrightarrow> unat w = n"
  by (auto simp: u64_try_from_def out_of_range_def unat_of_nat split: if_splits)

lemma u32_try_from_exact: "u32_try_from n = Inr w \<longleftrightarrow> unat w = n"
  using unsigned_less [of w, where ?'a = nat] by (auto simp: u32_try_from_def out_of_range_def unat_of_nat)

lemma sint_word_of_nat_i32: "n < 2 ^ 31 \<Longrightarrow> sint (word_of_nat n :: 32 word) = int n"
  using int_word_sint [of "int n", where 'a = 32] by simp

lemma i32_try_from_exact: "i32_try_from_u64 w = Inr v \<longleftrightarrow> unat w < 2 ^ 31 \<and> sint v = int (unat w)"
proof -
  have "(word_of_nat (unat w) :: 32 word) = v \<longleftrightarrow> sint v = int (unat w)" if "unat w < 2 ^ 31"
    using sint_word_of_nat_i32 [OF that] signed_word_eqI [of "word_of_nat (unat w)" v, where ?'a = int] by auto
  then show ?thesis by (auto simp: i32_try_from_u64_def out_of_range_def)
qed

lemma u64_try_from_int_exact: "u64_try_from_int i = Inr w \<longleftrightarrow> uint w = i"
  using uint_lt2p [of w]
  by (auto simp: u64_try_from_int_def out_of_range_def uint_word_of_int_eq take_bit_eq_mod)

section \<open>Invariants of reachable states\<close>

text \<open>
  The interface of every state machine below: what holds initially and is kept by each step holds
  in every state the machine reaches.
\<close>

locale transition_system =
  fixes initial :: "'s \<Rightarrow> bool"
    and step :: "'s \<Rightarrow> 's \<Rightarrow> bool"
    and inv :: "'s \<Rightarrow> bool"
  assumes initial_inv: "initial s \<Longrightarrow> inv s"
    and step_inv: "inv s \<Longrightarrow> step s t \<Longrightarrow> inv t"
begin

lemma steps_inv: "step\<^sup>*\<^sup>* s t \<Longrightarrow> inv s \<Longrightarrow> inv t"
  by (induction rule: rtranclp_induct) (auto intro: step_inv)

lemma reachable_inv: "initial s \<Longrightarrow> step\<^sup>*\<^sup>* s t \<Longrightarrow> inv t"
  by (blast intro: steps_inv initial_inv)

end

end
