(* ===== verification/Kasm_External.thy ===== *)
theory Kasm_External
  imports Kasm_Prelude
begin

text \<open>
  The data of the packages the program is built on, restricted to the fields the source reads or
  writes: \<^verbatim>\<open>nkeys\<close> key pairs, \<^verbatim>\<open>wascap\<close> JWT claims, the entities and link definitions of
  \<^verbatim>\<open>wasmcloud_core\<close> and \<^verbatim>\<open>wasmcloud_control_interface\<close>, and the call targets of
  \<^verbatim>\<open>wasmcloud_runtime\<close>. What these packages \<^emph>\<open>compute\<close> is never defined here: it is an argument of
  the operations that call it.
\<close>

type_synonym bytes = "8 word list"

text \<open>\<^verbatim>\<open>metav1::Time\<close>: a UTC instant, by its Unix seconds.\<close>

type_synonym datetime = int

section \<open>Keys\<close>

datatype key_pair_type = Server | Cluster | OtherKey

text \<open>A key pair is what its methods return; \<^verbatim>\<open>seed()\<close> fails for a key without its private part.\<close>

record key_pair =
  key_pair_type :: key_pair_type
  public_key :: string
  seed :: "string res"

section \<open>Claims of signed modules\<close>

record 'm claims =
  issuer :: string
  subject :: string
  issued_at :: "64 word"
  not_before :: "64 word option"
  expires :: "64 word option"
  metadata :: "'m option"

record jwt_actor =
  act_name :: "string option"
  act_caps :: "string list option"
  act_rev :: "32 word option"
  act_ver :: "string option"
  act_call_alias :: "string option"
  act_provider :: bool

record jwt_provider =
  prov_name :: "string option"
  prov_capid :: string
  prov_vendor :: string
  prov_rev :: "32 word option"
  prov_ver :: "string option"
  prov_target_hashes :: "(string, string) hmap"

type_synonym actor_claims = "jwt_actor claims"
type_synonym provider_claims = "jwt_provider claims"

section \<open>Entities, link definitions, call targets\<close>

record wasmcloud_entity =
  ent_public_key :: string
  ent_link_name :: string
  ent_contract_id :: string

record link_definition =
  ld_actor_id :: string
  ld_provider_id :: string
  ld_link_name :: string
  ld_contract_id :: string
  ld_values :: "(string, string) hmap"

datatype actor_identifier = Key key_pair | Alias string

datatype target_entity = Link "string option" | Actor actor_identifier

datatype target_interface =
    WasiBlobstoreBlobstore
  | WasiKeyvalueAtomic
  | WasiKeyvalueReadwrite
  | WasmcloudMessagingConsumer
  | OtherInterface string

section \<open>Modules, pools and child processes\<close>

text \<open>
  A compiled module is known to the host by the claims it carries; an instance pool is what it was
  built from.
\<close>

record rt_actor =
  rt_claims :: "actor_claims option"
  rt_wasm :: bytes

record instance_pool =
  pool_actor :: rt_actor
  pool_max :: "nat option"

record registry_config =
  reg_type :: string

text \<open>
  The interactions with the outside that the claims speak of, in the order they happen. Handles of
  spawned tasks and of child processes are numbered by the process that creates them.
\<close>

datatype event =
    Subscribed nat string
  | Aborted nat
  | Published string bytes
  | Requested string bytes
  | Spawned nat string
  | Stdin nat bytes
  | Killed nat

end
