(* ===== verification/Kasm_Host_State.thy ===== *)
theory Kasm_Host_State
  imports Kasm_External
begin

text \<open>
  The state of a host process: the structs of \<^verbatim>\<open>crates/host/src\<close> (\<open>host\<close> is the struct
  \<^verbatim>\<open>Host\<close>), extended to \<open>process\<close> by what lives outside the struct, namely the shared cells behind
  \<^verbatim>\<open>Arc<RwLock<..>>\<close> that several structs point to, the spawned tasks and the child processes. A
  pointer to a shared cell is its index, so that a write through one alias is seen through every
  other.
\<close>

section \<open>Shared cells\<close>

text \<open>contract id (package) to link name (target) to the linked provider\<close>

type_synonym link_table = "(string, (string, wasmcloud_entity) hmap) hmap"

type_synonym target_table = "(target_interface, target_entity) hmap"

section \<open>Handlers, actors and providers\<close>

text \<open>
  The handler's NATS client and chunk endpoint are clones of the host's; its \<^verbatim>\<open>aliases\<close> is the
  host's own cell, read from the process state. \<open>hd_links\<close> and \<open>hd_targets\<close> are pointers.
\<close>

record handler =
  hd_lattice_prefix :: string
  hd_cluster_key :: key_pair
  hd_host_key :: key_pair
  hd_claims :: actor_claims
  hd_origin :: wasmcloud_entity
  hd_links :: nat
  hd_targets :: nat

text \<open>\<open>in_calls\<close> is the abort handle of the task that serves the instance's calls.\<close>

record actor_instance =
  in_id :: "128 word"
  in_handler :: handler
  in_pool :: instance_pool
  in_valid_issuers :: "string list"
  in_calls :: nat

record actor =
  ac_image_ref :: string
  ac_handler :: handler
  ac_pool :: instance_pool
  ac_instances :: "actor_instance list"

record actor_group =
  ag_public_key :: string
  ag_actors :: "(string, actor) hmap"
  ag_links :: nat

record provider_instance =
  pi_child :: nat
  pi_id :: "128 word"

record provider =
  pr_claims :: provider_claims
  pr_instances :: "(string, provider_instance) hmap"
  pr_image_ref :: string

section \<open>Configuration and the host\<close>

record nats_config =
  nc_url :: string
  nc_timeout :: "nat option"
  nc_jwt :: "string option"
  nc_key :: "key_pair option"
  nc_tls :: bool

record host_config =
  hc_allow_file_load :: bool
  hc_rpc_config :: nats_config
  hc_prov_rpc_config :: nats_config
  hc_lattice_prefix :: string
  hc_js_domain :: "string option"
  hc_host_key :: "key_pair option"
  hc_cluster_key :: "key_pair option"
  hc_cluster_issuers :: "string list option"
  hc_log_level :: "string option"

record host_stats =
  st_provider_count :: "64 word"
  st_actor_count :: "64 word"
  st_actor_instance_count :: "64 word"

record host =
  name :: string
  host_key :: key_pair
  lattice_prefix :: string
  cluster_key :: key_pair
  cluster_issuers :: "string list"
  config :: host_config
  links :: "(string, link_definition) hmap"
  actor_keys :: "(string, string) hmap"
  actors :: "(string, actor_group) hmap"
  providers :: "(string, provider) hmap"
  aliases :: "(string, wasmcloud_entity) hmap"
  registry_settings :: "(string, registry_config) hmap"

record process = host +
  link_cells :: "link_table list"
  target_cells :: "target_table list"
  tasks :: "(nat \<times> string) list"
  next_task :: nat
  children :: "nat list"
  next_child :: nat
  events :: "event list"

definition emit :: "event list \<Rightarrow> process \<Rightarrow> process" where
  "emit es s = s\<lparr>events := events s @ es\<rparr>"

section \<open>Reading a link table\<close>

definition table_get :: "link_table \<Rightarrow> string \<Rightarrow> string \<Rightarrow> wasmcloud_entity option" where
  "table_get t c l = (case hm_get t c of None \<Rightarrow> None | Some m \<Rightarrow> hm_get m l)"

text \<open>\<^verbatim>\<open>links.entry(contract).or_default().insert(name, entity)\<close>\<close>

definition table_put :: "string \<Rightarrow> string \<Rightarrow> wasmcloud_entity \<Rightarrow> link_table \<Rightarrow> link_table" where
  "table_put c l e t = hm_insert c (hm_insert l e (hm_get_or [] t c)) t"

text \<open>\<^verbatim>\<open>if let Some(links) = links.get_mut(contract) { links.remove(name); }\<close>\<close>

definition table_del :: "string \<Rightarrow> string \<Rightarrow> link_table \<Rightarrow> link_table" where
  "table_del c l t =
     (case hm_get t c of None \<Rightarrow> t | Some m \<Rightarrow> hm_insert c (hm_remove l m) t)"

lemma table_get_empty [simp]: "table_get [] c l = None"
  by (simp add: table_get_def)

lemma table_get_put [simp]:
  "table_get (table_put c l e t) c' l' = (if c' = c \<and> l' = l then Some e else table_get t c' l')"
  by (auto simp: table_get_def table_put_def hm_get_or_def split: option.splits)

lemma table_get_del [simp]:
  "table_get (table_del c l t) c' l' = (if c' = c \<and> l' = l then None else table_get t c' l')"
  by (auto simp: table_get_def table_del_def split: option.splits)

end
