(* ===== verification/Kasm_Links.thy ===== *)
theory Kasm_Links
  imports Kasm_Host_State
begin

text \<open>
  Link definitions of a host (\<^verbatim>\<open>crates/host/src/lib.rs\<close>: \<^verbatim>\<open>linkdef_hash\<close>, \<^verbatim>\<open>get_actor_links\<close>,
  \<^verbatim>\<open>add_linkdef\<close>, \<^verbatim>\<open>delete_linkdef\<close>). A link definition is stored once in \<^verbatim>\<open>Host.links\<close>, under the
  hash of its actor, contract and link name, and copied into the shared link table of the actor's
  group, where the running instances look up call targets. The theory shows that the two never
  disagree: the table of every group is the projection of the registry to the group's key.
\<close>

section \<open>Operations\<close>

text \<open>
  What the operations take from outside: the digest (the upper-case hexadecimal SHA-256 of the chunks
  fed to it in order), the MessagePack encoding of a link definition and the outcome of publishing.
\<close>

type_synonym digest = "string list \<Rightarrow> string"

record link_ext =
  encode_ld :: "link_definition \<Rightarrow> bytes res"
  nats_publish :: "string \<Rightarrow> bytes \<Rightarrow> unit res"

definition linkdef_hash :: "digest \<Rightarrow> string \<Rightarrow> string \<Rightarrow> string \<Rightarrow> string" where
  "linkdef_hash D actor_id contract_id link_name = D [actor_id, contract_id, link_name]"

definition ld_hash :: "digest \<Rightarrow> link_definition \<Rightarrow> string" where
  "ld_hash D ld = linkdef_hash D (ld_actor_id ld) (ld_contract_id ld) (ld_link_name ld)"

definition entity_of :: "link_definition \<Rightarrow> wasmcloud_entity" where
  "entity_of ld =
     \<lparr>ent_public_key = ld_provider_id ld, ent_link_name = ld_link_name ld,
      ent_contract_id = ld_contract_id ld\<rparr>"

definition put_link :: "link_table \<Rightarrow> link_definition \<Rightarrow> link_table" where
  "put_link t ld = table_put (ld_contract_id ld) (ld_link_name ld) (entity_of ld) t"

definition get_actor_links :: "string \<Rightarrow> process \<Rightarrow> link_table" where
  "get_actor_links key s =
     foldl put_link [] (filter (\<lambda>ld. ld_actor_id ld = key) (hm_values (links s)))"

text \<open>A write through the group's pointer to its link table, if the group exists.\<close>

definition update_table :: "string \<Rightarrow> (link_table \<Rightarrow> link_table) \<Rightarrow> process \<Rightarrow> process" where
  "update_table key f s =
     (case hm_get (actors s) key of
        None \<Rightarrow> s
      | Some g \<Rightarrow> s\<lparr>link_cells := (link_cells s)[ag_links g := f (link_cells s ! ag_links g)]\<rparr>)"

definition publish :: "link_ext \<Rightarrow> string \<Rightarrow> bytes \<Rightarrow> process \<Rightarrow> unit res \<times> process" where
  "publish X topic payload s =
     (case nats_publish X topic payload of
        Inl e \<Rightarrow> (Inl e, s)
      | Inr u \<Rightarrow> (Inr u, emit [Published topic payload] s))"

definition linkdefs_topic :: "process \<Rightarrow> link_definition \<Rightarrow> string \<Rightarrow> string" where
  "linkdefs_topic s ld verb =
     ''wasmbus.rpc.'' @ hc_lattice_prefix (config s) @ ''.'' @ ld_provider_id ld @ ''.'' @
     ld_link_name ld @ ''.linkdefs.'' @ verb"

definition add_linkdef ::
    "digest \<Rightarrow> link_ext \<Rightarrow> link_definition \<Rightarrow> process \<Rightarrow> unit res \<times> process" where
  "add_linkdef D X ld s =
     (let id = linkdef_hash D (ld_actor_id ld) (ld_contract_id ld) (ld_link_name ld)
      in case hm_get (links s) id of
           Some _ \<Rightarrow> (Inr (), s)
         | None \<Rightarrow>
             let s = s\<lparr>links := hm_insert id ld (links s)\<rparr>;
                 s = update_table (ld_actor_id ld) (\<lambda>t. put_link t ld) s
             in case with_context ''failed to encode link definition'' (encode_ld X ld) of
                  Inl e \<Rightarrow> (Inl e, s)
                | Inr msgp \<Rightarrow>
                    let (r, s) = publish X (linkdefs_topic s ld ''put'') msgp s
                    in (with_context ''failed to publish link deinition'' r, s))"

definition delete_linkdef ::
    "digest \<Rightarrow> link_ext \<Rightarrow> link_definition \<Rightarrow> process \<Rightarrow> unit res \<times> process" where
  "delete_linkdef D X ld s =
     (let id = linkdef_hash D (ld_actor_id ld) (ld_contract_id ld) (ld_link_name ld)
      in case hm_get (links s) id of
           None \<Rightarrow> (Inl (Msg ''attempt to remove a non-exitent link''), s)
         | Some ld \<Rightarrow>
             let s = s\<lparr>links := hm_remove id (links s)\<rparr>;
                 s = update_table (ld_actor_id ld)
                       (table_del (ld_contract_id ld) (ld_link_name ld)) s
             in case with_context ''failed to encode link definition'' (encode_ld X ld) of
                  Inl e \<Rightarrow> (Inl e, s)
                | Inr msgp \<Rightarrow>
                    let (r, s) = publish X (linkdefs_topic s ld ''del'') msgp s
                    in (with_context ''failed to publish link definition deletion'' r, s))"

section \<open>The abstract registry\<close>

text \<open>
  What the registry means to a caller: the entity that the actor \<open>k\<close> reaches under contract \<open>c\<close> and
  link name \<open>l\<close>.
\<close>

definition link_matches :: "string \<Rightarrow> string \<Rightarrow> string \<Rightarrow> link_definition \<Rightarrow> bool" where
  "link_matches k c l ld \<longleftrightarrow> ld_actor_id ld = k \<and> ld_contract_id ld = c \<and> ld_link_name ld = l"

definition linked :: "process \<Rightarrow> string \<Rightarrow> string \<Rightarrow> string \<Rightarrow> wasmcloud_entity option" where
  "linked s k c l = map_option entity_of (find (link_matches k c l) (hm_values (links s)))"

section \<open>Invariants\<close>

text \<open>Every link definition is stored under its own hash.\<close>

definition links_wf :: "digest \<Rightarrow> process \<Rightarrow> bool" where
  "links_wf D s \<longleftrightarrow>
     hm_wf (links s) \<and> (\<forall>id ld. hm_get (links s) id = Some ld \<longrightarrow> id = ld_hash D ld)"

text \<open>Groups are stored under their key, and no two share a link table.\<close>

definition groups_wf :: "process \<Rightarrow> bool" where
  "groups_wf s \<longleftrightarrow>
     hm_wf (actors s) \<and>
     (\<forall>k g. hm_get (actors s) k = Some g \<longrightarrow>
        ag_public_key g = k \<and> ag_links g < length (link_cells s)) \<and>
     (\<forall>k k' g g'. hm_get (actors s) k = Some g \<longrightarrow> hm_get (actors s) k' = Some g' \<longrightarrow>
        ag_links g = ag_links g' \<longrightarrow> k = k')"

text \<open>
  The link table of every group is the projection of the registry, except at the places \<open>P\<close> (actor,
  contract, link name) that an unfinished operation is about to write.
\<close>

definition tables_agree_upto :: "(string \<times> string \<times> string) set \<Rightarrow> process \<Rightarrow> bool" where
  "tables_agree_upto P s \<longleftrightarrow>
     (\<forall>k g c l. hm_get (actors s) k = Some g \<longrightarrow> (k, c, l) \<notin> P \<longrightarrow>
        table_get (link_cells s ! ag_links g) c l = linked s k c l)"

definition links_inv_upto :: "(string \<times> string \<times> string) set \<Rightarrow> digest \<Rightarrow> process \<Rightarrow> bool" where
  "links_inv_upto P D s \<longleftrightarrow> links_wf D s \<and> groups_wf s \<and> tables_agree_upto P s"

abbreviation tables_agree :: "process \<Rightarrow> bool" where
  "tables_agree \<equiv> tables_agree_upto {}"

abbreviation links_inv :: "digest \<Rightarrow> process \<Rightarrow> bool" where
  "links_inv \<equiv> links_inv_upto {}"

lemmas links_inv_def = links_inv_upto_def [of "{}"]

lemma tables_agree_def:
  "tables_agree s \<longleftrightarrow>
     (\<forall>k g c l. hm_get (actors s) k = Some g \<longrightarrow>
        table_get (link_cells s ! ag_links g) c l = linked s k c l)"
  by (simp add: tables_agree_upto_def)

lemma groups_wfI:
  assumes "hm_wf (actors s)"
    and "\<And>k g. hm_get (actors s) k = Some g \<Longrightarrow> ag_public_key g = k \<and> ag_links g < length (link_cells s)"
    and "\<And>k k' g g'. hm_get (actors s) k = Some g \<Longrightarrow> hm_get (actors s) k' = Some g' \<Longrightarrow>
      ag_links g = ag_links g' \<Longrightarrow> k = k'"
  shows "groups_wf s"
  using assms unfolding groups_wf_def by blast

lemma groups_wfD:
  assumes "groups_wf s"
  shows "hm_wf (actors s)"
    and "hm_get (actors s) k = Some g \<Longrightarrow> ag_public_key g = k"
    and "hm_get (actors s) k = Some g \<Longrightarrow> ag_links g < length (link_cells s)"
    and "hm_get (actors s) k = Some g \<Longrightarrow> hm_get (actors s) k' = Some g' \<Longrightarrow>
      ag_links g = ag_links g' \<Longrightarrow> k = k'"
  using assms unfolding groups_wf_def by blast+

section \<open>Lookup in the registry\<close>

lemma links_wfD: "links_wf D s \<Longrightarrow> hm_get (links s) i = Some ld \<Longrightarrow> ld_hash D ld = i"
  by (simp add: links_wf_def)

lemma links_wf_hm [simp]: "links_wf D s \<Longrightarrow> hm_wf (links s)"
  by (simp add: links_wf_def)

lemma ld_hash_matches: "link_matches k c l ld \<Longrightarrow> ld_hash D ld = linkdef_hash D k c l"
  by (simp add: ld_hash_def link_matches_def)

lemma link_matches_self [simp]:
  "link_matches (ld_actor_id ld) (ld_contract_id ld) (ld_link_name ld) ld"
  by (simp add: link_matches_def)

text \<open>The registry is an index: a lookup by the hash finds what a search of the values finds.\<close>

lemma linked_lookup:
  assumes wf: "links_wf D s"
  shows "linked s k c l =
    (case hm_get (links s) (linkdef_hash D k c l) of
       None \<Rightarrow> None
     | Some ld \<Rightarrow> if link_matches k c l ld then Some (entity_of ld) else None)"
proof (cases "find (link_matches k c l) (hm_values (links s))")
  case None
  then have none: "\<not> link_matches k c l ld" if "hm_get (links s) i = Some ld" for i ld
    using that wf by (force simp: find_None_iff hm_values_iff)
  with None show ?thesis
    by (simp add: linked_def split: option.split)
next
  case (Some ld)
  then have ld: "ld \<in> set (hm_values (links s))" "link_matches k c l ld"
    by (auto simp: find_Some_iff)
  with wf obtain i where i: "hm_get (links s) i = Some ld"
    by (auto simp: hm_values_iff)
  then have "i = linkdef_hash D k c l"
    using links_wfD [OF wf i] ld_hash_matches [OF ld(2)] by simp
  with i ld Some show ?thesis
    by (simp add: linked_def)
qed

text \<open>
  A new entry is seen at its own key only, and a removed entry disappears at its own key only,
  whatever else the digest maps to the same place.
\<close>

lemma linked_insert:
  assumes wf: "links_wf D s" and vac: "hm_get (links s) (ld_hash D ld) = None"
  shows "linked (s\<lparr>links := hm_insert (ld_hash D ld) ld (links s)\<rparr>) k c l =
    (if link_matches k c l ld then Some (entity_of ld) else linked s k c l)"
    (is "linked ?t k c l = _")
proof -
  have wf': "links_wf D ?t"
    using wf by (auto simp: links_wf_def split: if_splits)
  show ?thesis
    unfolding linked_lookup [OF wf'] linked_lookup [OF wf]
    using vac ld_hash_matches [of k c l ld D] by (auto split: option.split)
qed

lemma linked_remove:
  assumes wf: "links_wf D s" and occ: "hm_get (links s) i = Some ld"
  shows "linked (s\<lparr>links := hm_remove i (links s)\<rparr>) k c l =
    (if link_matches k c l ld then None else linked s k c l)"
    (is "linked ?t k c l = _")
proof -
  have wf': "links_wf D ?t"
    using wf by (auto simp: links_wf_def split: if_splits)
  have "i = ld_hash D ld"
    using links_wfD [OF wf occ] by simp
  then show ?thesis
    unfolding linked_lookup [OF wf'] linked_lookup [OF wf]
    using occ ld_hash_matches [of k c l ld D] by (auto split: option.split)
qed

lemma linked_cong [simp]:
  "linked (s\<lparr>link_cells := x\<rparr>) = linked s"
  "linked (s\<lparr>events := es\<rparr>) = linked s"
  "linked (s\<lparr>actors := gs\<rparr>) = linked s"
  "linked (s\<lparr>actor_keys := ks\<rparr>) = linked s"
  by (simp_all add: linked_def fun_eq_iff)

section \<open>The table built for a new group\<close>

text \<open>
  Folding the definitions of an actor into a table does not depend on the order in which the hash
  map hands them out, because no two of them have the same key.
\<close>

lemma table_get_put_link:
  "table_get (put_link t ld) c l =
     (if ld_contract_id ld = c \<and> ld_link_name ld = l then Some (entity_of ld) else table_get t c l)"
  by (auto simp: put_link_def)

lemma table_get_foldl:
  assumes "\<And>x y. x \<in> set lds \<Longrightarrow> y \<in> set lds \<Longrightarrow> link_matches k c l x \<Longrightarrow>
             link_matches k c l y \<Longrightarrow> x = y"
  shows "table_get (foldl put_link t (filter (\<lambda>ld. ld_actor_id ld = k) lds)) c l =
    (case find (link_matches k c l) lds of
       None \<Rightarrow> table_get t c l | Some ld \<Rightarrow> Some (entity_of ld))"
  using assms
proof (induction lds arbitrary: t)
  case Nil
  then show ?case by simp
next
  case (Cons ld lds)
  have IH: "table_get (foldl put_link t' (filter (\<lambda>ld. ld_actor_id ld = k) lds)) c l =
    (case find (link_matches k c l) lds of
       None \<Rightarrow> table_get t' c l | Some ld \<Rightarrow> Some (entity_of ld))" for t'
    using Cons.prems by (intro Cons.IH) auto
  show ?case
  proof (cases "link_matches k c l ld")
    case True
    have "find (link_matches k c l) lds = None \<or> find (link_matches k c l) lds = Some ld"
      using Cons.prems True by (cases "find (link_matches k c l) lds") (auto simp: find_Some_iff)
    with True show ?thesis
      by (auto simp: IH table_get_put_link link_matches_def [of k c l ld])
  next
    case False
    then show ?thesis
      by (auto simp: IH table_get_put_link link_matches_def [of k c l ld] split: option.split)
  qed
qed

lemma get_actor_links_linked:
  assumes wf: "links_wf D s"
  shows "table_get (get_actor_links k s) c l = linked s k c l"
proof -
  have uniq: "x = y"
    if "x \<in> set (hm_values (links s))" "y \<in> set (hm_values (links s))"
      "link_matches k c l x" "link_matches k c l y" for x y
  proof -
    from that(1,2) wf obtain i j where
      ij: "hm_get (links s) i = Some x" "hm_get (links s) j = Some y"
      by (auto simp: hm_values_iff)
    then have "i = j"
      using links_wfD [OF wf ij(1)] links_wfD [OF wf ij(2)]
        ld_hash_matches [OF that(3), of D] ld_hash_matches [OF that(4), of D] by simp
    with ij show ?thesis by simp
  qed
  have "table_get (get_actor_links k s) c l =
    (case find (link_matches k c l) (hm_values (links s)) of
       None \<Rightarrow> table_get [] c l | Some ld \<Rightarrow> Some (entity_of ld))"
    unfolding get_actor_links_def by (rule table_get_foldl) (rule uniq)
  then show ?thesis
    by (simp add: linked_def option.case_eq_if map_option_case)
qed

section \<open>What the operations change\<close>

lemma update_table_frames [simp, host_frames]:
  "links (update_table k f s) = links s"
  "actors (update_table k f s) = actors s"
  "actor_keys (update_table k f s) = actor_keys s"
  "providers (update_table k f s) = providers s"
  "aliases (update_table k f s) = aliases s"
  "config (update_table k f s) = config s"
  "tasks (update_table k f s) = tasks s"
  "next_task (update_table k f s) = next_task s"
  "target_cells (update_table k f s) = target_cells s"
  "cluster_issuers (update_table k f s) = cluster_issuers s"
  "lattice_prefix (update_table k f s) = lattice_prefix s"
  "events (update_table k f s) = events s"
  "length (link_cells (update_table k f s)) = length (link_cells s)"
  by (simp_all add: update_table_def split: option.split)

lemma emit_frames [simp, host_frames]:
  "links (emit es s) = links s"
  "actors (emit es s) = actors s"
  "actor_keys (emit es s) = actor_keys s"
  "providers (emit es s) = providers s"
  "aliases (emit es s) = aliases s"
  "config (emit es s) = config s"
  "tasks (emit es s) = tasks s"
  "next_task (emit es s) = next_task s"
  "cluster_issuers (emit es s) = cluster_issuers s"
  "lattice_prefix (emit es s) = lattice_prefix s"
  "link_cells (emit es s) = link_cells s"
  "target_cells (emit es s) = target_cells s"
  "events (emit es s) = events s @ es"
  by (simp_all add: emit_def)

lemma emit_Nil [simp]: "emit [] s = s"
  by (simp add: emit_def)

text \<open>The effect of a successful insertion and of a removal on the state, messages apart.\<close>

definition link_put :: "digest \<Rightarrow> link_definition \<Rightarrow> process \<Rightarrow> process" where
  "link_put D ld s =
     update_table (ld_actor_id ld) (\<lambda>t. put_link t ld)
       (s\<lparr>links := hm_insert (ld_hash D ld) ld (links s)\<rparr>)"

definition link_drop :: "string \<Rightarrow> link_definition \<Rightarrow> process \<Rightarrow> process" where
  "link_drop i ld s =
     update_table (ld_actor_id ld) (table_del (ld_contract_id ld) (ld_link_name ld))
       (s\<lparr>links := hm_remove i (links s)\<rparr>)"

lemma add_linkdef_occupied:
  "hm_get (links s) (ld_hash D ld) = Some ld' \<Longrightarrow> add_linkdef D X ld s = (Inr (), s)"
  by (simp add: add_linkdef_def ld_hash_def)

lemma add_linkdef_vacant:
  assumes "hm_get (links s) (ld_hash D ld) = None"
  shows "add_linkdef D X ld s =
    (case encode_ld X ld of
       Inl e \<Rightarrow> (Inl (Wrap ''failed to encode link definition'' e), link_put D ld s)
     | Inr p \<Rightarrow>
         (case nats_publish X (linkdefs_topic s ld ''put'') p of
            Inl e \<Rightarrow> (Inl (Wrap ''failed to publish link deinition'' e), link_put D ld s)
          | Inr u \<Rightarrow> (Inr (), emit [Published (linkdefs_topic s ld ''put'') p] (link_put D ld s))))"
  using assms
  by (simp add: add_linkdef_def ld_hash_def link_put_def publish_def linkdefs_topic_def Let_def
      split: sum.split)

lemma delete_linkdef_vacant:
  "hm_get (links s) (ld_hash D ld) = None \<Longrightarrow>
   delete_linkdef D X ld s = (Inl (Msg ''attempt to remove a non-exitent link''), s)"
  by (simp add: delete_linkdef_def ld_hash_def)

lemma delete_linkdef_occupied:
  assumes "hm_get (links s) (ld_hash D ld) = Some ld'"
  shows "delete_linkdef D X ld s =
    (case encode_ld X ld' of
       Inl e \<Rightarrow> (Inl (Wrap ''failed to encode link definition'' e), link_drop (ld_hash D ld) ld' s)
     | Inr p \<Rightarrow>
         (case nats_publish X (linkdefs_topic s ld' ''del'') p of
            Inl e \<Rightarrow>
              (Inl (Wrap ''failed to publish link definition deletion'' e),
               link_drop (ld_hash D ld) ld' s)
          | Inr u \<Rightarrow>
              (Inr (), emit [Published (linkdefs_topic s ld' ''del'') p]
                 (link_drop (ld_hash D ld) ld' s))))"
  using assms
  by (simp add: delete_linkdef_def ld_hash_def link_drop_def publish_def linkdefs_topic_def Let_def
      split: sum.split)

lemma add_linkdef_put:
  "hm_get (links s) (ld_hash D ld) = None \<Longrightarrow> \<exists>es. snd (add_linkdef D X ld s) = emit es (link_put D ld s)"
  by (auto simp: add_linkdef_vacant intro: exI [of _ "[]"] split: sum.split)

lemma delete_linkdef_drop:
  "hm_get (links s) (ld_hash D ld) = Some ld' \<Longrightarrow>
   \<exists>es. snd (delete_linkdef D X ld s) = emit es (link_drop (ld_hash D ld) ld' s)"
  by (auto simp: delete_linkdef_occupied intro: exI [of _ "[]"] split: sum.split)

lemma add_linkdef_snd:
  obtains (skip) ld' where "hm_get (links s) (ld_hash D ld) = Some ld'" "snd (add_linkdef D X ld s) = s"
  | (put) es where "hm_get (links s) (ld_hash D ld) = None"
      "snd (add_linkdef D X ld s) = emit es (link_put D ld s)"
proof (cases "hm_get (links s) (ld_hash D ld)")
  case (Some ld')
  then show ?thesis using skip by (simp add: add_linkdef_occupied)
next
  case None
  with add_linkdef_put [OF None] put show ?thesis by blast
qed

lemma delete_linkdef_snd:
  obtains (absent) "hm_get (links s) (ld_hash D ld) = None" "snd (delete_linkdef D X ld s) = s"
  | (drop) ld' es where "hm_get (links s) (ld_hash D ld) = Some ld'"
      "snd (delete_linkdef D X ld s) = emit es (link_drop (ld_hash D ld) ld' s)"
proof (cases "hm_get (links s) (ld_hash D ld)")
  case None
  then show ?thesis using absent by (simp add: delete_linkdef_vacant)
next
  case (Some ld')
  with delete_linkdef_drop [OF Some] drop show ?thesis by blast
qed

section \<open>The registry and the tables agree\<close>

lemma linked_emit [simp]: "linked (emit es s) = linked s"
  by (simp add: emit_def)

lemma linked_update_table [simp]: "linked (update_table k f s) = linked s"
  by (simp add: linked_def fun_eq_iff)

lemma links_wf_cong: "links t = links s \<Longrightarrow> links_wf D t = links_wf D s"
  by (simp add: links_wf_def)

lemma links_inv_emit [simp]: "links_inv_upto P D (emit es s) = links_inv_upto P D s"
  by (simp add: links_inv_upto_def links_wf_def groups_wf_def tables_agree_upto_def)

lemma links_inv_update_table:
  assumes wf: "links_wf D s" and gr: "groups_wf s"
    and own: "\<And>g c l. hm_get (actors s) key = Some g \<Longrightarrow>
      table_get (f (link_cells s ! ag_links g)) c l = linked s key c l"
    and oth: "\<And>k g c l. hm_get (actors s) k = Some g \<Longrightarrow> k \<noteq> key \<Longrightarrow>
      table_get (link_cells s ! ag_links g) c l = linked s k c l"
  shows "links_inv D (update_table key f s)"
proof -
  have "table_get (link_cells (update_table key f s) ! ag_links g) c l = linked s k c l"
    if g: "hm_get (actors s) k = Some g" for k g c l
  proof (cases "hm_get (actors s) key")
    case None
    with g have "k \<noteq> key" by auto
    with None oth [OF g] show ?thesis by (simp add: update_table_def)
  next
    case (Some h)
    show ?thesis
    proof (cases "k = key")
      case True
      with Some g gr own [OF Some] show ?thesis
        by (simp add: update_table_def groups_wf_def)
    next
      case False
      with Some g gr have "ag_links g \<noteq> ag_links h"
        unfolding groups_wf_def by blast
      with Some oth [OF g False] show ?thesis by (simp add: update_table_def)
    qed
  qed
  then show ?thesis
    using wf gr by (simp add: links_inv_def links_wf_def groups_wf_def tables_agree_def)
qed

lemma link_put_inv:
  assumes inv: "links_inv D s" and vac: "hm_get (links s) (ld_hash D ld) = None"
  shows "links_inv D (link_put D ld s)"
  unfolding link_put_def
proof (rule links_inv_update_table)
  from inv have wf: "links_wf D s" and gr: "groups_wf s" and ag: "tables_agree s"
    by (auto simp: links_inv_def)
  show "links_wf D (s\<lparr>links := hm_insert (ld_hash D ld) ld (links s)\<rparr>)"
    using wf by (auto simp: links_wf_def split: if_splits)
  show "groups_wf (s\<lparr>links := hm_insert (ld_hash D ld) ld (links s)\<rparr>)"
    using gr by (simp add: groups_wf_def)
  show "table_get (put_link (link_cells (s\<lparr>links := hm_insert (ld_hash D ld) ld (links s)\<rparr>) ! ag_links g) ld) c l =
      linked (s\<lparr>links := hm_insert (ld_hash D ld) ld (links s)\<rparr>) (ld_actor_id ld) c l"
    if "hm_get (actors (s\<lparr>links := hm_insert (ld_hash D ld) ld (links s)\<rparr>)) (ld_actor_id ld) = Some g"
    for g c l
    using that ag
    by (simp add: linked_insert [OF wf vac] table_get_put_link link_matches_def tables_agree_def)
  show "table_get (link_cells (s\<lparr>links := hm_insert (ld_hash D ld) ld (links s)\<rparr>) ! ag_links g) c l =
      linked (s\<lparr>links := hm_insert (ld_hash D ld) ld (links s)\<rparr>) k c l"
    if "hm_get (actors (s\<lparr>links := hm_insert (ld_hash D ld) ld (links s)\<rparr>)) k = Some g"
      "k \<noteq> ld_actor_id ld" for k g c l
    using that ag by (simp add: linked_insert [OF wf vac] link_matches_def tables_agree_def)
qed

lemma link_drop_inv:
  assumes inv: "links_inv D s" and occ: "hm_get (links s) i = Some ld"
  shows "links_inv D (link_drop i ld s)"
  unfolding link_drop_def
proof (rule links_inv_update_table)
  from inv have wf: "links_wf D s" and gr: "groups_wf s" and ag: "tables_agree s"
    by (auto simp: links_inv_def)
  show "links_wf D (s\<lparr>links := hm_remove i (links s)\<rparr>)"
    using wf by (auto simp: links_wf_def split: if_splits)
  show "groups_wf (s\<lparr>links := hm_remove i (links s)\<rparr>)"
    using gr by (simp add: groups_wf_def)
  show "table_get (table_del (ld_contract_id ld) (ld_link_name ld)
        (link_cells (s\<lparr>links := hm_remove i (links s)\<rparr>) ! ag_links g)) c l =
      linked (s\<lparr>links := hm_remove i (links s)\<rparr>) (ld_actor_id ld) c l"
    if "hm_get (actors (s\<lparr>links := hm_remove i (links s)\<rparr>)) (ld_actor_id ld) = Some g" for g c l
    using that ag by (simp add: linked_remove [OF wf occ] link_matches_def tables_agree_def)
  show "table_get (link_cells (s\<lparr>links := hm_remove i (links s)\<rparr>) ! ag_links g) c l =
      linked (s\<lparr>links := hm_remove i (links s)\<rparr>) k c l"
    if "hm_get (actors (s\<lparr>links := hm_remove i (links s)\<rparr>)) k = Some g" "k \<noteq> ld_actor_id ld"
    for k g c l
    using that ag by (simp add: linked_remove [OF wf occ] link_matches_def tables_agree_def)
qed

lemma add_linkdef_inv: "links_inv D s \<Longrightarrow> links_inv D (snd (add_linkdef D X ld s))"
  by (rule add_linkdef_snd [of s D ld X]) (simp_all add: link_put_inv)

lemma delete_linkdef_inv: "links_inv D s \<Longrightarrow> links_inv D (snd (delete_linkdef D X ld s))"
  by (rule delete_linkdef_snd [of s D ld X]) (simp_all add: link_drop_inv)

section \<open>Lookups after an operation\<close>

lemma linked_link_put:
  assumes "links_wf D s" "hm_get (links s) (ld_hash D ld) = None"
  shows "linked (link_put D ld s) k c l =
    (if link_matches k c l ld then Some (entity_of ld) else linked s k c l)"
  using linked_insert [OF assms] by (simp add: link_put_def)

lemma linked_link_drop:
  assumes "links_wf D s" "hm_get (links s) i = Some ld"
  shows "linked (link_drop i ld s) k c l = (if link_matches k c l ld then None else linked s k c l)"
  using linked_remove [OF assms] by (simp add: link_drop_def)

lemma link_put_get [simp]: "hm_get (links (link_put D ld s)) (ld_hash D ld) = Some ld"
  by (simp add: link_put_def)

end
