(* ===== verification/Kasm_Actors.thy ===== *)
theory Kasm_Actors
  imports Kasm_Links
begin

text \<open>
  Actors of a host (\<^verbatim>\<open>crates/host/src/lib.rs\<close>: \<^verbatim>\<open>fetch_actor\<close>, \<^verbatim>\<open>instantiate_actor\<close>, \<^verbatim>\<open>start_actor\<close>,
  \<^verbatim>\<open>reconcile_actor\<close>, \<^verbatim>\<open>remove_actor\<close>, \<^verbatim>\<open>stats\<close>). An actor resource is bound to the public key of its
  module at its first reconciliation; the resources with the same key form a group that shares one
  link table; each resource runs as many instances as it has replicas, and each instance is served by
  one spawned task.
\<close>

section \<open>Operations\<close>

text \<open>
  Outcomes of the calls that leave the program. Subscribing and drawing an identifier happen several
  times in one operation and are indexed by the number of the attempt. \<open>entity_default\<close> is the
  \<^verbatim>\<open>Default\<close> value of \<^verbatim>\<open>WasmCloudEntity\<close>.
\<close>

record actor_ext =
  fetch_module :: "string \<Rightarrow> bool \<Rightarrow> (string, registry_config) hmap \<Rightarrow> bytes res"
  new_rt_actor :: "bytes \<Rightarrow> rt_actor res"
  queue_subscribe :: "nat \<Rightarrow> string \<Rightarrow> unit res"
  new_ulid :: "nat \<Rightarrow> 128 word"
  entity_default :: wasmcloud_entity

definition fetch_actor :: "actor_ext \<Rightarrow> string \<Rightarrow> process \<Rightarrow> rt_actor res" where
  "fetch_actor X actor_ref s =
     and_then
       (with_context ''failed to fetch actor''
          (fetch_module X actor_ref (hc_allow_file_load (config s)) (registry_settings s)))
       (\<lambda>actor. with_context ''failed to initialize actor'' (new_rt_actor X actor))"

definition actor_topic :: "process \<Rightarrow> string \<Rightarrow> string" where
  "actor_topic s subj = ''wasmbus.rpc.'' @ lattice_prefix s @ ''.'' @ subj"

text \<open>
  The stream of \<^verbatim>\<open>instantiate_actor\<close>: subscribe, create the instance, spawn its task. The first
  failure ends the stream; the tasks spawned before it keep running.
\<close>

fun instantiate_from ::
    "actor_ext \<Rightarrow> string \<Rightarrow> instance_pool \<Rightarrow> handler \<Rightarrow> nat \<Rightarrow> nat \<Rightarrow> process \<Rightarrow>
     actor_instance list res \<times> process" where
  "instantiate_from X topic pool hdl i 0 s = (Inr [], s)"
| "instantiate_from X topic pool hdl i (Suc n) s =
     (case with_context ''failed to subscribe to actor call queue'' (queue_subscribe X i topic) of
        Inl e \<Rightarrow> (Inl e, s)
      | Inr _ \<Rightarrow>
          let calls = next_task s;
              instance =
                \<lparr>in_id = new_ulid X i, in_handler = hdl, in_pool = pool,
                 in_valid_issuers = cluster_issuers s, in_calls = calls\<rparr>;
              s = emit [Subscribed calls topic]
                    (s\<lparr>tasks := tasks s @ [(calls, topic)], next_task := Suc calls\<rparr>)
          in case instantiate_from X topic pool hdl (Suc i) n s of
               (Inl e, s) \<Rightarrow> (Inl e, s)
             | (Inr instances, s) \<Rightarrow> (Inr (instance # instances), s))"

definition instantiate_actor ::
    "actor_ext \<Rightarrow> actor_claims \<Rightarrow> string \<Rightarrow> nat \<Rightarrow> instance_pool \<Rightarrow> handler \<Rightarrow> process \<Rightarrow>
     actor_instance list res \<times> process" where
  "instantiate_actor X claims actor_ref count pool hdl s =
     (case instantiate_from X (actor_topic s (subject claims)) pool hdl 0 count s of
        (r, s) \<Rightarrow> (with_context ''failed to instantiate actor'' r, s))"

definition start_actor ::
    "actor_ext \<Rightarrow> rt_actor \<Rightarrow> string \<Rightarrow> nat \<Rightarrow> nat \<Rightarrow> process \<Rightarrow> actor res \<times> process" where
  "start_actor X act actor_ref replica links_ptr s =
     (case some_or ''claims missing'' (rt_claims act) of
        Inl e \<Rightarrow> (Inl e, s)
      | Inr claims \<Rightarrow>
          let origin = (entity_default X)\<lparr>ent_public_key := subject claims\<rparr>;
              handler =
                \<lparr>hd_lattice_prefix = lattice_prefix s, hd_cluster_key = cluster_key s,
                 hd_host_key = host_key s, hd_claims = claims, hd_origin = origin,
                 hd_links = links_ptr, hd_targets = length (target_cells s)\<rparr>;
              s = s\<lparr>target_cells := target_cells s @ [[]]\<rparr>;
              pool = \<lparr>pool_actor = act, pool_max = Some replica\<rparr>
          in case instantiate_actor X claims actor_ref replica pool handler s of
               (Inl e, s) \<Rightarrow> (Inl (Wrap ''failed to instantiate actor'' e), s)
             | (Inr instances, s) \<Rightarrow>
                 (Inr \<lparr>ac_image_ref = actor_ref, ac_handler = handler, ac_pool = pool,
                       ac_instances = instances\<rparr>, s))"

text \<open>A write to the actors of a group through the shared group object.\<close>

definition set_actor :: "string \<Rightarrow> string \<Rightarrow> actor \<Rightarrow> process \<Rightarrow> process" where
  "set_actor key n a s =
     (case hm_get (actors s) key of
        None \<Rightarrow> s
      | Some g \<Rightarrow>
          s\<lparr>actors := hm_insert key (g\<lparr>ag_actors := hm_insert n a (ag_actors g)\<rparr>) (actors s)\<rparr>)"

text \<open>\<^verbatim>\<open>instance.calls.abort()\<close> for each drained instance: its task ends.\<close>

definition abort_calls :: "actor_instance list \<Rightarrow> process \<Rightarrow> process" where
  "abort_calls is s =
     emit (map (\<lambda>i. Aborted (in_calls i)) is)
       (s\<lparr>tasks := filter (\<lambda>t. fst t \<notin> set (map in_calls is)) (tasks s)\<rparr>)"

text \<open>The group of a key, created with the links registered for it when it is missing.\<close>

definition group_entry :: "string \<Rightarrow> process \<Rightarrow> actor_group \<times> process" where
  "group_entry key s =
     (case hm_get (actors s) key of
        None \<Rightarrow>
          let tbl = get_actor_links key s;
              grp = \<lparr>ag_public_key = key, ag_actors = [], ag_links = length (link_cells s)\<rparr>
          in (grp, s\<lparr>link_cells := link_cells s @ [tbl],
                       actors := hm_insert key grp (actors s)\<rparr>)
      | Some grp \<Rightarrow> (grp, s))"

text \<open>The match on the actor's entry of its group: start it, or scale it up or down.\<close>

definition scale_actor ::
    "actor_ext \<Rightarrow> rt_actor \<Rightarrow> actor_claims \<Rightarrow> string \<Rightarrow> string \<Rightarrow> nat \<Rightarrow> actor_group \<Rightarrow> process \<Rightarrow>
     actor_claims res \<times> process" where
  "scale_actor X act claims n actor_ref replica grp s =
     (case hm_get (ag_actors grp) n of
        None \<Rightarrow>
          (case nonzero replica of
             None \<Rightarrow> (Inr claims, s)
           | Some replica \<Rightarrow>
               (case start_actor X act actor_ref replica (ag_links grp) s of
                  (Inl e, s) \<Rightarrow> (Inl (Wrap ''failed to start actor'' e), s)
                | (Inr a, s) \<Rightarrow> (Inr claims, set_actor (subject claims) n a s)))
      | Some a \<Rightarrow>
          let current = length (ac_instances a)
          in case checked_sub replica current of
               Some delta \<Rightarrow>
                 (case nonzero delta of
                    None \<Rightarrow> (Inr claims, s)
                  | Some delta \<Rightarrow>
                      (case instantiate_actor X claims (ac_image_ref a) delta (ac_pool a)
                              (ac_handler a) s of
                         (Inl e, s) \<Rightarrow> (Inl (Wrap ''failed to instantiate actor'' e), s)
                       | (Inr delta, s) \<Rightarrow>
                           (Inr claims, set_actor (subject claims) n
                              (a\<lparr>ac_instances := ac_instances a @ delta\<rparr>) s)))
             | None \<Rightarrow>
                 (case checked_sub current replica of
                    None \<Rightarrow> (Inr claims, s)
                  | Some delta \<Rightarrow>
                      (Inr claims,
                       abort_calls (take delta (ac_instances a))
                         (set_actor (subject claims) n
                            (a\<lparr>ac_instances := drop delta (ac_instances a)\<rparr>) s))))"

definition reconcile_actor ::
    "actor_ext \<Rightarrow> string \<Rightarrow> string \<Rightarrow> nat \<Rightarrow> process \<Rightarrow> actor_claims res \<times> process" where
  "reconcile_actor X n actor_ref replica s =
     (case fetch_actor X actor_ref s of
        Inl e \<Rightarrow> (Inl e, s)
      | Inr act \<Rightarrow>
          (case some_or ''claims missing'' (rt_claims act) of
             Inl e \<Rightarrow> (Inl e, s)
           | Inr claims \<Rightarrow>
               if (case hm_get (actor_keys s) n of
                     Some pk \<Rightarrow> pk \<noteq> subject claims | None \<Rightarrow> False)
               then (Inl (Msg ''actor public key is change''), s)
               else
                 let s = (case hm_get (actor_keys s) n of
                            None \<Rightarrow> s\<lparr>actor_keys := hm_insert n (subject claims) (actor_keys s)\<rparr>
                          | Some _ \<Rightarrow> s);
                     (grp, s) = group_entry (subject claims) s
                 in scale_actor X act claims n actor_ref replica grp s))"

definition remove_actor :: "string \<Rightarrow> process \<Rightarrow> unit res \<times> process" where
  "remove_actor n s =
     (case hm_get (actor_keys s) n of
        None \<Rightarrow> (Inr (), s)
      | Some pk \<Rightarrow>
          let s = (case hm_get (actors s) pk of
                     None \<Rightarrow> s
                   | Some grp \<Rightarrow>
                       let (grp, s) =
                             (case hm_get (ag_actors grp) n of
                                None \<Rightarrow> (grp, s)
                              | Some a \<Rightarrow>
                                  let grp = grp\<lparr>ag_actors := hm_remove n (ag_actors grp)\<rparr>
                                  in (grp, abort_calls (ac_instances a)
                                        (s\<lparr>actors := hm_insert pk grp (actors s)\<rparr>)))
                       in if ag_actors grp = []
                          then s\<lparr>actors := hm_remove pk (actors s)\<rparr>
                          else s)
          in (Inr (), s\<lparr>actor_keys := hm_remove n (actor_keys s)\<rparr>))"

definition stats :: "process \<Rightarrow> host_stats" where
  "stats s =
     (let actor_count = length (actors s);
          instance_count =
            sum_list (map (\<lambda>grp. sum_list (map (\<lambda>a. length (ac_instances a))
              (hm_values (ag_actors grp)))) (hm_values (actors s)))
      in \<lparr>st_provider_count = word_of_nat (length (providers s)),
          st_actor_count = word_of_nat actor_count,
          st_actor_instance_count = word_of_nat instance_count\<rparr>)"

section \<open>The abstract view: who runs what\<close>

text \<open>The actor stored under a key and a resource name, and the tasks that serve it.\<close>

definition actor_at :: "process \<Rightarrow> string \<Rightarrow> string \<Rightarrow> actor option" where
  "actor_at s k n = (case hm_get (actors s) k of None \<Rightarrow> None | Some g \<Rightarrow> hm_get (ag_actors g) n)"

definition instances_at :: "process \<Rightarrow> string \<Rightarrow> string \<Rightarrow> actor_instance list" where
  "instances_at s k n = (case actor_at s k n of None \<Rightarrow> [] | Some a \<Rightarrow> ac_instances a)"

definition calls_at :: "process \<Rightarrow> string \<Rightarrow> string \<Rightarrow> nat list" where
  "calls_at s k n = map in_calls (instances_at s k n)"

section \<open>Invariants\<close>

text \<open>
  A stored actor hangs together: it is reachable from its resource name, its handler reads the
  group's link table and speaks for the group's key, and its instances are copies of its handler and
  pool.
\<close>

definition actor_wf :: "process \<Rightarrow> string \<Rightarrow> actor_group \<Rightarrow> actor \<Rightarrow> bool" where
  "actor_wf s k g a \<longleftrightarrow>
     hd_links (ac_handler a) = ag_links g \<and>
     subject (hd_claims (ac_handler a)) = k \<and>
     hd_targets (ac_handler a) < length (target_cells s) \<and>
     (\<forall>i \<in> set (ac_instances a).
        in_handler i = ac_handler a \<and> in_pool i = ac_pool a \<and>
        in_valid_issuers i = cluster_issuers s)"

definition actors_wf :: "process \<Rightarrow> bool" where
  "actors_wf s \<longleftrightarrow>
     hm_wf (actor_keys s) \<and>
     (\<forall>k g. hm_get (actors s) k = Some g \<longrightarrow>
        hm_wf (ag_actors g) \<and>
        (\<forall>n a. hm_get (ag_actors g) n = Some a \<longrightarrow>
           hm_get (actor_keys s) n = Some k \<and> actor_wf s k g a))"

text \<open>
  Tasks are numbered without reuse, two instances never share one, and the task of every instance is
  alive and listens on the topic of the group's key.
\<close>

definition tasks_wf :: "process \<Rightarrow> bool" where
  "tasks_wf s \<longleftrightarrow>
     (\<forall>t \<in> set (tasks s). fst t < next_task s) \<and>
     (\<forall>k n. distinct (calls_at s k n)) \<and>
     (\<forall>k n k' n'. (k, n) \<noteq> (k', n') \<longrightarrow> set (calls_at s k n) \<inter> set (calls_at s k' n') = {}) \<and>
     (\<forall>k n h. h \<in> set (calls_at s k n) \<longrightarrow> (h, actor_topic s k) \<in> set (tasks s))"

text \<open>Nothing runs that the host does not know of.\<close>

definition no_orphans :: "process \<Rightarrow> bool" where
  "no_orphans s \<longleftrightarrow> (\<forall>h t. (h, t) \<in> set (tasks s) \<longrightarrow> (\<exists>k n. h \<in> set (calls_at s k n)))"

definition host_inv_upto :: "(string \<times> string \<times> string) set \<Rightarrow> digest \<Rightarrow> process \<Rightarrow> bool" where
  "host_inv_upto P D s \<longleftrightarrow> links_inv_upto P D s \<and> actors_wf s \<and> tasks_wf s"

abbreviation host_inv :: "digest \<Rightarrow> process \<Rightarrow> bool" where
  "host_inv \<equiv> host_inv_upto {}"

lemmas host_inv_def = host_inv_upto_def [of "{}"]

section \<open>Frames\<close>

lemma links_inv_frames [simp, host_frames]:
  "links_inv_upto P D (s\<lparr>tasks := ts\<rparr>) = links_inv_upto P D s"
  "links_inv_upto P D (s\<lparr>next_task := i\<rparr>) = links_inv_upto P D s"
  "links_inv_upto P D (s\<lparr>actor_keys := ks\<rparr>) = links_inv_upto P D s"
  "links_inv_upto P D (s\<lparr>target_cells := cs\<rparr>) = links_inv_upto P D s"
  "links_inv_upto P D (s\<lparr>providers := ps\<rparr>) = links_inv_upto P D s"
  "links_inv_upto P D (s\<lparr>children := c\<rparr>) = links_inv_upto P D s"
  "links_inv_upto P D (s\<lparr>next_child := i\<rparr>) = links_inv_upto P D s"
  by (simp_all add: links_inv_upto_def links_wf_def groups_wf_def tables_agree_upto_def linked_def)

lemma links_inv_group_update:
  assumes "links_inv_upto P D s" "hm_get (actors s) k = Some g"
    and "ag_links g' = ag_links g" "ag_public_key g' = ag_public_key g"
  shows "links_inv_upto P D (s\<lparr>actors := hm_insert k g' (actors s)\<rparr>)"
proof -
  have gr: "groups_wf s"
    using assms(1) by (simp add: links_inv_upto_def)
  have "groups_wf (s\<lparr>actors := hm_insert k g' (actors s)\<rparr>)"
    using assms(2-4) by (intro groups_wfI)
      (auto simp: groups_wfD(1) [OF gr] split: if_splits
        dest: groups_wfD(2,3) [OF gr] groups_wfD(4) [OF gr])
  moreover have "tables_agree_upto P (s\<lparr>actors := hm_insert k g' (actors s)\<rparr>)"
    using assms by (auto simp: links_inv_upto_def tables_agree_upto_def split: if_splits)
  ultimately show ?thesis
    using assms(1) by (simp add: links_inv_upto_def links_wf_def)
qed

lemma links_inv_group_remove:
  assumes "links_inv_upto P D s"
  shows "links_inv_upto P D (s\<lparr>actors := hm_remove k (actors s)\<rparr>)"
proof -
  have gr: "groups_wf s"
    using assms by (simp add: links_inv_upto_def)
  have "groups_wf (s\<lparr>actors := hm_remove k (actors s)\<rparr>)"
    by (intro groups_wfI)
      (auto simp: groups_wfD(1) [OF gr] split: if_splits
        dest: groups_wfD(2,3) [OF gr] groups_wfD(4) [OF gr])
  moreover have "tables_agree_upto P (s\<lparr>actors := hm_remove k (actors s)\<rparr>)"
    using assms by (auto simp: links_inv_upto_def tables_agree_upto_def split: if_splits)
  ultimately show ?thesis
    using assms by (simp add: links_inv_upto_def links_wf_def)
qed

lemma actor_at_cong: "actors t = actors s \<Longrightarrow> actor_at t = actor_at s"
  by (simp add: actor_at_def fun_eq_iff)

lemma calls_at_cong: "actors t = actors s \<Longrightarrow> calls_at t = calls_at s"
  by (simp add: calls_at_def instances_at_def actor_at_def fun_eq_iff)

lemma actor_wf_cong:
  "target_cells t = target_cells s \<Longrightarrow> cluster_issuers t = cluster_issuers s \<Longrightarrow>
   actor_wf t k g a = actor_wf s k g a"
  by (simp add: actor_wf_def)

lemma actor_wf_mono:
  "actor_wf s k g a \<Longrightarrow> length (target_cells s) \<le> length (target_cells t) \<Longrightarrow>
   cluster_issuers t = cluster_issuers s \<Longrightarrow> ag_links g' = ag_links g \<Longrightarrow> actor_wf t k g' a"
  by (auto simp: actor_wf_def)

text \<open>Spawning \<open>m\<close> tasks on a topic.\<close>

definition spawn_tasks :: "string \<Rightarrow> nat \<Rightarrow> process \<Rightarrow> process" where
  "spawn_tasks topic m s =
     emit (map (\<lambda>h. Subscribed h topic) [next_task s..<next_task s + m])
       (s\<lparr>tasks := tasks s @ map (\<lambda>h. (h, topic)) [next_task s..<next_task s + m],
          next_task := next_task s + m\<rparr>)"

lemma spawn_tasks_0 [simp]: "spawn_tasks topic 0 s = s"
  by (simp add: spawn_tasks_def emit_def)

lemma spawn_tasks_Suc:
  "spawn_tasks topic m
     (emit [Subscribed (next_task s) topic]
        (s\<lparr>tasks := tasks s @ [(next_task s, topic)], next_task := Suc (next_task s)\<rparr>)) =
   spawn_tasks topic (Suc m) s"
  by (simp add: spawn_tasks_def emit_def upt_conv_Cons)

lemma spawn_tasks_frames [simp, host_frames]:
  "links (spawn_tasks topic m s) = links s"
  "actors (spawn_tasks topic m s) = actors s"
  "actor_keys (spawn_tasks topic m s) = actor_keys s"
  "providers (spawn_tasks topic m s) = providers s"
  "config (spawn_tasks topic m s) = config s"
  "cluster_issuers (spawn_tasks topic m s) = cluster_issuers s"
  "lattice_prefix (spawn_tasks topic m s) = lattice_prefix s"
  "link_cells (spawn_tasks topic m s) = link_cells s"
  "target_cells (spawn_tasks topic m s) = target_cells s"
  "next_task (spawn_tasks topic m s) = next_task s + m"
  "tasks (spawn_tasks topic m s) =
     tasks s @ map (\<lambda>h. (h, topic)) [next_task s..<next_task s + m]"
  "links_inv_upto P D (spawn_tasks topic m s) = links_inv_upto P D s"
  by (simp_all add: spawn_tasks_def emit_def) (simp add: links_inv_upto_def links_wf_def groups_wf_def
      tables_agree_upto_def linked_def)

text \<open>
  Creating \<open>n\<close> instances spawns one task per success and stops at the first failed subscription; a
  failure leaves the tasks spawned so far behind. \<open>subscribed\<close> counts the successes before it.
\<close>

fun subscribed :: "actor_ext \<Rightarrow> string \<Rightarrow> nat \<Rightarrow> nat \<Rightarrow> nat" where
  "subscribed X topic i 0 = 0"
| "subscribed X topic i (Suc n) =
     (if is_ok (queue_subscribe X i topic) then Suc (subscribed X topic (Suc i) n) else 0)"

lemma subscribed_le: "subscribed X topic i n \<le> n"
  by (induction X topic i n rule: subscribed.induct) auto

lemma subscribed_all: "(\<And>j. is_ok (queue_subscribe X j topic)) \<Longrightarrow> subscribed X topic i n = n"
  by (induction X topic i n rule: subscribed.induct) auto

lemma instantiate_from_state:
  "snd (instantiate_from X topic pool hdl i n s) = spawn_tasks topic (subscribed X topic i n) s"
proof (induction X topic pool hdl i n s rule: instantiate_from.induct)
  case (2 X topic pool hdl i n s)
  then show ?case
    by (cases "queue_subscribe X i topic") 
      (auto simp: Let_def spawn_tasks_Suc split: prod.split sum.split)
qed simp

lemma instantiate_from_ok:
  "fst (instantiate_from X topic pool hdl i n s) = Inr xs \<Longrightarrow>
   subscribed X topic i n = n \<and> map in_calls xs = [next_task s..<next_task s + n] \<and>
   (\<forall>x \<in> set xs. in_handler x = hdl \<and> in_pool x = pool \<and> in_valid_issuers x = cluster_issuers s)"
proof (induction X topic pool hdl i n s arbitrary: xs rule: instantiate_from.induct)
  case (2 X topic pool hdl i n s)
  then show ?case
    by (cases "queue_subscribe X i topic")
      (auto simp: Let_def emit_def upt_conv_Cons simp del: upt_Suc split: prod.splits sum.splits)
qed simp

lemma instantiate_from_err:
  "fst (instantiate_from X topic pool hdl i n s) = Inl e \<Longrightarrow> subscribed X topic i n < n"
proof (induction X topic pool hdl i n s arbitrary: e rule: instantiate_from.induct)
  case (2 X topic pool hdl i n s)
  then show ?case
    by (cases "queue_subscribe X i topic") (auto simp: Let_def split: prod.splits sum.splits)
qed simp

section \<open>Keeping the invariant\<close>

lemma calls_at_set_actor:
  "hm_get (actors s) k = Some g \<Longrightarrow>
   calls_at (set_actor k n a s) k' n' =
     (if k' = k \<and> n' = n then map in_calls (ac_instances a) else calls_at s k' n')"
  by (auto simp: calls_at_def instances_at_def actor_at_def set_actor_def)

lemma set_actor_frames [simp, host_frames]:
  "tasks (set_actor k n a s) = tasks s"
  "next_task (set_actor k n a s) = next_task s"
  "actor_keys (set_actor k n a s) = actor_keys s"
  "links (set_actor k n a s) = links s"
  "cluster_issuers (set_actor k n a s) = cluster_issuers s"
  "target_cells (set_actor k n a s) = target_cells s"
  "link_cells (set_actor k n a s) = link_cells s"
  "lattice_prefix (set_actor k n a s) = lattice_prefix s"
  by (simp_all add: set_actor_def split: option.split)

lemma tasks_wfD:
  assumes "tasks_wf s"
  shows "t \<in> set (tasks s) \<Longrightarrow> fst t < next_task s"
    and "distinct (calls_at s k n)"
    and "(k, n) \<noteq> (k', n') \<Longrightarrow> set (calls_at s k n) \<inter> set (calls_at s k' n') = {}"
    and "h \<in> set (calls_at s k n) \<Longrightarrow> (h, actor_topic s k) \<in> set (tasks s)"
  using assms unfolding tasks_wf_def by blast+

lemma calls_bound: "tasks_wf s \<Longrightarrow> h \<in> set (calls_at s k n) \<Longrightarrow> h < next_task s"
  by (metis fst_conv tasks_wfD(1,4))

lemma actor_topic_cong: "lattice_prefix t = lattice_prefix s \<Longrightarrow> actor_topic t = actor_topic s"
  by (simp add: actor_topic_def fun_eq_iff)

lemma tasks_wf_cong:
  assumes "actors t = actors s" "tasks t = tasks s" "next_task t = next_task s"
    and "lattice_prefix t = lattice_prefix s"
  shows "tasks_wf t = tasks_wf s"
  unfolding tasks_wf_def calls_at_cong [OF assms(1)] actor_topic_cong [OF assms(4)]
  by (simp only: assms)

text \<open>Spawning tasks keeps the invariant: nobody refers to them yet.\<close>

lemma spawn_tasks_wf:
  assumes "tasks_wf s"
  shows "tasks_wf (spawn_tasks topic m s)"
  using tasks_wfD [OF assms]
  unfolding tasks_wf_def calls_at_cong [OF spawn_tasks_frames(2)]
    actor_topic_cong [OF spawn_tasks_frames(7)]
  by (auto intro: trans_less_add1)

text \<open>Installing an actor whose tasks run and are nobody else's keeps the invariant.\<close>

lemma set_actor_tasks_wf:
  assumes wf: "tasks_wf s" and g: "hm_get (actors s) k = Some g"
    and dist: "distinct (map in_calls (ac_instances a))"
    and live: "\<And>i. i \<in> set (ac_instances a) \<Longrightarrow> (in_calls i, actor_topic s k) \<in> set (tasks s)"
    and own: "\<And>k' n' i. (k', n') \<noteq> (k, n) \<Longrightarrow> i \<in> set (ac_instances a) \<Longrightarrow>
      in_calls i \<notin> set (calls_at s k' n')"
  shows "tasks_wf (set_actor k n a s)"
proof -
  have "set (map in_calls (ac_instances a)) \<inter> set (calls_at s k' n') = {}"
    if "(k', n') \<noteq> (k, n)" for k' n'
    using own [OF that] by auto
  then show ?thesis
    using tasks_wfD [OF wf] dist live
    unfolding tasks_wf_def calls_at_set_actor [OF g] set_actor_frames
      actor_topic_cong [OF set_actor_frames(8)]
    by (auto split: if_splits)
qed

lemma set_actor_actors_wf:
  assumes wf: "actors_wf s" and g: "hm_get (actors s) k = Some g"
    and n: "hm_get (actor_keys s) n = Some k" and a: "actor_wf s k g a"
  shows "actors_wf (set_actor k n a s)"
proof -
  have "actor_wf (set_actor k n a s) k' (g'\<lparr>ag_actors := as\<rparr>) b = actor_wf s k' g' b" for k' g' as b
    by (simp add: actor_wf_def)
  moreover have "actor_wf (set_actor k n a s) k' g' b = actor_wf s k' g' b" for k' g' b
    by (simp add: actor_wf_def)
  ultimately show ?thesis
    using wf g n a unfolding actors_wf_def
    by (auto simp: set_actor_def split: if_splits)
qed

lemma set_actor_links_inv:
  "links_inv_upto P D s \<Longrightarrow> hm_get (actors s) k = Some g \<Longrightarrow> links_inv_upto P D (set_actor k n a s)"
  by (simp add: set_actor_def) (rule links_inv_group_update, auto)

text \<open>Ending tasks that no stored actor refers to keeps the invariant.\<close>

lemma abort_calls_frames [simp, host_frames]:
  "actors (abort_calls xs s) = actors s"
  "actor_keys (abort_calls xs s) = actor_keys s"
  "links (abort_calls xs s) = links s"
  "lattice_prefix (abort_calls xs s) = lattice_prefix s"
  "cluster_issuers (abort_calls xs s) = cluster_issuers s"
  "target_cells (abort_calls xs s) = target_cells s"
  "next_task (abort_calls xs s) = next_task s"
  "tasks (abort_calls xs s) = filter (\<lambda>t. fst t \<notin> set (map in_calls xs)) (tasks s)"
  "links_inv_upto P D (abort_calls xs s) = links_inv_upto P D s"
  by (simp_all add: abort_calls_def emit_def)
    (simp add: links_inv_upto_def links_wf_def groups_wf_def tables_agree_upto_def linked_def)

lemma actors_wf_cong:
  assumes "actors t = actors s" "actor_keys t = actor_keys s" "target_cells t = target_cells s"
    "cluster_issuers t = cluster_issuers s"
  shows "actors_wf t = actors_wf s"
  by (simp add: actors_wf_def actor_wf_def assms)

lemma abort_calls_inv:
  assumes inv: "host_inv_upto P D s"
    and free: "\<And>i k n. i \<in> set xs \<Longrightarrow> in_calls i \<notin> set (calls_at s k n)"
  shows "host_inv_upto P D (abort_calls xs s)"
proof -
  have wf: "tasks_wf s" using inv by (simp add: host_inv_upto_def)
  have "tasks_wf (abort_calls xs s)"
    using tasks_wfD [OF wf] free
    unfolding tasks_wf_def calls_at_cong [OF abort_calls_frames(1)] abort_calls_frames
      actor_topic_cong [OF abort_calls_frames(4)]
    by auto
  then show ?thesis
    using inv actors_wf_cong [of "abort_calls xs s" s] by (simp add: host_inv_upto_def)
qed

lemma host_inv_uptoD:
  assumes "host_inv_upto P D s"
  shows "links_inv_upto P D s" "links_wf D s" "groups_wf s" "tables_agree_upto P s" "actors_wf s" "tasks_wf s"
  using assms by (auto simp: host_inv_upto_def links_inv_upto_def)

lemma actors_wfD:
  assumes "actors_wf s" "hm_get (actors s) k = Some g"
  shows "hm_wf (ag_actors g)"
    and "hm_get (ag_actors g) n = Some a \<Longrightarrow> hm_get (actor_keys s) n = Some k"
    and "hm_get (ag_actors g) n = Some a \<Longrightarrow> actor_wf s k g a"
  using assms unfolding actors_wf_def by blast+

lemmas host_invD = host_inv_uptoD [of "{}"]

text \<open>Binding a name that has no key yet, and allocating a target table.\<close>

lemma bind_name_inv:
  assumes "host_inv_upto P D s" "hm_get (actor_keys s) n = None"
  shows "host_inv_upto P D (s\<lparr>actor_keys := hm_insert n k (actor_keys s)\<rparr>)" (is "host_inv_upto P D ?t")
proof -
  have "actors_wf ?t"
    using host_inv_uptoD(5) [OF assms(1)] assms(2)
    by (auto simp: actors_wf_def actor_wf_def split: if_splits)
  then show ?thesis
    using host_inv_uptoD(1,6) [OF assms(1)] tasks_wf_cong [of ?t s] by (simp add: host_inv_upto_def)
qed

lemma new_targets_inv:
  assumes "host_inv_upto P D s"
  shows "host_inv_upto P D (s\<lparr>target_cells := target_cells s @ cs\<rparr>)" (is "host_inv_upto P D ?t")
proof -
  have "actors_wf ?t"
    using host_inv_uptoD(5) [OF assms]
    by (auto simp: actors_wf_def actor_wf_def intro: trans_less_add1)
  then show ?thesis
    using host_inv_uptoD(1,6) [OF assms] tasks_wf_cong [of ?t s] by (simp add: host_inv_upto_def)
qed

lemma write_targets_inv:
  assumes "host_inv_upto P D s"
  shows "host_inv_upto P D (s\<lparr>target_cells := (target_cells s)[c := v]\<rparr>)" (is "host_inv_upto P D ?t")
proof -
  have "actors_wf ?t"
    using host_inv_uptoD(5) [OF assms] by (auto simp: actors_wf_def actor_wf_def)
  then show ?thesis
    using host_inv_uptoD(1,6) [OF assms] tasks_wf_cong [of ?t s] by (simp add: host_inv_upto_def)
qed

lemma spawn_tasks_inv:
  assumes "host_inv_upto P D s"
  shows "host_inv_upto P D (spawn_tasks topic m s)"
  using host_inv_uptoD [OF assms] actors_wf_cong [of "spawn_tasks topic m s" s]
  by (simp add: host_inv_upto_def spawn_tasks_wf)

text \<open>A new group starts with the table of the links registered for its key.\<close>

lemma group_entry_get:
  "group_entry k s = (g, t) \<Longrightarrow> hm_get (actors t) k = Some g"
  by (auto simp: group_entry_def Let_def split: option.splits)

lemma group_entry_frames:
  assumes "group_entry k s = (g, t)"
  shows "actor_keys t = actor_keys s" "tasks t = tasks s" "next_task t = next_task s"
    "lattice_prefix t = lattice_prefix s" "target_cells t = target_cells s"
    "cluster_issuers t = cluster_issuers s" "links t = links s" "actor_at t = actor_at s"
  using assms
  by (auto simp: group_entry_def Let_def actor_at_def fun_eq_iff split: option.splits if_splits)

lemma group_entry_links_inv:
  assumes inv: "links_inv_upto P D s" and t: "group_entry k s = (g, t)"
  shows "links_inv_upto P D t"
proof (cases "hm_get (actors s) k")
  case (Some h)
  with t inv show ?thesis by (simp add: group_entry_def)
next
  case None
  from inv have wf: "links_wf D s" and gr: "groups_wf s" and ag: "tables_agree_upto P s"
    by (auto simp: links_inv_upto_def)
  from t None have t: "t = s\<lparr>link_cells := link_cells s @ [get_actor_links k s],
      actors := hm_insert k g (actors s)\<rparr>"
    and g: "g = \<lparr>ag_public_key = k, ag_actors = [], ag_links = length (link_cells s)\<rparr>"
    by (auto simp: group_entry_def Let_def)
  have "groups_wf t"
    unfolding t using groups_wfD(1) [OF gr]
    by (intro groups_wfI)
      (auto simp: g split: if_splits dest: groups_wfD(2,3) [OF gr] groups_wfD(4) [OF gr])
  moreover have "tables_agree_upto P t"
    using ag groups_wfD(3) [OF gr]
    by (auto simp: t g tables_agree_upto_def nth_append get_actor_links_linked [OF wf] split: if_splits)
  ultimately show ?thesis
    using wf by (simp add: links_inv_upto_def links_wf_def t)
qed

lemma group_entry_inv:
  assumes inv: "host_inv_upto P D s" and t: "group_entry k s = (g, t)"
  shows "host_inv_upto P D t"
proof -
  note fr = group_entry_frames [OF t]
  have calls: "calls_at t = calls_at s"
    using fr(8) by (simp add: calls_at_def instances_at_def fun_eq_iff)
  have "tasks_wf t"
    using host_inv_uptoD(6) [OF inv] unfolding tasks_wf_def calls fr actor_topic_cong [OF fr(4)] .
  moreover have "actors_wf t"
    using t host_inv_uptoD(5) [OF inv]
    by (auto simp: group_entry_def Let_def actors_wf_def actor_wf_def hm_wf_def
        split: option.splits if_splits)
  ultimately show ?thesis
    using group_entry_links_inv [OF host_inv_uptoD(1) [OF inv] t] by (simp add: host_inv_upto_def)
qed

text \<open>Growing an actor by fresh tasks, and shrinking it.\<close>

lemma grow_inv:
  assumes inv: "host_inv_upto P D s" and g: "hm_get (actors s) k = Some g"
    and n: "hm_get (actor_keys s) n = Some k" and wf: "actor_wf s k g b"
    and b: "map in_calls (ac_instances b) = calls_at s k n @ [next_task s..<next_task s + m]"
  shows "host_inv_upto P D (set_actor k n b (spawn_tasks (actor_topic s k) m s))"
proof -
  let ?t = "spawn_tasks (actor_topic s k) m s"
  note tw = tasks_wfD [OF host_inv_uptoD(6) [OF inv]]
  have calls: "set (map in_calls (ac_instances b)) =
      set (calls_at s k n) \<union> {next_task s..<next_task s + m}"
    by (simp only: b) simp
  have bound: "h < next_task s" if "h \<in> set (calls_at s k' n')" for h k' n'
    using calls_bound [OF host_inv_uptoD(6) [OF inv] that] .
  have "tasks_wf (set_actor k n b ?t)"
  proof (rule set_actor_tasks_wf)
    show "tasks_wf ?t" by (rule spawn_tasks_wf [OF host_inv_uptoD(6) [OF inv]])
    show "hm_get (actors ?t) k = Some g" using g by simp
    show "distinct (map in_calls (ac_instances b))"
      unfolding b using tw(2) bound by fastforce
    show "(in_calls i, actor_topic ?t k) \<in> set (tasks ?t)" if "i \<in> set (ac_instances b)" for i
      using that calls tw(4) [of "in_calls i" k n] actor_topic_cong [of ?t s]
      by (force simp: image_iff)
    show "in_calls i \<notin> set (calls_at ?t k' n')"
      if "(k', n') \<noteq> (k, n)" "i \<in> set (ac_instances b)" for k' n' i
      using that calls tw(3) [OF that(1)] bound [of "in_calls i" k' n'] calls_at_cong [of ?t s]
      by force
  qed
  moreover have "actors_wf (set_actor k n b ?t)"
    using host_inv_uptoD(5) [OF spawn_tasks_inv [OF inv]] g n wf actor_wf_cong [of ?t s]
    by (intro set_actor_actors_wf) auto
  moreover have "links_inv_upto P D (set_actor k n b ?t)"
    using host_inv_uptoD(1) [OF inv] g by (intro set_actor_links_inv) auto
  ultimately show ?thesis by (simp add: host_inv_upto_def)
qed

lemma shrink_inv:
  assumes inv: "host_inv_upto P D s" and g: "hm_get (actors s) k = Some g"
    and a: "hm_get (ag_actors g) n = Some a"
  shows "host_inv_upto P D (abort_calls (take d (ac_instances a))
    (set_actor k n (a\<lparr>ac_instances := drop d (ac_instances a)\<rparr>) s))"
    (is "host_inv_upto P D (abort_calls _ ?t)")
proof (rule abort_calls_inv)
  let ?b = "a\<lparr>ac_instances := drop d (ac_instances a)\<rparr>"
  note tw = tasks_wfD [OF host_inv_uptoD(6) [OF inv]]
  have at: "calls_at s k n = map in_calls (ac_instances a)"
    using g a by (simp add: calls_at_def instances_at_def actor_at_def)
  have mem: "in_calls i \<in> set (calls_at s k n)" if "i \<in> set (ac_instances a)" for i
    using that by (simp add: at)
  have "tasks_wf ?t"
  proof (rule set_actor_tasks_wf [OF host_inv_uptoD(6) [OF inv] g])
    show "distinct (map in_calls (ac_instances ?b))"
      using tw(2) [of k n] by (simp add: at flip: drop_map)
    show "(in_calls i, actor_topic s k) \<in> set (tasks s)" if "i \<in> set (ac_instances ?b)" for i
      using that tw(4) [OF mem] by (auto dest: in_set_dropD)
    show "in_calls i \<notin> set (calls_at s k' n')"
      if "(k', n') \<noteq> (k, n)" "i \<in> set (ac_instances ?b)" for k' n' i
      using that tw(3) [OF that(1)] mem [of i] by (auto dest: in_set_dropD)
  qed
  moreover have "actors_wf ?t"
    using actors_wfD [OF host_inv_uptoD(5) [OF inv] g] a
    by (intro set_actor_actors_wf [OF host_inv_uptoD(5) [OF inv] g])
      (auto simp: actor_wf_def dest: in_set_dropD)
  moreover have "links_inv_upto P D ?t"
    by (rule set_actor_links_inv [OF host_inv_uptoD(1) [OF inv] g])
  ultimately show "host_inv_upto P D ?t" by (simp add: host_inv_upto_def)
  show "in_calls i \<notin> set (calls_at ?t k' n')" if i: "i \<in> set (take d (ac_instances a))" for i k' n'
  proof -
    have "set (map in_calls (take d (ac_instances a))) \<inter>
        set (map in_calls (drop d (ac_instances a))) = {}"
      using tw(2) [of k n] unfolding at by (metis append_take_drop_id distinct_append map_append)
    then have "in_calls i \<notin> set (map in_calls (drop d (ac_instances a)))"
      using i by auto
    then show ?thesis
      using tw(3) [of k' n' k n] mem [OF in_set_takeD [OF i]]
      by (auto simp: calls_at_set_actor [OF g])
  qed
qed

section \<open>The outcomes of scaling an actor\<close>

lemma instantiate_actor_ok:
  assumes "instantiate_actor X claims r m pool hdl s = (Inr xs, t)"
  shows "t = spawn_tasks (actor_topic s (subject claims)) m s"
    and "map in_calls xs = [next_task s..<next_task s + m]"
    and "x \<in> set xs \<Longrightarrow> in_handler x = hdl \<and> in_pool x = pool \<and> in_valid_issuers x = cluster_issuers s"
proof -
  let ?T = "actor_topic s (subject claims)"
  have ok: "fst (instantiate_from X ?T pool hdl 0 m s) = Inr xs"
    and t: "t = snd (instantiate_from X ?T pool hdl 0 m s)"
    using assms by (auto simp: instantiate_actor_def split: prod.splits)
  note * = instantiate_from_ok [OF ok]
  show "t = spawn_tasks ?T m s"
    using * t by (simp add: instantiate_from_state)
  show "map in_calls xs = [next_task s..<next_task s + m]"
    using * by simp
  show "in_handler x = hdl \<and> in_pool x = pool \<and> in_valid_issuers x = cluster_issuers s" if "x \<in> set xs"
    using * that by simp
qed

lemma instantiate_actor_err:
  assumes "instantiate_actor X claims r m pool hdl s = (Inl e, t)"
  obtains j where "j < m" "t = spawn_tasks (actor_topic s (subject claims)) j s"
    "j = subscribed X (actor_topic s (subject claims)) 0 m"
proof -
  let ?T = "actor_topic s (subject claims)"
  obtain e' where "fst (instantiate_from X ?T pool hdl 0 m s) = Inl e'"
    and t: "t = snd (instantiate_from X ?T pool hdl 0 m s)"
    using assms by (auto simp: instantiate_actor_def with_context_def split: prod.splits sum.splits)
  with that show ?thesis
    by (auto simp: instantiate_from_state dest: instantiate_from_err)
qed

definition with_targets :: "process \<Rightarrow> process" where
  "with_targets s = s\<lparr>target_cells := target_cells s @ [[]]\<rparr>"

lemma with_targets_frames [simp, host_frames]:
  "actors (with_targets s) = actors s"
  "actor_keys (with_targets s) = actor_keys s"
  "links (with_targets s) = links s"
  "link_cells (with_targets s) = link_cells s"
  "tasks (with_targets s) = tasks s"
  "next_task (with_targets s) = next_task s"
  "lattice_prefix (with_targets s) = lattice_prefix s"
  "cluster_issuers (with_targets s) = cluster_issuers s"
  "target_cells (with_targets s) = target_cells s @ [[]]"
  by (simp_all add: with_targets_def)

lemma start_actor_ok:
  assumes "start_actor X act r m ptr s = (Inr a, t)" "rt_claims act = Some claims"
  shows "t = spawn_tasks (actor_topic s (subject claims)) m (with_targets s)"
    and "map in_calls (ac_instances a) = [next_task s..<next_task s + m]"
    and "hd_links (ac_handler a) = ptr" "hd_claims (ac_handler a) = claims"
    and "hd_targets (ac_handler a) = length (target_cells s)"
    and "ac_image_ref a = r" "ac_pool a = \<lparr>pool_actor = act, pool_max = Some m\<rparr>"
    and "x \<in> set (ac_instances a) \<Longrightarrow> in_handler x = ac_handler a \<and> in_pool x = ac_pool a \<and>
      in_valid_issuers x = cluster_issuers s"
proof -
  let ?hdl = "\<lparr>hd_lattice_prefix = lattice_prefix s, hd_cluster_key = cluster_key s,
      hd_host_key = host_key s, hd_claims = claims,
      hd_origin = (entity_default X)\<lparr>ent_public_key := subject claims\<rparr>,
      hd_links = ptr, hd_targets = length (target_cells s)\<rparr>"
  let ?pool = "\<lparr>pool_actor = act, pool_max = Some m\<rparr>"
  obtain xs where i: "instantiate_actor X claims r m ?pool ?hdl (with_targets s) = (Inr xs, t)"
    and a: "a = \<lparr>ac_image_ref = r, ac_handler = ?hdl, ac_pool = ?pool, ac_instances = xs\<rparr>"
    using assms by (auto simp: start_actor_def with_targets_def Let_def split: prod.splits sum.splits)
  note * = instantiate_actor_ok [OF i]
  have T: "actor_topic (with_targets s) = actor_topic s"
    by (rule actor_topic_cong) simp
  show "t = spawn_tasks (actor_topic s (subject claims)) m (with_targets s)"
    using *(1) by (simp add: T)
  show "map in_calls (ac_instances a) = [next_task s..<next_task s + m]"
    using *(2) by (simp add: a)
  show "in_handler x = ac_handler a \<and> in_pool x = ac_pool a \<and> in_valid_issuers x = cluster_issuers s"
    if "x \<in> set (ac_instances a)"
    using *(3) [of x] that by (simp add: a)
  show "hd_links (ac_handler a) = ptr" "hd_claims (ac_handler a) = claims"
    "hd_targets (ac_handler a) = length (target_cells s)" "ac_image_ref a = r" "ac_pool a = ?pool"
    by (simp_all add: a)
qed

lemma start_actor_err:
  assumes "start_actor X act r m ptr s = (Inl e, t)" "rt_claims act = Some claims"
  obtains j where "j < m" "t = spawn_tasks (actor_topic s (subject claims)) j (with_targets s)"
    "j = subscribed X (actor_topic s (subject claims)) 0 m"
proof -
  have T: "actor_topic (with_targets s) = actor_topic s"
    by (rule actor_topic_cong) simp
  obtain p h e' where "instantiate_actor X claims r m p h (with_targets s) = (Inl e', t)"
    using assms by (auto simp: start_actor_def with_targets_def Let_def split: prod.splits sum.splits)
  then show ?thesis
    using that by (auto simp: T elim: instantiate_actor_err)
qed

text \<open>What \<^const>\<open>scale_actor\<close> can do for a resource that is not running, and for one that is.\<close>

lemma scale_absent_cases:
  assumes c: "rt_claims act = Some claims" and absent: "hm_get (ag_actors g) n = None"
  obtains
    (idle) "m = 0" "scale_actor X act claims n r m g s = (Inr claims, s)"
  | (started) a where "0 < m"
      "scale_actor X act claims n r m g s =
         (Inr claims, set_actor (subject claims) n a
            (spawn_tasks (actor_topic s (subject claims)) m (with_targets s)))"
      "actor_wf (with_targets s) (subject claims) g a"
      "map in_calls (ac_instances a) = [next_task s..<next_task s + m]"
      "ac_image_ref a = r" "ac_pool a = \<lparr>pool_actor = act, pool_max = Some m\<rparr>"
      "hd_claims (ac_handler a) = claims" "hd_targets (ac_handler a) = length (target_cells s)"
  | (failed) e j where "j < m" "j = subscribed X (actor_topic s (subject claims)) 0 m"
      "scale_actor X act claims n r m g s =
         (Inl e, spawn_tasks (actor_topic s (subject claims)) j (with_targets s))"
proof (cases "0 < m")
  case False
  with absent idle show ?thesis by (simp add: scale_actor_def nonzero_def)
next
  case True
  obtain q t where st: "start_actor X act r m (ag_links g) s = (q, t)"
    by (cases "start_actor X act r m (ag_links g) s")
  show ?thesis
  proof (cases q)
    case (Inl e)
    with st c obtain j where "j < m" "j = subscribed X (actor_topic s (subject claims)) 0 m"
      "t = spawn_tasks (actor_topic s (subject claims)) j (with_targets s)"
      by (auto elim: start_actor_err)
    with absent True st Inl failed show ?thesis by (simp add: scale_actor_def nonzero_def)
  next
    case (Inr a)
    note * = start_actor_ok [OF st [unfolded Inr] c]
    have "actor_wf (with_targets s) (subject claims) g a"
      using * by (simp add: actor_wf_def)
    with absent True st Inr * show ?thesis
      by (intro started [of a]) (simp_all add: scale_actor_def nonzero_def)
  qed
qed

lemma scale_present_cases:
  assumes present: "hm_get (ag_actors g) n = Some a"
  obtains
    (idle) "length (ac_instances a) = m" "scale_actor X act claims n r m g s = (Inr claims, s)"
  | (grown) xs where "length (ac_instances a) < m"
      "scale_actor X act claims n r m g s =
         (Inr claims, set_actor (subject claims) n (a\<lparr>ac_instances := ac_instances a @ xs\<rparr>)
            (spawn_tasks (actor_topic s (subject claims)) (m - length (ac_instances a)) s))"
      "map in_calls xs = [next_task s..<next_task s + (m - length (ac_instances a))]"
      "\<And>x. x \<in> set xs \<Longrightarrow> in_handler x = ac_handler a \<and> in_pool x = ac_pool a \<and>
         in_valid_issuers x = cluster_issuers s"
  | (failed) e j where "j < m - length (ac_instances a)"
      "j = subscribed X (actor_topic s (subject claims)) 0 (m - length (ac_instances a))"
      "scale_actor X act claims n r m g s =
         (Inl e, spawn_tasks (actor_topic s (subject claims)) j s)"
  | (shrunk) "m < length (ac_instances a)"
      "scale_actor X act claims n r m g s =
         (Inr claims, abort_calls (take (length (ac_instances a) - m) (ac_instances a))
            (set_actor (subject claims) n
               (a\<lparr>ac_instances := drop (length (ac_instances a) - m) (ac_instances a)\<rparr>) s))"
proof -
  consider "length (ac_instances a) = m" | "length (ac_instances a) < m" | "m < length (ac_instances a)"
    by linarith
  then show ?thesis
  proof cases
    case 1
    with present idle show ?thesis
      by (simp add: scale_actor_def checked_sub_def nonzero_def)
  next
    case 2
    let ?d = "m - length (ac_instances a)"
    obtain q t where st: "instantiate_actor X claims (ac_image_ref a) ?d (ac_pool a) (ac_handler a) s = (q, t)"
      by (cases "instantiate_actor X claims (ac_image_ref a) ?d (ac_pool a) (ac_handler a) s")
    have *: "scale_actor X act claims n r m g s =
      (case q of Inl e \<Rightarrow> (Inl (Wrap ''failed to instantiate actor'' e), t)
       | Inr xs \<Rightarrow> (Inr claims,
           set_actor (subject claims) n (a\<lparr>ac_instances := ac_instances a @ xs\<rparr>) t))"
      using present 2 st by (simp add: scale_actor_def checked_sub_def nonzero_def)
    show ?thesis
    proof (cases q)
      case (Inl e)
      with st * failed show ?thesis by (auto elim: instantiate_actor_err)
    next
      case (Inr xs)
      with 2 * instantiate_actor_ok [OF st [unfolded Inr]] grown [of xs] show ?thesis by simp
    qed
  next
    case 3
    with present shrunk show ?thesis
      by (simp add: scale_actor_def checked_sub_def Let_def)
  qed
qed

text \<open>Scaling writes no key, no link and no link table.\<close>

lemma scale_actor_frames:
  assumes "rt_claims act = Some claims"
  shows "actor_keys (snd (scale_actor X act claims n r m g s)) = actor_keys s \<and>
    links (snd (scale_actor X act claims n r m g s)) = links s \<and>
    link_cells (snd (scale_actor X act claims n r m g s)) = link_cells s"
proof (cases "hm_get (ag_actors g) n")
  case None
  show ?thesis
    by (rule scale_absent_cases [OF assms None, of m X r s]) simp_all
next
  case (Some a)
  show ?thesis
    by (rule scale_present_cases [OF Some, of m X act claims r s]) (simp_all, simp add: abort_calls_def)
qed

section \<open>Reconciling keeps the invariant\<close>

lemma calls_at_absent: "hm_get (actors s) k = Some g \<Longrightarrow> hm_get (ag_actors g) n = None \<Longrightarrow> calls_at s k n = []"
  by (simp add: calls_at_def instances_at_def actor_at_def)

lemma calls_at_present:
  "hm_get (actors s) k = Some g \<Longrightarrow> hm_get (ag_actors g) n = Some a \<Longrightarrow>
   calls_at s k n = map in_calls (ac_instances a)"
  by (simp add: calls_at_def instances_at_def actor_at_def)

lemma with_targets_cong [simp]:
  "calls_at (with_targets s) = calls_at s"
  "actor_topic (with_targets s) = actor_topic s"
  by (rule calls_at_cong, simp) (rule actor_topic_cong, simp)

lemma scale_actor_inv:
  assumes inv: "host_inv_upto P D s" and c: "rt_claims act = Some claims"
    and g: "hm_get (actors s) (subject claims) = Some g"
    and n: "hm_get (actor_keys s) n = Some (subject claims)"
  shows "host_inv_upto P D (snd (scale_actor X act claims n r m g s))"
proof (cases "hm_get (ag_actors g) n")
  case None
  have inv': "host_inv_upto P D (with_targets s)"
    unfolding with_targets_def by (rule new_targets_inv [OF inv])
  note absent = calls_at_absent [OF g None]
  show ?thesis
  proof (rule scale_absent_cases [OF c None, of m X r s])
    fix a
    assume "actor_wf (with_targets s) (subject claims) g a"
      and "map in_calls (ac_instances a) = [next_task s..<next_task s + m]"
    then have "host_inv_upto P D (set_actor (subject claims) n a
        (spawn_tasks (actor_topic (with_targets s) (subject claims)) m (with_targets s)))"
      using inv' g n absent by (intro grow_inv) auto
    moreover assume "scale_actor X act claims n r m g s =
         (Inr claims, set_actor (subject claims) n a
            (spawn_tasks (actor_topic s (subject claims)) m (with_targets s)))"
    ultimately show ?thesis by simp
  qed (simp_all add: inv spawn_tasks_inv [OF inv'])
next
  case (Some a)
  have wf: "actor_wf s (subject claims) g a"
    by (rule actors_wfD(3) [OF host_inv_uptoD(5) [OF inv] g Some])
  show ?thesis
  proof (rule scale_present_cases [OF Some, of m X act claims r s])
    fix xs :: "actor_instance list"
    assume "map in_calls xs = [next_task s..<next_task s + (m - length (ac_instances a))]"
      and "\<And>x. x \<in> set xs \<Longrightarrow> in_handler x = ac_handler a \<and> in_pool x = ac_pool a \<and>
         in_valid_issuers x = cluster_issuers s"
    then have "host_inv_upto P D (set_actor (subject claims) n (a\<lparr>ac_instances := ac_instances a @ xs\<rparr>)
        (spawn_tasks (actor_topic s (subject claims)) (m - length (ac_instances a)) s))"
      using wf by (intro grow_inv [OF inv g n])
        (auto simp: actor_wf_def calls_at_present [OF g Some])
    moreover assume "scale_actor X act claims n r m g s =
         (Inr claims, set_actor (subject claims) n (a\<lparr>ac_instances := ac_instances a @ xs\<rparr>)
            (spawn_tasks (actor_topic s (subject claims)) (m - length (ac_instances a)) s))"
    ultimately show ?thesis by simp
  qed (simp_all add: inv spawn_tasks_inv [OF inv] shrink_inv [OF inv g Some])
qed

text \<open>
  A reconciliation either leaves the state alone with an error (the module cannot be fetched, it has
  no claims, or its key is not the one the name is bound to) or binds the name, finds or creates the
  group, and scales the actor.
\<close>

definition bind_name :: "string \<Rightarrow> string \<Rightarrow> process \<Rightarrow> process" where
  "bind_name n k s =
     (case hm_get (actor_keys s) n of
        None \<Rightarrow> s\<lparr>actor_keys := hm_insert n k (actor_keys s)\<rparr> | Some _ \<Rightarrow> s)"

lemma bind_name_frames [simp, host_frames]:
  "actors (bind_name n k s) = actors s"
  "links (bind_name n k s) = links s"
  "link_cells (bind_name n k s) = link_cells s"
  "target_cells (bind_name n k s) = target_cells s"
  "tasks (bind_name n k s) = tasks s"
  "next_task (bind_name n k s) = next_task s"
  "lattice_prefix (bind_name n k s) = lattice_prefix s"
  "cluster_issuers (bind_name n k s) = cluster_issuers s"
  by (simp_all add: bind_name_def split: option.split)

lemma bind_name_get:
  "hm_get (actor_keys s) n \<in> {None, Some k} \<Longrightarrow> hm_get (actor_keys (bind_name n k s)) n = Some k"
  by (auto simp: bind_name_def)

lemma bind_name_host_inv: "host_inv_upto P D s \<Longrightarrow> host_inv_upto P D (bind_name n k s)"
  by (auto simp: bind_name_def bind_name_inv split: option.split)

definition fetched :: "actor_ext \<Rightarrow> string \<Rightarrow> process \<Rightarrow> rt_actor \<Rightarrow> actor_claims \<Rightarrow> bool" where
  "fetched X r s act claims \<longleftrightarrow> fetch_actor X r s = Inr act \<and> rt_claims act = Some claims"

lemma reconcile_actor_cases:
  obtains
    (error) e where "reconcile_actor X n r m s = (Inl e, s)"
      "\<And>act claims. fetched X r s act claims \<Longrightarrow>
         \<exists>k. hm_get (actor_keys s) n = Some k \<and> k \<noteq> subject claims"
  | (scale) act claims g t where "fetched X r s act claims"
      "hm_get (actor_keys s) n \<in> {None, Some (subject claims)}"
      "group_entry (subject claims) (bind_name n (subject claims) s) = (g, t)"
      "reconcile_actor X n r m s = scale_actor X act claims n r m g t"
proof (cases "\<exists>act claims. fetched X r s act claims \<and>
    hm_get (actor_keys s) n \<in> {None, Some (subject claims)}")
  case True
  then obtain act claims where f: "fetched X r s act claims"
    and k: "hm_get (actor_keys s) n \<in> {None, Some (subject claims)}" by blast
  obtain g t where gt: "group_entry (subject claims) (bind_name n (subject claims) s) = (g, t)"
    by fastforce
  have "reconcile_actor X n r m s = scale_actor X act claims n r m g t"
    using f k gt by (auto simp: reconcile_actor_def fetched_def bind_name_def)
  with f k gt scale show ?thesis by blast
next
  case False
  then have "\<exists>e. reconcile_actor X n r m s = (Inl e, s)"
    by (auto simp: reconcile_actor_def fetched_def some_or_def split: sum.split option.split)
  moreover have "\<exists>k. hm_get (actor_keys s) n = Some k \<and> k \<noteq> subject claims"
    if "fetched X r s act claims" for act claims
    using False that by (cases "hm_get (actor_keys s) n") auto
  ultimately show ?thesis using error by blast
qed

lemma reconcile_actor_inv:
  assumes "host_inv_upto P D s"
  shows "host_inv_upto P D (snd (reconcile_actor X n r m s))"
proof (rule reconcile_actor_cases [of X n r m s])
  fix act claims g t
  assume f: "fetched X r s act claims"
    and k: "hm_get (actor_keys s) n \<in> {None, Some (subject claims)}"
    and gt: "group_entry (subject claims) (bind_name n (subject claims) s) = (g, t)"
    and eq: "reconcile_actor X n r m s = scale_actor X act claims n r m g t"
  have "host_inv_upto P D t"
    by (rule group_entry_inv [OF bind_name_host_inv [OF assms] gt])
  moreover have "hm_get (actor_keys t) n = Some (subject claims)"
    using bind_name_get [OF k] by (simp add: group_entry_frames(1) [OF gt])
  ultimately show ?thesis
    using f unfolding eq fetched_def
    by (intro scale_actor_inv) (auto simp: group_entry_get [OF gt])
qed (simp_all add: assms)

section \<open>Removing keeps the invariant\<close>

text \<open>The groups after the actor \<open>n\<close> left the group of \<open>k\<close>: an empty group goes with it.\<close>

definition groups_without :: "string \<Rightarrow> string \<Rightarrow> process \<Rightarrow> (string, actor_group) hmap" where
  "groups_without k n s =
     (case hm_get (actors s) k of
        None \<Rightarrow> actors s
      | Some g \<Rightarrow>
          let g' = g\<lparr>ag_actors := hm_remove n (ag_actors g)\<rparr>
          in if ag_actors g' = [] then hm_remove k (hm_insert k g' (actors s))
             else hm_insert k g' (actors s))"

lemma abort_calls_Nil [simp]: "abort_calls [] s = s"
  by (simp add: abort_calls_def emit_def)

lemma abort_calls_actors: "abort_calls xs (s\<lparr>actors := gs\<rparr>) = (abort_calls xs s)\<lparr>actors := gs\<rparr>"
  by (simp add: abort_calls_def emit_def)

lemma abort_calls_commute:
  "(abort_calls xs s)\<lparr>actors := gs, actor_keys := ks\<rparr> =
   abort_calls xs (s\<lparr>actors := gs, actor_keys := ks\<rparr>)"
  by (simp add: abort_calls_def emit_def)

lemma remove_actor_unbound: "hm_get (actor_keys s) n = None \<Longrightarrow> remove_actor n s = (Inr (), s)"
  by (simp add: remove_actor_def)

lemma remove_actor_bound:
  assumes "hm_get (actor_keys s) n = Some k"
  shows "remove_actor n s =
    (Inr (), (abort_calls (instances_at s k n) s)
       \<lparr>actors := groups_without k n s, actor_keys := hm_remove n (actor_keys s)\<rparr>)"
proof (cases "hm_get (actors s) k")
  case None
  with assms show ?thesis
    by (simp add: remove_actor_def instances_at_def actor_at_def groups_without_def)
next
  case (Some g)
  show ?thesis
  proof (cases "hm_get (ag_actors g) n")
    case None
    then have "g\<lparr>ag_actors := hm_remove n (ag_actors g)\<rparr> = g"
      by (simp add: hm_remove_absent)
    with None Some assms show ?thesis
      by (simp add: remove_actor_def instances_at_def actor_at_def groups_without_def hm_insert_self)
  next
    case a: (Some a)
    with Some assms show ?thesis
      by (simp add: remove_actor_def instances_at_def actor_at_def groups_without_def Let_def
          abort_calls_actors)
  qed
qed

lemma actor_at_groups_without:
  "actor_at (s\<lparr>actors := groups_without k n s\<rparr>) k' n' =
     (if k' = k \<and> n' = n then None else actor_at s k' n')"
proof -
  have "hm_remove n as = [] \<Longrightarrow> n' \<noteq> n \<Longrightarrow> hm_get as n' = None" for as :: "(string, actor) hmap"
    using hm.get_rem [of n as n'] by simp
  then show ?thesis
    by (auto simp: actor_at_def groups_without_def Let_def split: option.splits if_splits)
qed

lemma links_inv_groups_without:
  assumes "links_inv_upto P D s"
  shows "links_inv_upto P D (s\<lparr>actors := groups_without k n s\<rparr>)"
  using assms links_inv_group_remove [OF assms, of k] links_inv_group_update [OF assms]
  by (auto simp: groups_without_def Let_def hm_remove_insert split: option.split)

lemma actors_wf_groups_without:
  assumes "actors_wf s"
  shows "actors_wf (s\<lparr>actors := groups_without k n s\<rparr>)"
  using assms unfolding actors_wf_def
  by (auto simp: groups_without_def Let_def actor_wf_def split: option.splits if_splits)

text \<open>Taking an actor out of its group and ending its tasks; then giving up its name.\<close>

lemma groups_without_inv:
  assumes inv: "host_inv_upto P D s"
  shows "host_inv_upto P D (abort_calls (instances_at s k n) (s\<lparr>actors := groups_without k n s\<rparr>))"
    (is "host_inv_upto P D (abort_calls _ ?t)")
proof (rule abort_calls_inv)
  note tw = tasks_wfD [OF host_inv_uptoD(6) [OF inv]]
  have calls: "calls_at ?t k' n' = (if k' = k \<and> n' = n then [] else calls_at s k' n')" for k' n'
    using actor_at_groups_without [of k n s k' n'] by (simp add: calls_at_def instances_at_def)
  have "tasks_wf ?t"
    using tw unfolding tasks_wf_def calls by (auto simp: actor_topic_def)
  then show "host_inv_upto P D ?t"
    using links_inv_groups_without [OF host_inv_uptoD(1) [OF inv]]
      actors_wf_groups_without [OF host_inv_uptoD(5) [OF inv]] by (simp add: host_inv_upto_def)
  show "in_calls i \<notin> set (calls_at ?t k' n')" if "i \<in> set (instances_at s k n)" for i k' n'
    using that tw(3) [of k' n' k n] unfolding calls by (auto simp: calls_at_def)
qed

lemma unbind_inv:
  assumes inv: "host_inv_upto P D s" and free: "\<And>k. actor_at s k n = None"
  shows "host_inv_upto P D (s\<lparr>actor_keys := hm_remove n (actor_keys s)\<rparr>)" (is "host_inv_upto P D ?t")
proof -
  have "hm_get (ag_actors g) n = None" if "hm_get (actors s) k = Some g" for k g
    using free [of k] that by (simp add: actor_at_def)
  then have "actors_wf ?t"
    using host_inv_uptoD(5) [OF inv] by (auto simp: actors_wf_def actor_wf_def)
  then show ?thesis
    using host_inv_uptoD(1,6) [OF inv] tasks_wf_cong [of ?t s] by (simp add: host_inv_upto_def)
qed

lemma actors_wf_actor_at:
  "actors_wf s \<Longrightarrow> actor_at s k n \<noteq> None \<Longrightarrow> hm_get (actor_keys s) n = Some k"
  by (auto simp: actor_at_def actors_wf_def split: option.splits)

lemma remove_actor_inv:
  assumes inv: "host_inv_upto P D s"
  shows "host_inv_upto P D (snd (remove_actor n s))"
proof (cases "hm_get (actor_keys s) n")
  case None
  then show ?thesis using inv by (simp add: remove_actor_unbound)
next
  case (Some k)
  let ?t = "abort_calls (instances_at s k n) (s\<lparr>actors := groups_without k n s\<rparr>)"
  have "actor_at ?t k' n = None" for k'
    using actors_wf_actor_at [OF host_inv_uptoD(5) [OF inv], of k' n] Some
      actor_at_groups_without [of k n s k' n] actor_at_cong [OF abort_calls_frames(1)]
    by (cases "actor_at s k' n") (auto simp: fun_eq_iff)
  then have "host_inv_upto P D (?t\<lparr>actor_keys := hm_remove n (actor_keys ?t)\<rparr>)"
    by (rule unbind_inv [OF groups_without_inv [OF inv]])
  then show ?thesis
    by (simp add: remove_actor_bound [OF Some] abort_calls_actors)
qed

end
