(* ===== verification/Kasm_Providers.thy ===== *)
theory Kasm_Providers
  imports Kasm_Links
begin

text \<open>
  Capability providers (\<^verbatim>\<open>crates/host/src/lib.rs\<close>: \<^verbatim>\<open>start_provider\<close>, \<^verbatim>\<open>stop_provider\<close>). A provider is
  stored under its public key and runs one child process per link name. A child is started with the
  host data on its standard input, and is killed when its handle is dropped (\<^verbatim>\<open>kill_on_drop(true)\<close>).
\<close>

section \<open>Operations\<close>

record host_data =
  dt_host_id :: string
  dt_lattice_rpc_prefix :: string
  dt_link_name :: string
  dt_lattice_rpc_user_jwt :: string
  dt_lattice_rpc_user_seed :: string
  dt_lattice_rpc_url :: string
  dt_env_values :: "(string \<times> string) list"
  dt_instance_id :: string
  dt_config_json :: "string option"
  dt_provider_key :: string
  dt_link_definitions :: "link_definition list"
  dt_default_rpc_timeout_ms :: "64 word option"
  dt_cluster_issuers :: "string list"
  dt_invocation_seed :: string
  dt_log_level :: "string option"
  dt_structured_logging :: bool
  dt_otel_traces_exporter :: "string option"
  dt_otel_exporter_otlp_endpoint :: "string option"

text \<open>Outcomes of the calls that leave the program while a provider is started or stopped.\<close>

record provider_ext =
  fetch_provider :: "string \<Rightarrow> string \<Rightarrow> bool \<Rightarrow> (string, registry_config) hmap \<Rightarrow> (string \<times> provider_claims) res"
  ulid_new :: "128 word"
  uuid_string :: "128 word \<Rightarrow> string"
  encode_host_data :: "host_data \<Rightarrow> bytes res"
  spawn_command :: "string \<Rightarrow> unit res"
  take_stdin :: "unit option"
  base64_encode :: "bytes \<Rightarrow> bytes"
  write_stdin :: "bytes \<Rightarrow> unit res"
  close_stdin :: "unit res"
  encode_shutdown :: "string \<Rightarrow> bytes res"

definition provider_links :: "string \<Rightarrow> string \<Rightarrow> process \<Rightarrow> link_definition list" where
  "provider_links key link_name s =
     filter (\<lambda>ld. ld_provider_id ld = key \<and> ld_link_name ld = link_name) (hm_values (links s))"

text \<open>The data handed to a new provider process, each step of which may fail.\<close>

definition build_host_data ::
    "provider_ext \<Rightarrow> string \<Rightarrow> provider_claims \<Rightarrow> process \<Rightarrow> host_data res" where
  "build_host_data X link_name claims s =
     and_then (with_context ''cluster key seed missing'' (seed (cluster_key s))) (\<lambda>invocation_seed.
     and_then (with_context ''private key missing for provider RPC key''
        (case nc_key (hc_prov_rpc_config (config s)) of
           None \<Rightarrow> Inr None | Some key \<Rightarrow> map_sum (\<lambda>e. e) Some (seed key))) (\<lambda>user_seed.
     and_then (with_context ''failed to convert rpc_timeout to u64''
        (u64_try_from (case nc_timeout (hc_rpc_config (config s)) of None \<Rightarrow> 0 | Some ms \<Rightarrow> ms)))
       (\<lambda>timeout_ms.
     Inr \<lparr>dt_host_id = public_key (host_key s),
          dt_lattice_rpc_prefix = hc_lattice_prefix (config s),
          dt_link_name = link_name,
          dt_lattice_rpc_user_jwt =
            (case nc_jwt (hc_prov_rpc_config (config s)) of None \<Rightarrow> [] | Some jwt \<Rightarrow> jwt),
          dt_lattice_rpc_user_seed = (case user_seed of None \<Rightarrow> [] | Some sd \<Rightarrow> sd),
          dt_lattice_rpc_url = nc_url (hc_prov_rpc_config (config s)),
          dt_env_values = [],
          dt_instance_id = uuid_string X (ulid_new X),
          dt_config_json = None,
          dt_provider_key = subject claims,
          dt_link_definitions = provider_links (subject claims) link_name s,
          dt_default_rpc_timeout_ms = Some timeout_ms,
          dt_cluster_issuers = cluster_issuers s,
          dt_invocation_seed = invocation_seed,
          dt_log_level = hc_log_level (config s),
          dt_structured_logging = False,
          dt_otel_traces_exporter = None,
          dt_otel_exporter_otlp_endpoint = None\<rparr>)))"

text \<open>Dropping the handle of a child kills it.\<close>

definition drop_child :: "nat \<Rightarrow> process \<Rightarrow> process" where
  "drop_child c s = emit [Killed c] (s\<lparr>children := filter (\<lambda>c'. c' \<noteq> c) (children s)\<rparr>)"

text \<open>The writes to the standard input of a child, up to the first that fails.\<close>

definition feed_stdin :: "provider_ext \<Rightarrow> nat \<Rightarrow> bytes \<Rightarrow> process \<Rightarrow> unit res \<times> process" where
  "feed_stdin X c payload s =
     (case some_or ''failed to take stdin'' (take_stdin X) of
        Inl e \<Rightarrow> (Inl e, s)
      | Inr _ \<Rightarrow>
          (case with_context ''failed to write provider data'' (write_stdin X payload) of
             Inl e \<Rightarrow> (Inl e, s)
           | Inr _ \<Rightarrow>
               let s = emit [Stdin c payload] s
               in case with_context ''failed to write newline'' (write_stdin X [13, 10]) of
                    Inl e \<Rightarrow> (Inl e, s)
                  | Inr _ \<Rightarrow>
                      (with_context ''failed to close stdin'' (close_stdin X),
                       emit [Stdin c [13, 10]] s)))"

text \<open>Spawning a provider process; when a later step fails, its handle is dropped.\<close>

definition launch ::
    "provider_ext \<Rightarrow> string \<Rightarrow> host_data \<Rightarrow> process \<Rightarrow> nat res \<times> process" where
  "launch X path dat s =
     (case with_context ''failed to serialize provider data'' (encode_host_data X dat) of
        Inl e \<Rightarrow> (Inl e, s)
      | Inr payload \<Rightarrow>
          (case with_context ''failed to spawn provider process'' (spawn_command X path) of
             Inl e \<Rightarrow> (Inl e, s)
           | Inr _ \<Rightarrow>
               let c = next_child s;
                   s = emit [Spawned c path]
                         (s\<lparr>children := children s @ [c], next_child := Suc c\<rparr>)
               in case feed_stdin X c (base64_encode X payload) s of
                    (Inl e, s) \<Rightarrow> (Inl e, drop_child c s)
                  | (Inr _, s) \<Rightarrow> (Inr c, s)))"

text \<open>\<^verbatim>\<open>providers.entry(key).or_insert(..)\<close>\<close>

definition provider_entry ::
    "provider_claims \<Rightarrow> string \<Rightarrow> process \<Rightarrow> provider \<times> process" where
  "provider_entry claims provider_ref s =
     (case hm_get (providers s) (subject claims) of
        Some prov \<Rightarrow> (prov, s)
      | None \<Rightarrow>
          let prov = \<lparr>pr_claims = claims, pr_instances = [], pr_image_ref = provider_ref\<rparr>
          in (prov, s\<lparr>providers := hm_insert (subject claims) prov (providers s)\<rparr>))"

definition start_provider ::
    "provider_ext \<Rightarrow> string \<Rightarrow> string \<Rightarrow> process \<Rightarrow> provider_claims res \<times> process" where
  "start_provider X link_name provider_ref s =
     (case with_context ''failed to fetch provider''
             (fetch_provider X provider_ref link_name (hc_allow_file_load (config s))
                (registry_settings s)) of
        Inl e \<Rightarrow> (Inl e, s)
      | Inr (path, claims) \<Rightarrow>
          let key = subject claims;
              (prov, s) = provider_entry claims provider_ref s
          in case hm_get (pr_instances prov) link_name of
               Some _ \<Rightarrow> (Inr claims, s)
             | None \<Rightarrow>
                 (case build_host_data X link_name claims s of
                    Inl e \<Rightarrow> (Inl e, s)
                  | Inr dat \<Rightarrow>
                      (case launch X path dat s of
                         (Inl e, s) \<Rightarrow> (Inl e, s)
                       | (Inr c, s) \<Rightarrow>
                           let inst = \<lparr>pi_child = c, pi_id = ulid_new X\<rparr>;
                               prov = prov\<lparr>pr_instances := hm_insert link_name inst (pr_instances prov)\<rparr>
                           in (Inr claims, s\<lparr>providers := hm_insert key prov (providers s)\<rparr>))))"

definition shutdown_topic :: "process \<Rightarrow> string \<Rightarrow> string \<Rightarrow> string" where
  "shutdown_topic s key link_name =
     ''wasmbus.rpc.'' @ hc_lattice_prefix (config s) @ ''.'' @ key @ ''.'' @ link_name @ ''.shutdown''"

text \<open>
  The graceful shutdown request, with a timeout of five seconds; its answer is ignored and its
  failure only logged.
\<close>

definition request_shutdown :: "provider_ext \<Rightarrow> string \<Rightarrow> string \<Rightarrow> process \<Rightarrow> process" where
  "request_shutdown X key link_name s =
     (case encode_shutdown X (public_key (host_key s)) of
        Inl _ \<Rightarrow> s
      | Inr payload \<Rightarrow> emit [Requested (shutdown_topic s key link_name) payload] s)"

definition stop_provider ::
    "provider_ext \<Rightarrow> string \<Rightarrow> string \<Rightarrow> process \<Rightarrow> unit res \<times> process" where
  "stop_provider X link_name key s =
     (case hm_get (providers s) key of
        None \<Rightarrow> (Inr (), s)
      | Some prov \<Rightarrow>
          let (instances, s) =
                (case hm_get (pr_instances prov) link_name of
                   None \<Rightarrow> (pr_instances prov, s)
                 | Some inst \<Rightarrow>
                     (hm_remove link_name (pr_instances prov),
                      request_shutdown X key link_name (drop_child (pi_child inst) s)));
              s = s\<lparr>providers :=
                     hm_insert key (prov\<lparr>pr_instances := instances\<rparr>) (providers s)\<rparr>
          in if instances = []
             then (Inr (), s\<lparr>providers := hm_remove key (providers s)\<rparr>)
             else (Inr (), s))"

section \<open>The abstract view and the invariant\<close>

text \<open>The child that serves a link name of a provider.\<close>

definition child_at :: "process \<Rightarrow> string \<Rightarrow> string \<Rightarrow> nat option" where
  "child_at s k l =
     (case hm_get (providers s) k of
        None \<Rightarrow> None | Some p \<Rightarrow> map_option pi_child (hm_get (pr_instances p) l))"

text \<open>
  Providers are stored under the key of their claims; every recorded child is alive, belongs to one
  provider and link name only, and every live child is recorded.
\<close>

definition providers_inv :: "process \<Rightarrow> bool" where
  "providers_inv s \<longleftrightarrow>
     hm_wf (providers s) \<and>
     (\<forall>k p. hm_get (providers s) k = Some p \<longrightarrow>
        subject (pr_claims p) = k \<and> hm_wf (pr_instances p)) \<and>
     (\<forall>c \<in> set (children s). c < next_child s) \<and> distinct (children s) \<and>
     (\<forall>c. c \<in> set (children s) \<longleftrightarrow> (\<exists>k l. child_at s k l = Some c)) \<and>
     (\<forall>k l k' l' c. child_at s k l = Some c \<longrightarrow> child_at s k' l' = Some c \<longrightarrow> k = k' \<and> l = l')"

section \<open>Starting a process\<close>

lemma emit_child_frames [simp, host_frames]:
  "children (emit es s) = children s"
  "next_child (emit es s) = next_child s"
  by (simp_all add: emit_def)

definition stdin_events :: "provider_ext \<Rightarrow> nat \<Rightarrow> bytes \<Rightarrow> event list" where
  "stdin_events X c p =
     (if take_stdin X = None \<or> \<not> is_ok (write_stdin X p) then []
      else if \<not> is_ok (write_stdin X [13, 10]) then [Stdin c p]
      else [Stdin c p, Stdin c [13, 10]])"

lemma feed_stdin_state: "snd (feed_stdin X c p s) = emit (stdin_events X c p) s"
proof (cases "take_stdin X")
  case None
  then show ?thesis by (simp add: feed_stdin_def stdin_events_def)
next
  case (Some u)
  then show ?thesis
    by (cases "write_stdin X p"; cases "write_stdin X [13, 10]")
      (simp_all add: feed_stdin_def stdin_events_def emit_def)
qed

lemma launch_spawned:
  assumes "encode_host_data X dat = Inr p" "spawn_command X path = Inr ()"
  shows "launch X path dat s =
    (case fst (feed_stdin X (next_child s) (base64_encode X p)
         (emit [Spawned (next_child s) path]
            (s\<lparr>children := children s @ [next_child s], next_child := Suc (next_child s)\<rparr>))) of
       Inl e \<Rightarrow> (Inl e, drop_child (next_child s)
         (emit (Spawned (next_child s) path # stdin_events X (next_child s) (base64_encode X p))
            (s\<lparr>children := children s @ [next_child s], next_child := Suc (next_child s)\<rparr>)))
     | Inr _ \<Rightarrow> (Inr (next_child s),
         emit (Spawned (next_child s) path # stdin_events X (next_child s) (base64_encode X p))
            (s\<lparr>children := children s @ [next_child s], next_child := Suc (next_child s)\<rparr>)))"
proof -
  let ?f = "feed_stdin X (next_child s) (base64_encode X p)
         (emit [Spawned (next_child s) path]
            (s\<lparr>children := children s @ [next_child s], next_child := Suc (next_child s)\<rparr>))"
  obtain q t where f: "?f = (q, t)" by (cases ?f)
  then have "t = snd ?f" by simp
  then have t: "t = emit (Spawned (next_child s) path # stdin_events X (next_child s) (base64_encode X p))
            (s\<lparr>children := children s @ [next_child s], next_child := Suc (next_child s)\<rparr>)"
    unfolding feed_stdin_state by (simp add: emit_def)
  show ?thesis
    using assms f by (cases q) (simp_all add: launch_def Let_def t)
qed

lemma launch_not_spawned:
  assumes "\<not> (is_ok (encode_host_data X dat) \<and> is_ok (spawn_command X path))"
  shows "\<exists>e. launch X path dat s = (Inl e, s)"
  using assms
  by (cases "encode_host_data X dat"; cases "spawn_command X path") (simp_all add: launch_def)

lemma launch_ok:
  assumes "launch X path dat s = (Inr c, t)"
  obtains es where "c = next_child s"
    "t = emit es (s\<lparr>children := children s @ [c], next_child := Suc c\<rparr>)"
proof -
  have "is_ok (encode_host_data X dat) \<and> is_ok (spawn_command X path)"
    using launch_not_spawned [of X dat path s] assms by force
  then obtain p where p: "encode_host_data X dat = Inr p" "spawn_command X path = Inr ()"
    by (auto simp: is_ok_def split: sum.splits)
  show ?thesis
    using assms that unfolding launch_spawned [OF p] by (auto split: sum.splits)
qed

text \<open>When a start fails, no process of it is left running.\<close>

lemma launch_err:
  assumes "launch X path dat s = (Inl e, t)" "\<forall>c \<in> set (children s). c < next_child s"
  obtains es i where "t = emit es (s\<lparr>next_child := i\<rparr>)" "next_child s \<le> i"
proof (cases "is_ok (encode_host_data X dat) \<and> is_ok (spawn_command X path)")
  case False
  then have "t = emit [] (s\<lparr>next_child := next_child s\<rparr>)"
    using launch_not_spawned [of X dat path s] assms(1) by auto
  with that show ?thesis by blast
next
  case True
  then obtain p where p: "encode_host_data X dat = Inr p" "spawn_command X path = Inr ()"
    by (auto simp: is_ok_def split: sum.splits)
  have "filter (\<lambda>c. c \<noteq> next_child s) (children s) = children s"
    using assms(2) by (auto intro!: filter_True)
  then have "t = emit (Spawned (next_child s) path # stdin_events X (next_child s) (base64_encode X p) @
      [Killed (next_child s)]) (s\<lparr>next_child := Suc (next_child s)\<rparr>)"
    using assms(1) unfolding launch_spawned [OF p]
    by (auto simp: drop_child_def emit_def split: sum.splits)
  with that show ?thesis by force
qed

lemma provider_entry_get: "provider_entry claims r s = (p, t) \<Longrightarrow> hm_get (providers t) (subject claims) = Some p"
  by (auto simp: provider_entry_def Let_def split: option.splits)

lemma provider_entry_frames:
  assumes "provider_entry claims r s = (p, t)"
  shows "links t = links s" "actors t = actors s" "config t = config s" "children t = children s"
    "next_child t = next_child s" "events t = events s" "child_at t = child_at s"
  using assms
  by (auto simp: provider_entry_def Let_def child_at_def fun_eq_iff split: option.splits if_splits)

lemma start_provider_fetched:
  assumes "fetch_provider X r l (hc_allow_file_load (config s)) (registry_settings s) = Inr (path, claims)"
    and "provider_entry claims r s = (p, t)"
  shows "start_provider X l r s =
    (case hm_get (pr_instances p) l of
       Some _ \<Rightarrow> (Inr claims, t)
     | None \<Rightarrow>
         (case build_host_data X l claims t of
            Inl e \<Rightarrow> (Inl e, t)
          | Inr dat \<Rightarrow>
              (case launch X path dat t of
                 (Inl e, u) \<Rightarrow> (Inl e, u)
               | (Inr c, u) \<Rightarrow> (Inr claims, u\<lparr>providers := hm_insert (subject claims)
                   (p\<lparr>pr_instances := hm_insert l \<lparr>pi_child = c, pi_id = ulid_new X\<rparr>
                      (pr_instances p)\<rparr>) (providers u)\<rparr>))))"
  using assms by (simp add: start_provider_def split: option.split sum.split prod.split)

lemma start_provider_cases:
  assumes bound: "\<forall>c \<in> set (children s). c < next_child s"
  obtains
    (fetch_failed) e where "start_provider X l r s = (Inl e, s)"
  | (running) claims p where "hm_get (providers s) (subject claims) = Some p"
      "hm_get (pr_instances p) l \<noteq> None" "start_provider X l r s = (Inr claims, s)"
  | (failed) claims p t e es i where "provider_entry claims r s = (p, t)"
      "hm_get (pr_instances p) l = None" "next_child s \<le> i"
      "start_provider X l r s = (Inl e, emit es (t\<lparr>next_child := i\<rparr>))"
  | (started) claims p t es where "provider_entry claims r s = (p, t)"
      "hm_get (pr_instances p) l = None"
      "start_provider X l r s = (Inr claims,
         (emit es (t\<lparr>children := children s @ [next_child s], next_child := Suc (next_child s)\<rparr>))
           \<lparr>providers := hm_insert (subject claims)
              (p\<lparr>pr_instances := hm_insert l \<lparr>pi_child = next_child s, pi_id = ulid_new X\<rparr>
                 (pr_instances p)\<rparr>) (providers t)\<rparr>)"
proof (cases "fetch_provider X r l (hc_allow_file_load (config s)) (registry_settings s)")
  case (Inl e)
  with fetch_failed show ?thesis by (simp add: start_provider_def)
next
  case (Inr pc)
  obtain path claims where pc: "pc = (path, claims)" by (cases pc)
  obtain p t where pt: "provider_entry claims r s = (p, t)" by fastforce
  note fr = provider_entry_frames [OF pt]
  note eq = start_provider_fetched [OF Inr [unfolded pc] pt]
  show ?thesis
  proof (cases "hm_get (pr_instances p) l")
    case (Some inst)
    then have "t = s" "hm_get (providers s) (subject claims) = Some p"
      using pt by (auto simp: provider_entry_def Let_def split: option.splits)
    with Some eq running show ?thesis by simp
  next
    case None
    show ?thesis
    proof (cases "build_host_data X l claims t")
      case (Inl e)
      with eq None have "start_provider X l r s = (Inl e, emit [] (t\<lparr>next_child := next_child s\<rparr>))"
        by (simp flip: fr(5))
      with pt None failed show ?thesis by blast
    next
      case dat: (Inr dat)
      obtain q u where q: "launch X path dat t = (q, u)" by fastforce
      show ?thesis
      proof (cases q)
        case (Inl e)
        then obtain es i where "u = emit es (t\<lparr>next_child := i\<rparr>)" "next_child t \<le> i"
          using q bound fr(4,5) by (auto elim: launch_err)
        with eq None dat q Inl pt fr(5) failed show ?thesis by simp
      next
        case (Inr c)
        then obtain es where "c = next_child t"
          "u = emit es (t\<lparr>children := children t @ [c], next_child := Suc c\<rparr>)"
          using q by (auto elim: launch_ok)
        with eq None dat q Inr pt fr(4,5) started show ?thesis by simp
      qed
    qed
  qed
qed

lemma providers_invD:
  assumes "providers_inv s"
  shows "hm_wf (providers s)"
    and "hm_get (providers s) k = Some p \<Longrightarrow> subject (pr_claims p) = k"
    and "hm_get (providers s) k = Some p \<Longrightarrow> hm_wf (pr_instances p)"
    and "\<forall>c \<in> set (children s). c < next_child s"
    and "distinct (children s)"
    and "c \<in> set (children s) \<longleftrightarrow> (\<exists>k l. child_at s k l = Some c)"
    and "child_at s k l = Some c \<Longrightarrow> child_at s k' l' = Some c \<Longrightarrow> k = k' \<and> l = l'"
  using assms unfolding providers_inv_def by blast+

lemma providers_invI:
  assumes "hm_wf (providers s)"
    and "\<And>k p. hm_get (providers s) k = Some p \<Longrightarrow> subject (pr_claims p) = k \<and> hm_wf (pr_instances p)"
    and "\<forall>c \<in> set (children s). c < next_child s" "distinct (children s)"
    and "\<And>c. c \<in> set (children s) \<longleftrightarrow> (\<exists>k l. child_at s k l = Some c)"
    and "\<And>k l k' l' c. child_at s k l = Some c \<Longrightarrow> child_at s k' l' = Some c \<Longrightarrow> k = k' \<and> l = l'"
  shows "providers_inv s"
  using assms unfolding providers_inv_def by blast

lemma provider_entry_inv:
  assumes inv: "providers_inv s" and pt: "provider_entry claims r s = (p, t)"
  shows "providers_inv t"
proof -
  note fr = provider_entry_frames [OF pt] and iv = providers_invD [OF inv]
  show ?thesis
  proof (rule providers_invI)
    show "hm_wf (providers t)"
      using pt iv(1) by (auto simp: provider_entry_def Let_def split: option.splits)
    show "subject (pr_claims q) = k \<and> hm_wf (pr_instances q)" if "hm_get (providers t) k = Some q" for k q
      using that pt iv(2,3) [of k q]
      by (auto simp: provider_entry_def Let_def hm_wf_def split: option.splits if_splits)
  qed (simp_all add: fr iv(4,5,6), use iv(7) in blast)
qed

section \<open>Starting and stopping keep the invariant\<close>

lemma child_at_put:
  "hm_get (providers t) k = Some p \<Longrightarrow>
   child_at (u\<lparr>providers := hm_insert k (p\<lparr>pr_instances := hm_insert l i (pr_instances p)\<rparr>)
      (providers t)\<rparr>) k' l' =
     (if k' = k \<and> l' = l then Some (pi_child i) else child_at t k' l')"
  by (auto simp: child_at_def)

lemma child_at_cong: "providers t = providers s \<Longrightarrow> child_at t = child_at s"
  by (simp add: child_at_def fun_eq_iff)

lemma providers_inv_next:
  assumes "providers_inv s" "next_child s \<le> i"
  shows "providers_inv (emit es (s\<lparr>next_child := i\<rparr>))"
proof -
  have at: "child_at (emit es (s\<lparr>next_child := i\<rparr>)) = child_at s"
    by (rule child_at_cong) simp
  show ?thesis
    using assms unfolding providers_inv_def at by auto
qed

lemma add_child_inv:
  assumes inv: "providers_inv t" and p: "hm_get (providers t) k = Some p"
    and l: "hm_get (pr_instances p) l = None"
  shows "providers_inv ((emit es (t\<lparr>children := children t @ [next_child t], next_child := Suc (next_child t)\<rparr>))
    \<lparr>providers := hm_insert k (p\<lparr>pr_instances := hm_insert l \<lparr>pi_child = next_child t, pi_id = i\<rparr>
       (pr_instances p)\<rparr>) (providers t)\<rparr>)" (is "providers_inv ?u")
proof (rule providers_invI)
  note iv = providers_invD [OF inv]
  have at: "child_at ?u k' l' = (if k' = k \<and> l' = l then Some (next_child t) else child_at t k' l')" for k' l'
    by (simp add: child_at_put [OF p])
  have fresh: "child_at t k' l' \<noteq> Some (next_child t)" for k' l'
    using iv(4) iv(6) [of "next_child t"] by auto
  have vacant: "child_at t k l = None"
    using p l by (simp add: child_at_def)
  show "hm_wf (providers ?u)" using iv(1) by simp
  show "subject (pr_claims q) = k' \<and> hm_wf (pr_instances q)" if "hm_get (providers ?u) k' = Some q" for k' q
    using that iv(2,3) [OF p] iv(2,3) [of k' q] by (auto split: if_splits)
  show "\<forall>c \<in> set (children ?u). c < next_child ?u"
    using iv(4) by (auto simp: emit_def less_SucI)
  show "distinct (children ?u)"
    using iv(4,5) by (auto simp: emit_def)
  show "c \<in> set (children ?u) \<longleftrightarrow> (\<exists>k l. child_at ?u k l = Some c)" for c
  proof -
    have "(\<exists>k' l'. (if k' = k \<and> l' = l then Some (next_child t) else child_at t k' l') = Some c) \<longleftrightarrow>
        c = next_child t \<or> (\<exists>k l. child_at t k l = Some c)"
      using vacant by (metis option.distinct(1) option.inject)
    then show ?thesis
      unfolding at using iv(6) [of c] by (auto simp: emit_def)
  qed
  show "k1 = k2 \<and> l1 = l2" if "child_at ?u k1 l1 = Some c" "child_at ?u k2 l2 = Some c" for k1 l1 k2 l2 c
    using that fresh iv(7) unfolding at by (auto split: if_splits)
qed

lemma start_provider_inv:
  assumes inv: "providers_inv s"
  shows "providers_inv (snd (start_provider X l r s))"
proof (rule start_provider_cases [OF providers_invD(4) [OF inv], of X l r])
  fix claims :: provider_claims and p t e es i
  assume pt: "provider_entry claims r s = (p, t)" and "next_child s \<le> i"
    and "start_provider X l r s = (Inl e, emit es (t\<lparr>next_child := i\<rparr>))"
  then show ?thesis
    using providers_inv_next [OF provider_entry_inv [OF inv pt]] provider_entry_frames(5) [OF pt] by simp
next
  fix claims :: provider_claims and p t es
  assume pt: "provider_entry claims r s = (p, t)" and "hm_get (pr_instances p) l = None"
    and "start_provider X l r s = (Inr claims,
         (emit es (t\<lparr>children := children s @ [next_child s], next_child := Suc (next_child s)\<rparr>))
           \<lparr>providers := hm_insert (subject claims)
              (p\<lparr>pr_instances := hm_insert l \<lparr>pi_child = next_child s, pi_id = ulid_new X\<rparr>
                 (pr_instances p)\<rparr>) (providers t)\<rparr>)"
  then show ?thesis
    using add_child_inv [OF provider_entry_inv [OF inv pt] provider_entry_get [OF pt]]
      provider_entry_frames(4,5) [OF pt] by simp
qed (simp_all add: inv)

text \<open>The providers after the link name \<open>l\<close> of \<open>k\<close> was taken out.\<close>

definition providers_without :: "string \<Rightarrow> string \<Rightarrow> process \<Rightarrow> (string, provider) hmap" where
  "providers_without k l s =
     (case hm_get (providers s) k of
        None \<Rightarrow> providers s
      | Some p \<Rightarrow>
          if hm_remove l (pr_instances p) = [] then hm_remove k (providers s)
          else hm_insert k (p\<lparr>pr_instances := hm_remove l (pr_instances p)\<rparr>) (providers s))"

lemma request_shutdown_frames [simp, host_frames]:
  "providers (request_shutdown X k l s) = providers s"
  "children (request_shutdown X k l s) = children s"
  "next_child (request_shutdown X k l s) = next_child s"
  "links (request_shutdown X k l s) = links s"
  "actors (request_shutdown X k l s) = actors s"
  by (simp_all add: request_shutdown_def split: sum.split)

lemma drop_child_frames [simp, host_frames]:
  "providers (drop_child c s) = providers s"
  "children (drop_child c s) = filter (\<lambda>c'. c' \<noteq> c) (children s)"
  "next_child (drop_child c s) = next_child s"
  "config (drop_child c s) = config s"
  "host_key (drop_child c s) = host_key s"
  by (simp_all add: drop_child_def) (simp_all add: emit_def)

lemma stop_provider_eq:
  "stop_provider X l k s =
    (Inr (), (case child_at s k l of
                None \<Rightarrow> s | Some c \<Rightarrow> request_shutdown X k l (drop_child c s))
       \<lparr>providers := providers_without k l s\<rparr>)"
proof (cases "hm_get (providers s) k")
  case None
  then show ?thesis by (simp add: stop_provider_def child_at_def providers_without_def)
next
  case (Some p)
  show ?thesis
  proof (cases "hm_get (pr_instances p) l")
    case None
    with Some show ?thesis
      by (simp add: stop_provider_def child_at_def providers_without_def hm_remove_absent hm_remove_insert)
  next
    case inst: (Some i)
    with Some show ?thesis
      by (simp add: stop_provider_def child_at_def providers_without_def hm_remove_insert Let_def)
  qed
qed

lemma child_at_without:
  "child_at (u\<lparr>providers := providers_without k l s\<rparr>) k' l' =
     (if k' = k \<and> l' = l then None else child_at s k' l')"
proof -
  have "hm_remove l is = [] \<Longrightarrow> l' \<noteq> l \<Longrightarrow> hm_get is l' = None" for "is" :: "(string, provider_instance) hmap"
    using hm.get_rem [of l "is" l'] by simp
  then show ?thesis
    by (auto simp: child_at_def providers_without_def split: option.split)
qed

lemma stop_provider_inv:
  assumes inv: "providers_inv s"
  shows "providers_inv (snd (stop_provider X l k s))"
proof -
  note iv = providers_invD [OF inv]
  let ?u = "case child_at s k l of None \<Rightarrow> s | Some c \<Rightarrow> request_shutdown X k l (drop_child c s)"
  let ?t = "?u\<lparr>providers := providers_without k l s\<rparr>"
  have ch: "c \<in> set (children ?u) \<longleftrightarrow> c \<in> set (children s) \<and> child_at s k l \<noteq> Some c" for c
    by (auto split: option.split)
  have at: "child_at ?t k' l' = (if k' = k \<and> l' = l then None else child_at s k' l')" for k' l'
    by (rule child_at_without)
  have "providers_inv ?t"
  proof (rule providers_invI)
    show "hm_wf (providers ?t)"
      using iv(1) by (simp add: providers_without_def split: option.split)
    show "subject (pr_claims q) = k' \<and> hm_wf (pr_instances q)" if "hm_get (providers ?t) k' = Some q" for k' q
      using that iv(2,3) [of k' q] iv(2,3) [of k]
      by (auto simp: providers_without_def split: option.splits if_splits)
    show "\<forall>c \<in> set (children ?t). c < next_child ?t" "distinct (children ?t)"
      using iv(4,5) by (auto split: option.split)
    show "c \<in> set (children ?t) \<longleftrightarrow> (\<exists>k l. child_at ?t k l = Some c)" for c
    proof -
      have "(\<exists>k' l'. (if k' = k \<and> l' = l then None else child_at s k' l') = Some c) \<longleftrightarrow>
          (\<exists>k' l'. child_at s k' l' = Some c) \<and> child_at s k l \<noteq> Some c"
        using iv(7) by (metis option.distinct(1))
      then show ?thesis
        unfolding at using ch [of c] iv(6) [of c] by simp
    qed
  qed (use iv(7) in \<open>auto simp: at split: if_splits\<close>)
  then show ?thesis by (simp add: stop_provider_eq)
qed

end
