(* ===== verification/Kasm_Handler.thy ===== *)
theory Kasm_Handler
  imports Kasm_Host_State
begin

text \<open>
  Outgoing calls of an actor (\<^verbatim>\<open>crates/host/src/handler.rs\<close>: \<^verbatim>\<open>resolve_target\<close>,
  \<^verbatim>\<open>ensure_actor_capability\<close>, \<^verbatim>\<open>call_operation_with_payload\<close>, \<^verbatim>\<open>call_operation\<close>, the response decoders
  and the \<^verbatim>\<open>Bus\<close> implementation). A handler reads the link table and the target table it points to and
  the host's aliases; a call returns its result together with what it sent.
\<close>

section \<open>Data and environment\<close>

text \<open>The fields of \<^verbatim>\<open>Invocation\<close> and \<^verbatim>\<open>InvocationResponse\<close> that the source reads or writes.\<close>

record invocation =
  inv_origin :: wasmcloud_entity
  inv_target :: wasmcloud_entity
  inv_operation :: string
  inv_msg :: bytes
  inv_id :: string
  inv_content_length :: "64 word"

record invocation_response =
  ir_invocation_id :: string
  ir_msg :: bytes
  ir_content_length :: "64 word"
  ir_error :: "string option"

type_synonym headers = "(string \<times> string) list"

text \<open>
  What a call takes from outside: the chunking threshold and endpoint, the constructor of signed
  invocations, the codec, the messaging client, the trace context and the parsers of header names
  and values, and the \<^verbatim>\<open>Default\<close> value of \<^verbatim>\<open>WasmCloudEntity\<close>.
\<close>

record rpc_ext =
  chunk_threshold :: nat
  inv_new :: "key_pair \<Rightarrow> key_pair \<Rightarrow> wasmcloud_entity \<Rightarrow> wasmcloud_entity \<Rightarrow> string \<Rightarrow> bytes \<Rightarrow>
    (string, string) hmap \<Rightarrow> invocation res"
  chunkify :: "string \<Rightarrow> bytes \<Rightarrow> unit res"
  get_unchunkified :: "string \<Rightarrow> bytes res"
  encode_inv :: "invocation \<Rightarrow> bytes res"
  decode_resp :: "bytes \<Rightarrow> invocation_response res"
  send_request :: "string \<Rightarrow> bytes \<Rightarrow> bool \<Rightarrow> headers \<Rightarrow> bytes res"
  trace_context :: "(string, string) hmap"
  header_name :: "string \<Rightarrow> string option"
  header_value :: "string \<Rightarrow> string option"
  default_entity :: wasmcloud_entity

text \<open>What leaves the host during a call; the flag of \<open>Sent\<close> says that the timeout is extended.\<close>

datatype rpc_event = Chunked string bytes | Sent string bytes bool

text \<open>Sequencing of fallible steps that record what they sent, for any type of error.\<close>

type_synonym ('e, 'a) rpc = "('e + 'a) \<times> rpc_event list"

definition rbind :: "('e, 'a) rpc \<Rightarrow> ('a \<Rightarrow> ('e, 'b) rpc) \<Rightarrow> ('e, 'b) rpc" where
  "rbind m f =
     (case m of
        (Inl e, es) \<Rightarrow> (Inl e, es)
      | (Inr x, es) \<Rightarrow> (case f x of (r, es') \<Rightarrow> (r, es @ es')))"

definition pure :: "'e + 'a \<Rightarrow> ('e, 'a) rpc" where
  "pure r = (r, [])"

lemma rbind_simps [simp]:
  "rbind (Inl e, es) f = (Inl e, es)"
  "rbind (pure (Inl e)) f = (Inl e, [])"
  "rbind (pure (Inr x)) f = f x"
  "rbind (Inr x, es) f = (fst (f x), es @ snd (f x))"
  by (simp_all add: rbind_def pure_def split: prod.split)

lemma rbind_Inr:
  "fst (rbind m f) = Inr y \<longleftrightarrow> (\<exists>x. fst m = Inr x \<and> fst (f x) = Inr y)"
  by (cases m; cases "fst m") auto

section \<open>Strings\<close>

text \<open>\<^verbatim>\<open>s.split_once(c)\<close>: at the first occurrence, which is dropped.\<close>

fun split_once :: "char \<Rightarrow> string \<Rightarrow> (string \<times> string) option" where
  "split_once c [] = None"
| "split_once c (x # xs) =
     (if x = c then Some ([], xs)
      else (case split_once c xs of None \<Rightarrow> None | Some (a, b) \<Rightarrow> Some (x # a, b)))"

lemma split_once_Some:
  "split_once c s = Some (a, b) \<longleftrightarrow> s = a @ c # b \<and> c \<notin> set a"
proof (induction s arbitrary: a)
  case (Cons x xs)
  show ?case
  proof (cases a)
    case Nil
    then show ?thesis by (auto split: option.split)
  next
    case a: (Cons y a')
    have "split_once c (x # xs) = Some (a, b) \<longleftrightarrow> x \<noteq> c \<and> x = y \<and> split_once c xs = Some (a', b)"
      by (auto simp: a split: option.split)
    then show ?thesis by (auto simp: a Cons.IH)
  qed
qed simp

lemma split_once_None: "split_once c s = None \<longleftrightarrow> c \<notin> set s"
  by (induction s) (auto split: option.splits)

section \<open>Resolving targets and checking capabilities\<close>

definition resolve_target ::
    "rpc_ext \<Rightarrow> target_entity option \<Rightarrow> (string, wasmcloud_entity) hmap option \<Rightarrow>
     (string, wasmcloud_entity) hmap \<Rightarrow> wasmcloud_entity res" where
  "resolve_target X tgt lnks als =
     (case tgt of
        None \<Rightarrow>
          some_or ''link not found''
            (case lnks of None \<Rightarrow> None | Some targets \<Rightarrow> hm_get targets ''default'')
      | Some (Link link_name) \<Rightarrow>
          some_or ''link not found''
            (case lnks of
               None \<Rightarrow> None
             | Some targets \<Rightarrow>
                 hm_get targets (case link_name of None \<Rightarrow> ''default'' | Some l \<Rightarrow> l))
      | Some (Actor (Key key)) \<Rightarrow> Inr ((default_entity X)\<lparr>ent_public_key := public_key key\<rparr>)
      | Some (Actor (Alias alias)) \<Rightarrow>
          some_or ''unknown actor call alias'' (hm_get als alias))"

definition ensure_actor_capability :: "jwt_actor option \<Rightarrow> string \<Rightarrow> unit res" where
  "ensure_actor_capability claims_metadata contract_id =
     (if contract_id = [] then Inr ()
      else
        (case claims_metadata of
           Some a \<Rightarrow>
             (case act_caps a of
                Some caps \<Rightarrow>
                  ensure (list_ex (\<lambda>cap. cap = contract_id) caps)
                    (''actor does not have capability claim `'' @ contract_id @ ''`'')
              | None \<Rightarrow> Inl (Msg ''actor missing capability claims, denying invocation''))
         | None \<Rightarrow> Inl (Msg ''actor missing capability claims, denying invocation'')))"

definition injector_to_headers :: "rpc_ext \<Rightarrow> headers" where
  "injector_to_headers X =
     List.map_filter
       (\<lambda>(k, v). case header_name X k of
          None \<Rightarrow> None
        | Some n \<Rightarrow> (case header_value X v of None \<Rightarrow> None | Some w \<Rightarrow> Some (n, w)))
       (trace_context X)"

section \<open>Calling an operation\<close>

definition call_topic :: "string \<Rightarrow> target_entity option \<Rightarrow> wasmcloud_entity \<Rightarrow> string" where
  "call_topic prefix tgt ent =
     (case tgt of
        Some (Actor _) \<Rightarrow> ''wasmbus.rpc.'' @ prefix @ ''.'' @ ent_public_key ent
      | _ \<Rightarrow> ''wasmbus.rpc.'' @ prefix @ ''.'' @ ent_public_key ent @ ''.'' @ ent_link_name ent)"

text \<open>\<^verbatim>\<open>usize::try_from(u64)\<close> on a 64-bit target.\<close>

definition usize_try_from :: "64 word \<Rightarrow> nat res" where
  "usize_try_from w = Inr (unat w)"

definition call_operation_with_payload ::
    "rpc_ext \<Rightarrow> process \<Rightarrow> handler \<Rightarrow> target_entity option \<Rightarrow> string \<Rightarrow> bytes \<Rightarrow>
     (error, string + bytes) rpc" where
  "call_operation_with_payload X s hdl tgt operation request =
     rbind (pure (some_or ''failed to parse operation'' (split_once (CHR ''/'') operation)))
       (\<lambda>(package, _).
     rbind (pure (resolve_target X tgt (hm_get (link_cells s ! hd_links hdl) package) (aliases s)))
       (\<lambda>inv_tgt.
     let needs_chunking = chunk_threshold X < length request;
         hdrs = injector_to_headers X
     in rbind (pure (inv_new X (hd_cluster_key hdl) (hd_host_key hdl) (hd_origin hdl) inv_tgt
                 operation request (trace_context X)))
       (\<lambda>inv.
     rbind (pure (ensure_actor_capability (metadata (hd_claims hdl)) (ent_contract_id (inv_target inv))))
       (\<lambda>_.
     rbind
       (if needs_chunking
        then (case with_context ''failed to chunk invocation'' (chunkify X (inv_id inv) (inv_msg inv)) of
                Inl e \<Rightarrow> (Inl e, [])
              | Inr _ \<Rightarrow> (Inr (inv\<lparr>inv_msg := []\<rparr>), [Chunked (inv_id inv) (inv_msg inv)]))
        else pure (Inr inv))
       (\<lambda>inv.
     rbind (pure (with_context ''failed to encode invocation'' (encode_inv X inv)))
       (\<lambda>payload.
     let topic = call_topic (hd_lattice_prefix hdl) tgt (inv_target inv)
     in rbind (with_context ''failed to publish on NATS topic''
                 (send_request X topic payload needs_chunking hdrs),
               [Sent topic payload needs_chunking])
       (\<lambda>reply.
     rbind (pure (with_context ''failed to decode invocation response'' (decode_resp X reply)))
       (\<lambda>resp.
     rbind (pure (ensure (ir_invocation_id resp = inv_id inv) ''invocation ID mismatch''))
       (\<lambda>_.
     rbind (pure (with_context ''content length does not fit in usize''
                    (usize_try_from (ir_content_length resp))))
       (\<lambda>resp_length.
     rbind (pure
        (if chunk_threshold X < resp_length
         then with_context ''failed to dechunk response'' (get_unchunkified X (ir_invocation_id resp))
         else and_then (ensure (resp_length = length (ir_msg resp)) ''message size mismatch'')
                (\<lambda>_. Inr (ir_msg resp))))
       (\<lambda>msg.
     pure (Inr (case ir_error resp of Some err \<Rightarrow> Inl err | None \<Rightarrow> Inr msg)))))))))))))"

text \<open>The failure that a target answered with becomes an error of the call.\<close>

definition flatten_call :: "string \<Rightarrow> string \<Rightarrow> (string + bytes) res \<Rightarrow> bytes res" where
  "flatten_call outer inner r =
     and_then (with_context outer r)
       (\<lambda>ans. case ans of Inl err \<Rightarrow> Inl (Wrap inner (Msg err)) | Inr msg \<Rightarrow> Inr msg)"

definition call_operation ::
    "rpc_ext \<Rightarrow> process \<Rightarrow> handler \<Rightarrow> target_entity option \<Rightarrow> string \<Rightarrow> bytes res \<Rightarrow>
     (error, bytes) rpc" where
  "call_operation X s hdl tgt operation encoded =
     rbind (pure (with_context ''failed to encode request'' encoded)) (\<lambda>request.
       case call_operation_with_payload X s hdl tgt operation request of
         (r, es) \<Rightarrow> (flatten_call ''failed to call target entity'' ''call failed'' r, es))"

section \<open>Decoding responses\<close>

text \<open>
  The leading byte 0x7f announces CBOR, which is refused; 0xc1 announces MessagePack and is dropped.
  \<open>dec\<close> is \<^verbatim>\<open>rmp_serde::from_slice\<close> at the type the caller expects.
\<close>

definition decode_provider_response :: "(bytes \<Rightarrow> 'a res) \<Rightarrow> bytes \<Rightarrow> 'a res" where
  "decode_provider_response dec buf =
     (case buf of
        [] \<Rightarrow> with_context ''failed to decode response'' (dec buf)
      | b # rest \<Rightarrow>
          if b = 0x7f then Inl (Msg ''CBOR responses are not supported'')
          else if b = 0xc1 then with_context ''failed to decode response'' (dec rest)
          else with_context ''failed to decode response'' (dec buf))"

definition decode_empty_provider_response :: "(bytes \<Rightarrow> unit res) \<Rightarrow> bytes \<Rightarrow> unit res" where
  "decode_empty_provider_response dec buf =
     (if buf = [] then Inr () else decode_provider_response dec buf)"

section \<open>The message bus\<close>

definition identify_wasmbus_target ::
    "(string \<Rightarrow> actor_identifier) \<Rightarrow> process \<Rightarrow> handler \<Rightarrow> string \<Rightarrow> string \<Rightarrow> target_entity res" where
  "identify_wasmbus_target parse s hdl binding namespace =
     (if (case hm_get (link_cells s ! hd_links hdl) namespace of
            None \<Rightarrow> False
          | Some bindings \<Rightarrow> hm_get bindings binding \<noteq> None)
      then Inr (Link (Some binding))
      else Inr (Actor (parse namespace)))"

definition set_target ::
    "target_entity option \<Rightarrow> target_interface list \<Rightarrow> handler \<Rightarrow> process \<Rightarrow> unit res \<times> process" where
  "set_target tgt interfaces hdl s =
     (let cell = target_cells s ! hd_targets hdl;
          cell' = (case tgt of
                     Some t \<Rightarrow> foldl (\<lambda>m i. hm_insert i t m) cell interfaces
                   | None \<Rightarrow> foldl (\<lambda>m i. hm_remove i m) cell interfaces)
      in (Inr (), s\<lparr>target_cells := (target_cells s)[hd_targets hdl := cell']\<rparr>))"

definition call_sync ::
    "rpc_ext \<Rightarrow> process \<Rightarrow> handler \<Rightarrow> target_entity option \<Rightarrow> string \<Rightarrow> bytes \<Rightarrow>
     (error, bytes) rpc" where
  "call_sync X s hdl tgt operation request =
     (case call_operation_with_payload X s hdl tgt operation request of
        (r, es) \<Rightarrow> (flatten_call ''failed to call linked provider'' ''provider call failed'' r, es))"

text \<open>
  The future that \<^verbatim>\<open>call\<close> returns, with everything the actor wrote to the request socket as its
  input; the answer is what is written to the response socket. Errors are their printed form.
\<close>

definition str_err :: "'a res \<Rightarrow> string + 'a" where
  "str_err r = map_sum err_to_string (\<lambda>x. x) r"

definition call_future ::
    "rpc_ext \<Rightarrow> process \<Rightarrow> handler \<Rightarrow> target_entity option \<Rightarrow> string \<Rightarrow> bytes res \<Rightarrow>
     (bytes \<Rightarrow> unit res) \<Rightarrow> (string, bytes) rpc" where
  "call_future X s hdl tgt operation req_r res_w =
     rbind (pure (str_err (with_context ''failed to read request'' req_r)))
       (\<lambda>request.
     rbind (pure (str_err (some_or ''failed to parse operation'' (split_once (CHR ''/'') operation))))
       (\<lambda>(package, _).
     rbind (pure (str_err (resolve_target X tgt (hm_get (link_cells s ! hd_links hdl) package)
                    (aliases s))))
       (\<lambda>inv_tgt.
     let needs_chunking = chunk_threshold X < length request;
         hdrs = injector_to_headers X
     in rbind (pure (str_err (inv_new X (hd_cluster_key hdl) (hd_host_key hdl) (hd_origin hdl) inv_tgt
                 operation request (trace_context X))))
       (\<lambda>inv.
     rbind (pure (str_err (ensure_actor_capability (metadata (hd_claims hdl))
                    (ent_contract_id (inv_target inv)))))
       (\<lambda>_.
     rbind
       (if needs_chunking
        then (case str_err (with_context ''failed to chunk invocation''
                     (chunkify X (inv_id inv) (inv_msg inv))) of
                Inl e \<Rightarrow> (Inl e, [])
              | Inr _ \<Rightarrow> (Inr (inv\<lparr>inv_msg := []\<rparr>), [Chunked (inv_id inv) (inv_msg inv)]))
        else pure (Inr inv))
       (\<lambda>inv.
     rbind (pure (str_err (with_context ''failed to encode invocation'' (encode_inv X inv))))
       (\<lambda>payload.
     let topic = call_topic (hd_lattice_prefix hdl) tgt (inv_target inv)
     in rbind (str_err (with_context ''failed to call provider''
                 (send_request X topic payload needs_chunking hdrs)),
               [Sent topic payload needs_chunking])
       (\<lambda>reply.
     rbind (pure (str_err (with_context ''failed to decode invocation response'' (decode_resp X reply))))
       (\<lambda>resp.
     rbind (pure (if ir_invocation_id resp \<noteq> inv_id inv then Inl ''invocation ID mismatch'' else Inr ()))
       (\<lambda>_.
     rbind (pure (str_err (with_context ''content length does not fit in usize''
                    (usize_try_from (ir_content_length resp)))))
       (\<lambda>resp_length.
     rbind (pure
        (if chunk_threshold X < resp_length
         then str_err (with_context ''failed to dechunk response''
                 (get_unchunkified X (ir_invocation_id resp)))
         else if resp_length \<noteq> length (ir_msg resp) then Inl ''message size mismatch''
         else Inr (ir_msg resp)))
       (\<lambda>msg.
     pure (case ir_error resp of
             Some err \<Rightarrow> Inl err
           | None \<Rightarrow> str_err (map_sum (\<lambda>e. e) (\<lambda>_. msg)
                       (with_context ''failed to write reply'' (res_w msg))))))))))))))))"

end
