(* ===== verification/Kasm_Host.thy ===== *)
theory Kasm_Host
  imports Kasm_Actors Kasm_Providers Kasm_Handler
begin

text \<open>
  The host as a whole (\<^verbatim>\<open>crates/host/src/lib.rs\<close>: \<^verbatim>\<open>connect_nats\<close>, \<^verbatim>\<open>Host::new\<close>), and the state machine
  of its public operations. The theory shows that the invariants of links, actors, tasks and providers
  hold in every state a host reaches, whatever the network, the registries and the operating system
  answer.
\<close>

section \<open>Creating a host\<close>

text \<open>The connect options of the NATS client.\<close>

record connect_options =
  co_require_tls :: bool
  co_jwt :: "(string \<times> key_pair) option"
  co_request_timeout :: "nat option"

record new_ext =
  new_key_pair :: "key_pair_type \<Rightarrow> key_pair"
  build_runtime :: "unit res"
  nats_connect :: "connect_options \<Rightarrow> string \<Rightarrow> unit res"

text \<open>\<open>co_request_timeout = None\<close> leaves the client's own default in place.\<close>

definition connect_nats :: "new_ext \<Rightarrow> nats_config \<Rightarrow> unit res" where
  "connect_nats X cfg =
     (let opts = \<lparr>co_require_tls = nc_tls cfg, co_jwt = None, co_request_timeout = None\<rparr>
      in and_then
           (case (nc_jwt cfg, nc_key cfg) of
              (Some jwt, Some key) \<Rightarrow> Inr (opts\<lparr>co_jwt := Some (jwt, key)\<rparr>)
            | (Some _, None) \<Rightarrow> Inl (Msg ''cannot authenticate if only one of jwt or seed is specified'')
            | (None, Some _) \<Rightarrow> Inl (Msg ''cannot authenticate if only one of jwt or seed is specified'')
            | _ \<Rightarrow> Inr opts)
           (\<lambda>opts.
              let opts = (case nc_timeout cfg of
                            Some timeout \<Rightarrow> opts\<lparr>co_request_timeout := Some timeout\<rparr>
                          | None \<Rightarrow> opts)
              in with_context ''failed to connect to NATS'' (nats_connect X opts (nc_url cfg))))"

text \<open>A configured key must be of the given type; otherwise a new one is generated.\<close>

definition key_or_new :: "new_ext \<Rightarrow> key_pair_type \<Rightarrow> string \<Rightarrow> key_pair option \<Rightarrow> key_pair res" where
  "key_or_new X t msg k =
     (case k of
        Some key \<Rightarrow> and_then (ensure (key_pair_type key = t) msg) (\<lambda>_. Inr key)
      | None \<Rightarrow> Inr (new_key_pair X t))"

definition issuers_with :: "key_pair \<Rightarrow> string list option \<Rightarrow> string list" where
  "issuers_with key issuers =
     (let is = (case issuers of None \<Rightarrow> [] | Some is \<Rightarrow> is)
      in if public_key key \<in> set is then is else is @ [public_key key])"

definition host_new :: "new_ext \<Rightarrow> string \<Rightarrow> host_config \<Rightarrow> process res" where
  "host_new X nm cfg =
     and_then (key_or_new X Cluster
        ''Condition failed: `cluster_key.key_pair_type() == KeyPairType::Cluster`''
        (hc_cluster_key cfg)) (\<lambda>ck.
     and_then (key_or_new X Server
        ''Condition failed: `host_key.key_pair_type() == KeyPairType::Server`''
        (hc_host_key cfg)) (\<lambda>hk.
     and_then (with_context ''failed to build runtime'' (build_runtime X)) (\<lambda>_.
     and_then (with_context ''failed to establish NATS RPC server connection''
        (connect_nats X (hc_rpc_config cfg))) (\<lambda>_.
     and_then (with_context ''failed to establish NATS provider RPC server connection''
        (connect_nats X (hc_prov_rpc_config cfg))) (\<lambda>_.
     Inr \<lparr>name = nm, host_key = hk, lattice_prefix = hc_lattice_prefix cfg, cluster_key = ck,
          cluster_issuers = issuers_with ck (hc_cluster_issuers cfg), config = cfg,
          links = [], actor_keys = [], actors = [], providers = [], aliases = [],
          registry_settings = [], link_cells = [], target_cells = [], tasks = [], next_task = 0,
          children = [], next_child = 0, events = []\<rparr>)))))"

section \<open>What each component owns\<close>

text \<open>The fields the invariant of links and actors reads, and those the invariant of providers reads.\<close>

definition actor_part where
  "actor_part s = (links s, link_cells s, actors s, actor_keys s, target_cells s, cluster_issuers s,
     tasks s, next_task s, lattice_prefix s, aliases s)"

definition provider_part where
  "provider_part s = (providers s, children s, next_child s, aliases s)"

lemma host_inv_part: "actor_part t = actor_part s \<Longrightarrow> host_inv_upto P D t = host_inv_upto P D s"
  by (simp add: actor_part_def host_inv_upto_def links_inv_upto_def links_wf_def groups_wf_def tables_agree_upto_def
      linked_def actors_wf_def actor_wf_def tasks_wf_def calls_at_def instances_at_def actor_at_def
      actor_topic_def)

lemma providers_inv_part: "provider_part t = provider_part s \<Longrightarrow> providers_inv t = providers_inv s"
  by (simp add: provider_part_def providers_inv_def child_at_def)

lemma provider_part_frames [simp, host_frames]:
  "provider_part (emit es s) = provider_part s"
  "provider_part (update_table k f s) = provider_part s"
  "provider_part (s\<lparr>links := ls\<rparr>) = provider_part s"
  "provider_part (set_actor k n a s) = provider_part s"
  "provider_part (spawn_tasks tp m s) = provider_part s"
  "provider_part (with_targets s) = provider_part s"
  "provider_part (abort_calls xs s) = provider_part s"
  "provider_part (bind_name n k s) = provider_part s"
  "provider_part (s\<lparr>actors := gs, actor_keys := ks\<rparr>) = provider_part s"
  by (simp_all add: provider_part_def emit_def update_table_def set_actor_def spawn_tasks_def
      with_targets_def abort_calls_def bind_name_def split: option.split)

lemma group_entry_provider_part: "group_entry k s = (g, t) \<Longrightarrow> provider_part t = provider_part s"
  by (auto simp: group_entry_def provider_part_def Let_def split: option.splits)

lemma add_linkdef_provider_part: "provider_part (snd (add_linkdef D X ld s)) = provider_part s"
  by (rule add_linkdef_snd [of s D ld X]) (simp_all add: link_put_def)

lemma delete_linkdef_provider_part: "provider_part (snd (delete_linkdef D X ld s)) = provider_part s"
  by (rule delete_linkdef_snd [of s D ld X]) (simp_all add: link_drop_def)

lemma scale_actor_provider_part:
  assumes "rt_claims act = Some claims"
  shows "provider_part (snd (scale_actor X act claims n r m g s)) = provider_part s"
proof (cases "hm_get (ag_actors g) n")
  case None
  show ?thesis
    by (rule scale_absent_cases [OF assms None, of m X r s]) simp_all
next
  case (Some a)
  show ?thesis
    by (rule scale_present_cases [OF Some, of m X act claims r s]) simp_all
qed

lemma reconcile_actor_provider_part:
  "provider_part (snd (reconcile_actor X n r m s)) = provider_part s"
  by (rule reconcile_actor_cases [of X n r m s])
    (simp_all add: fetched_def scale_actor_provider_part group_entry_provider_part)

lemma remove_actor_provider_part: "provider_part (snd (remove_actor n s)) = provider_part s"
  by (cases "hm_get (actor_keys s) n")
    (simp_all add: remove_actor_unbound remove_actor_bound)

lemma actor_part_frames [simp, host_frames]:
  "actor_part (emit es s) = actor_part s"
  "actor_part (s\<lparr>providers := ps\<rparr>) = actor_part s"
  "actor_part (s\<lparr>next_child := i\<rparr>) = actor_part s"
  "actor_part (s\<lparr>children := cs\<rparr>) = actor_part s"
  "actor_part (drop_child c s) = actor_part s"
  "actor_part (request_shutdown X k l s) = actor_part s"
  by (simp_all add: actor_part_def emit_def drop_child_def request_shutdown_def split: sum.split)

lemma provider_entry_actor_part: "provider_entry c r s = (p, t) \<Longrightarrow> actor_part t = actor_part s"
  by (auto simp: provider_entry_def Let_def split: option.splits)

lemma start_provider_actor_part:
  assumes "providers_inv s"
  shows "actor_part (snd (start_provider X l r s)) = actor_part s"
  by (rule start_provider_cases [OF providers_invD(4) [OF assms], of X l r])
    (simp_all add: provider_entry_actor_part)

lemma stop_provider_actor_part: "actor_part (snd (stop_provider X l k s)) = actor_part s"
  by (simp add: stop_provider_eq split: option.split)

lemmas part_frames =
  add_linkdef_provider_part delete_linkdef_provider_part reconcile_actor_provider_part
  remove_actor_provider_part stop_provider_actor_part start_provider_actor_part

text \<open>Link operations write the registry and the link tables only.\<close>

definition running_part where
  "running_part s = (actors s, actor_keys s, target_cells s, cluster_issuers s, tasks s, next_task s,
     lattice_prefix s)"

lemma host_inv_running_part:
  assumes "running_part t = running_part s" "links_inv_upto P D t" "host_inv_upto Q D s"
  shows "host_inv_upto P D t"
  using assms actors_wf_cong [of t s] tasks_wf_cong [of t s]
  by (simp add: host_inv_upto_def running_part_def)

lemma add_linkdef_running_part: "running_part (snd (add_linkdef D X ld s)) = running_part s"
  by (rule add_linkdef_snd [of s D ld X]) (simp_all add: link_put_def running_part_def)

lemma delete_linkdef_running_part: "running_part (snd (delete_linkdef D X ld s)) = running_part s"
  by (rule delete_linkdef_snd [of s D ld X]) (simp_all add: link_drop_def running_part_def)

lemma add_linkdef_host_inv: "host_inv D s \<Longrightarrow> host_inv D (snd (add_linkdef D X ld s))"
  using add_linkdef_inv [of D s X ld] by (rule host_inv_running_part [OF add_linkdef_running_part])
    (simp_all add: host_invD)

lemma delete_linkdef_host_inv: "host_inv D s \<Longrightarrow> host_inv D (snd (delete_linkdef D X ld s))"
  using delete_linkdef_inv [of D s X ld] by (rule host_inv_running_part [OF delete_linkdef_running_part])
    (simp_all add: host_invD)

section \<open>The state machine of a host\<close>

text \<open>
  One rule per public operation. The operations hold their locks so that each takes effect as one
  step here; the arguments and the outcomes of every external call are arbitrary.
\<close>

inductive host_step :: "digest \<Rightarrow> process \<Rightarrow> process \<Rightarrow> bool" for D :: digest where
  add_link: "host_step D s (snd (add_linkdef D X ld s))"
| delete_link: "host_step D s (snd (delete_linkdef D X ld s))"
| reconcile: "host_step D s (snd (reconcile_actor Y n r m s))"
| remove: "host_step D s (snd (remove_actor n s))"
| start: "host_step D s (snd (start_provider Z l r s))"
| stop: "host_step D s (snd (stop_provider Z l k s))"
| retarget: "host_step D s (snd (set_target tgt ifaces hdl s))"

inductive_cases host_stepE: "host_step D s t"

definition initial_host :: "process \<Rightarrow> bool" where
  "initial_host s \<longleftrightarrow> (\<exists>X nm cfg. host_new X nm cfg = Inr s)"

definition system_inv :: "digest \<Rightarrow> process \<Rightarrow> bool" where
  "system_inv D s \<longleftrightarrow> host_inv D s \<and> providers_inv s \<and> aliases s = []"

lemma host_new_empty:
  assumes "host_new X nm cfg = Inr s"
  shows "links s = []" "actor_keys s = []" "actors s = []" "providers s = []" "aliases s = []"
    "tasks s = []" "children s = []"
  using assms by (auto simp: host_new_def and_then_Inr)

lemma empty_system_inv:
  assumes "links s = []" "actor_keys s = []" "actors s = []" "providers s = []" "aliases s = []"
    "tasks s = []" "children s = []"
  shows "system_inv D s"
  using assms
  by (simp add: system_inv_def host_inv_def links_inv_def links_wf_def groups_wf_def tables_agree_def
      actors_wf_def tasks_wf_def calls_at_def instances_at_def actor_at_def providers_inv_def child_at_def
      hm_wf_def)

lemma host_step_inv:
  assumes "system_inv D s" "host_step D s t"
  shows "system_inv D t"
proof -
  have by_actor_op: "system_inv D t" if "provider_part t = provider_part s" "host_inv D t" for t
    using that assms(1) providers_inv_part [of t s] by (simp add: system_inv_def provider_part_def)
  have by_provider_op: "system_inv D t" if "actor_part t = actor_part s" "providers_inv t" for t
    using that assms(1) host_inv_part [of t s "{}" D] by (simp add: system_inv_def actor_part_def)
  from assms have inv: "host_inv D s" "providers_inv s" by (auto simp: system_inv_def)
  from assms(2) show ?thesis
  proof cases
    case (add_link X ld)
    with inv show ?thesis by (auto simp: part_frames intro!: by_actor_op add_linkdef_host_inv)
  next
    case (delete_link X ld)
    with inv show ?thesis by (auto simp: part_frames intro!: by_actor_op delete_linkdef_host_inv)
  next
    case (reconcile Y n r m)
    with inv show ?thesis by (auto simp: part_frames intro!: by_actor_op reconcile_actor_inv)
  next
    case (remove n)
    with inv show ?thesis by (auto simp: part_frames intro!: by_actor_op remove_actor_inv)
  next
    case (start Z l r)
    with inv show ?thesis by (auto simp: part_frames intro!: by_provider_op start_provider_inv)
  next
    case (stop Z l k)
    with inv show ?thesis by (auto simp: part_frames intro!: by_provider_op stop_provider_inv)
  next
    case (retarget tgt ifaces hdl)
    with inv show ?thesis
      by (auto simp: set_target_def Let_def provider_part_def intro!: by_actor_op write_targets_inv)
  qed
qed

interpretation host_sys: transition_system initial_host "host_step D" "system_inv D" for D :: digest
proof
  show "system_inv D s" if "initial_host s" for s
    using that by (auto simp: initial_host_def intro!: empty_system_inv dest: host_new_empty)
  show "system_inv D t" if "system_inv D s" "host_step D s t" for s t
    using that by (rule host_step_inv)
qed

text \<open>In a reachable state, the link table of a running instance is the registry's view of its actor.\<close>

lemma instance_actor:
  assumes "i \<in> set (instances_at s k n)"
  obtains g a where "hm_get (actors s) k = Some g" "hm_get (ag_actors g) n = Some a"
    "i \<in> set (ac_instances a)"
  using assms by (auto simp: instances_at_def actor_at_def split: option.splits dest: sym)

lemma reachable_table:
  assumes "initial_host s" "(host_step D)\<^sup>*\<^sup>* s t" "i \<in> set (instances_at t k n)"
  shows "table_get (link_cells t ! hd_links (in_handler i)) c l = linked t k c l"
proof -
  have inv: "host_inv D t"
    using host_sys.reachable_inv [OF assms(1,2)] by (simp add: system_inv_def)
  obtain g a where g: "hm_get (actors t) k = Some g" "hm_get (ag_actors g) n = Some a"
    and i: "i \<in> set (ac_instances a)"
    by (rule instance_actor [OF assms(3)])
  have "hd_links (in_handler i) = ag_links g"
    using actors_wfD(3) [OF host_invD(5) [OF inv] g] i by (simp add: actor_wf_def)
  then show ?thesis
    using host_invD(4) [OF inv] g(1) by (simp add: tables_agree_def)
qed

end
