(* ===== verification/Kasm_Reconcile.thy ===== *)
theory Kasm_Reconcile
  imports Kasm_Actors
begin

text \<open>
  What a reconciliation and a removal do to the instances and the tasks, as equations on the abstract
  view (\<^const>\<open>instances_at\<close>, \<^const>\<open>tasks\<close>): the facts the properties of actors rest on.
\<close>

section \<open>Installing an actor\<close>

lemma instances_at_set_actor:
  "hm_get (actors s) k = Some g \<Longrightarrow>
   instances_at (set_actor k n a s) k' n' =
     (if k' = k \<and> n' = n then ac_instances a else instances_at s k' n')"
  by (auto simp: instances_at_def actor_at_def set_actor_def)

lemma instances_at_cong: "actors t = actors s \<Longrightarrow> instances_at t = instances_at s"
  by (simp add: instances_at_def actor_at_def fun_eq_iff)

lemma instances_at_frames [simp, host_frames]:
  "instances_at (spawn_tasks tp m s) = instances_at s"
  "instances_at (with_targets s) = instances_at s"
  "instances_at (abort_calls xs s) = instances_at s"
  "instances_at (bind_name n k s) = instances_at s"
  by (rule instances_at_cong, simp)+

lemma instances_at_absent:
  "hm_get (actors s) k = Some g \<Longrightarrow> hm_get (ag_actors g) n = None \<Longrightarrow> instances_at s k n = []"
  by (simp add: instances_at_def actor_at_def)

lemma instances_at_present:
  "hm_get (actors s) k = Some g \<Longrightarrow> hm_get (ag_actors g) n = Some a \<Longrightarrow>
   instances_at s k n = ac_instances a"
  by (simp add: instances_at_def actor_at_def)

lemma instances_at_bound:
  assumes "actors_wf s" "instances_at s k n \<noteq> []"
  shows "hm_get (actor_keys s) n = Some k"
  using assms(2) actors_wfD(2) [OF assms(1)]
  by (simp add: instances_at_def actor_at_def split: option.splits)

lemma group_entry_instances: "group_entry k s = (g, t) \<Longrightarrow> instances_at t = instances_at s"
  using group_entry_frames(8) [of k s g t] by (simp add: instances_at_def fun_eq_iff)

section \<open>Scaling\<close>

text \<open>
  The instances of an actor after scaling it to \<open>m\<close>: the oldest ones go first, new ones are appended.
\<close>

definition scaled :: "nat \<Rightarrow> actor_instance list \<Rightarrow> actor_instance list \<Rightarrow> actor_instance list" where
  "scaled m old new = drop (length old - m) old @ new"

text \<open>
  The tasks after scaling: those of the dropped instances end, one per new instance is spawned.
\<close>

definition rescheduled ::
    "nat \<Rightarrow> actor_instance list \<Rightarrow> string \<Rightarrow> process \<Rightarrow> (nat \<times> string) list" where
  "rescheduled m old topic s =
     filter (\<lambda>t. fst t \<notin> in_calls ` set (take (length old - m) old)) (tasks s) @
     map (\<lambda>h. (h, topic)) [next_task s..<next_task s + (m - length old)]"

lemma scaled_calls:
  assumes "map in_calls new = [i..<j]"
  shows "set (map in_calls (scaled m old new)) \<subseteq> set (map in_calls old) \<union> {i..<j}"
proof -
  have "in_calls ` set new = {i..<j}" using arg_cong [OF assms, of set] by simp
  then show ?thesis by (auto simp: scaled_def dest: in_set_dropD)
qed

lemma rescheduled_known:
  assumes "(h, tp) \<in> set (rescheduled m old topic s)"
    and "map in_calls new = [next_task s..<next_task s + (m - length old)]"
  shows "h \<in> in_calls ` set (scaled m old new) \<or> (h, tp) \<in> set (tasks s) \<and> h \<notin> in_calls ` set old"
proof -
  let ?d = "length old - m"
  have new: "in_calls ` set new = {next_task s..<next_task s + (m - length old)}"
    using arg_cong [OF assms(2), of set] by simp
  have "in_calls ` set old = in_calls ` set (take ?d old) \<union> in_calls ` set (drop ?d old)"
    by (metis append_take_drop_id image_Un set_append)
  with assms(1) new show ?thesis
    by (auto simp: rescheduled_def scaled_def image_Un)
qed

lemma scaled_length: "length new = m - length old \<Longrightarrow> length (scaled m old new) = m"
  by (simp add: scaled_def)

lemma scale_actor_ok:
  assumes c: "rt_claims act = Some claims" and g: "hm_get (actors s) (subject claims) = Some g"
    and ok: "scale_actor X act claims n r m g s = (Inr c', t)"
  obtains new where "c' = claims"
    "map in_calls new = [next_task s..<next_task s + (m - length (instances_at s (subject claims) n))]"
    "instances_at t (subject claims) n = scaled m (instances_at s (subject claims) n) new"
    "\<And>k' n'. (k', n') \<noteq> (subject claims, n) \<Longrightarrow> instances_at t k' n' = instances_at s k' n'"
    "tasks t = rescheduled m (instances_at s (subject claims) n) (actor_topic s (subject claims)) s"
    "actor_keys t = actor_keys s"
proof (cases "hm_get (ag_actors g) n")
  case None
  note at = instances_at_absent [OF g None]
  show ?thesis
  proof (rule scale_absent_cases [OF c None, of m X r s])
    assume "m = 0" "scale_actor X act claims n r m g s = (Inr claims, s)"
    with ok at that [of "[]"] show ?thesis by (simp add: scaled_def rescheduled_def)
  next
    fix a assume eq: "scale_actor X act claims n r m g s = (Inr claims,
        set_actor (subject claims) n a (spawn_tasks (actor_topic s (subject claims)) m (with_targets s)))"
      and a: "map in_calls (ac_instances a) = [next_task s..<next_task s + m]"
    have g': "hm_get (actors (spawn_tasks (actor_topic s (subject claims)) m (with_targets s)))
        (subject claims) = Some g" using g by simp
    have res: "c' = claims" "t = set_actor (subject claims) n a
        (spawn_tasks (actor_topic s (subject claims)) m (with_targets s))"
      using ok eq by (metis Pair_inject sum.inject(2))+
    show ?thesis
      by (rule that [of "ac_instances a"], unfold res)
        (auto simp: scaled_def rescheduled_def instances_at_set_actor [OF g'] at a)
  qed (use ok in simp_all)
next
  case (Some a)
  note at = instances_at_present [OF g Some]
  show ?thesis
  proof (rule scale_present_cases [OF Some, of m X act claims r s])
    assume "length (ac_instances a) = m" "scale_actor X act claims n r m g s = (Inr claims, s)"
    with ok at that [of "[]"] show ?thesis by (simp add: scaled_def rescheduled_def)
  next
    fix xs :: "actor_instance list"
    assume eq: "length (ac_instances a) < m" "scale_actor X act claims n r m g s =
         (Inr claims, set_actor (subject claims) n (a\<lparr>ac_instances := ac_instances a @ xs\<rparr>)
            (spawn_tasks (actor_topic s (subject claims)) (m - length (ac_instances a)) s))"
      and xs: "map in_calls xs = [next_task s..<next_task s + (m - length (ac_instances a))]"
    have g': "hm_get (actors (spawn_tasks (actor_topic s (subject claims)) (m - length (ac_instances a)) s))
        (subject claims) = Some g" using g by simp
    have res: "c' = claims" "t = set_actor (subject claims) n (a\<lparr>ac_instances := ac_instances a @ xs\<rparr>)
        (spawn_tasks (actor_topic s (subject claims)) (m - length (ac_instances a)) s)"
      using ok eq by (metis Pair_inject sum.inject(2))+
    show ?thesis
      by (rule that [of xs], unfold res)
        (use eq(1) in \<open>auto simp: scaled_def rescheduled_def instances_at_set_actor [OF g'] at xs\<close>)
  next
    assume eq: "m < length (ac_instances a)" "scale_actor X act claims n r m g s =
         (Inr claims, abort_calls (take (length (ac_instances a) - m) (ac_instances a))
            (set_actor (subject claims) n
               (a\<lparr>ac_instances := drop (length (ac_instances a) - m) (ac_instances a)\<rparr>) s))"
    have res: "c' = claims" "t = abort_calls (take (length (ac_instances a) - m) (ac_instances a))
        (set_actor (subject claims) n
           (a\<lparr>ac_instances := drop (length (ac_instances a) - m) (ac_instances a)\<rparr>) s)"
      using ok eq by (metis Pair_inject sum.inject(2))+
    show ?thesis
      by (rule that [of "[]"], unfold res)
        (use eq(1) in \<open>auto simp: scaled_def rescheduled_def instances_at_set_actor [OF g] at\<close>)
  qed (use ok in simp_all)
qed

text \<open>A failed scaling changes no actor, but the tasks it spawned before the failure stay.\<close>

lemma scale_actor_err:
  assumes c: "rt_claims act = Some claims" and g: "hm_get (actors s) (subject claims) = Some g"
    and err: "scale_actor X act claims n r m g s = (Inl e, t)"
  obtains j where
    "j = subscribed X (actor_topic s (subject claims)) 0 (m - length (instances_at s (subject claims) n))"
    "j < m - length (instances_at s (subject claims) n)"
    "instances_at t = instances_at s" "actor_keys t = actor_keys s"
    "tasks t = tasks s @ map (\<lambda>h. (h, actor_topic s (subject claims))) [next_task s..<next_task s + j]"
proof (cases "hm_get (ag_actors g) n")
  case None
  show ?thesis
    by (rule scale_absent_cases [OF c None, of m X r s])
      (use err instances_at_absent [OF g None] in \<open>auto intro!: that\<close>)
next
  case (Some a)
  show ?thesis
    by (rule scale_present_cases [OF Some, of m X act claims r s])
      (use err instances_at_present [OF g Some] in \<open>auto intro!: that\<close>)
qed

section \<open>Reconciling\<close>

text \<open>The group of a name that may be bound: where a reconciliation does its work.\<close>

lemma group_entry_bind:
  assumes "group_entry k (bind_name n k s) = (g, t)" "hm_get (actor_keys s) n \<in> {None, Some k}"
  shows "hm_get (actors t) k = Some g" "instances_at t = instances_at s" "tasks t = tasks s"
    "next_task t = next_task s" "actor_topic t = actor_topic s" "hm_get (actor_keys t) n = Some k"
  using group_entry_get [OF assms(1)] group_entry_instances [OF assms(1)]
    group_entry_frames(1-4) [OF assms(1)] actor_topic_cong [of t s] bind_name_get [OF assms(2)]
  by simp_all

lemma reconcile_actor_ok:
  assumes "reconcile_actor X n r m s = (Inr claims, t)"
  obtains act new where "fetched X r s act claims"
    "hm_get (actor_keys s) n \<in> {None, Some (subject claims)}"
    "hm_get (actor_keys t) n = Some (subject claims)"
    "map in_calls new = [next_task s..<next_task s + (m - length (instances_at s (subject claims) n))]"
    "instances_at t (subject claims) n = scaled m (instances_at s (subject claims) n) new"
    "\<And>k' n'. (k', n') \<noteq> (subject claims, n) \<Longrightarrow> instances_at t k' n' = instances_at s k' n'"
    "tasks t = rescheduled m (instances_at s (subject claims) n) (actor_topic s (subject claims)) s"
proof (rule reconcile_actor_cases [of X n r m s])
  fix act c g u
  assume f: "fetched X r s act c" and k: "hm_get (actor_keys s) n \<in> {None, Some (subject c)}"
    and gu: "group_entry (subject c) (bind_name n (subject c) s) = (g, u)"
    and eq: "reconcile_actor X n r m s = scale_actor X act c n r m g u"
  note u = group_entry_bind [OF gu k]
  have c: "rt_claims act = Some c" using f by (simp add: fetched_def)
  from assms eq have "scale_actor X act c n r m g u = (Inr claims, t)" by simp
  then show ?thesis
    by (rule scale_actor_ok [OF c u(1)])
      (use f k u in \<open>auto intro!: that simp: rescheduled_def\<close>)
qed (use assms in simp_all)

lemma reconcile_actor_err:
  assumes "reconcile_actor X n r m s = (Inl e, t)"
  obtains (rejected) "t = s"
      "\<And>act claims. fetched X r s act claims \<Longrightarrow> \<exists>k. hm_get (actor_keys s) n = Some k \<and> k \<noteq> subject claims"
  | (partial) act claims j where "fetched X r s act claims"
      "j = subscribed X (actor_topic s (subject claims)) 0 (m - length (instances_at s (subject claims) n))"
      "j < m - length (instances_at s (subject claims) n)"
      "instances_at t = instances_at s" "hm_get (actor_keys t) n = Some (subject claims)"
      "tasks t = tasks s @ map (\<lambda>h. (h, actor_topic s (subject claims))) [next_task s..<next_task s + j]"
proof (rule reconcile_actor_cases [of X n r m s])
  fix act c g u
  assume f: "fetched X r s act c" and k: "hm_get (actor_keys s) n \<in> {None, Some (subject c)}"
    and gu: "group_entry (subject c) (bind_name n (subject c) s) = (g, u)"
    and eq: "reconcile_actor X n r m s = scale_actor X act c n r m g u"
  note u = group_entry_bind [OF gu k]
  have c: "rt_claims act = Some c" using f by (simp add: fetched_def)
  from assms eq have "scale_actor X act c n r m g u = (Inl e, t)" by simp
  then show ?thesis
    by (rule scale_actor_err [OF c u(1)]) (use f u in \<open>auto intro!: partial\<close>)
qed (use assms rejected in auto)

text \<open>A module of the right key and a broker that accepts subscriptions are all a success needs.\<close>

lemma reconcile_actor_succeeds:
  assumes "fetched X r s act claims" "hm_get (actor_keys s) n \<in> {None, Some (subject claims)}"
    and "\<And>i topic. is_ok (queue_subscribe X i topic)"
  obtains t where "reconcile_actor X n r m s = (Inr claims, t)"
proof (cases "reconcile_actor X n r m s")
  case (Pair q t)
  show ?thesis
  proof (cases q)
    case (Inl e)
    from Pair [unfolded Inl] show ?thesis
      by (rule reconcile_actor_err) (use assms subscribed_all [OF assms(3)] in force)+
  next
    case (Inr c)
    from Pair [unfolded Inr] show ?thesis
      by (rule reconcile_actor_ok)
        (use Pair Inr assms(1) that in \<open>auto simp: fetched_def\<close>)
  qed
qed

text \<open>The counter of tasks moves with the list of tasks.\<close>

lemma reconcile_err_next:
  assumes "reconcile_actor X n r m s = (Inl e, t)"
  shows "length (tasks t) + next_task s = length (tasks s) + next_task t"
proof (rule reconcile_actor_cases [of X n r m s])
  fix act c g u
  assume f: "fetched X r s act c" and gu: "group_entry (subject c) (bind_name n (subject c) s) = (g, u)"
    and eq: "reconcile_actor X n r m s = scale_actor X act c n r m g u"
  have c: "rt_claims act = Some c" using f by (simp add: fetched_def)
  have err: "scale_actor X act c n r m g u = (Inl e, t)" using assms eq by simp
  have "length (tasks t) + next_task u = length (tasks u) + next_task t"
  proof (cases "hm_get (ag_actors g) n")
    case None
    show ?thesis by (rule scale_absent_cases [OF c None, of m X r u]) (use err in auto)
  next
    case (Some a)
    show ?thesis by (rule scale_present_cases [OF Some, of m X act c r u]) (use err in auto)
  qed
  then show ?thesis using group_entry_frames(2,3) [OF gu] by simp
qed (use assms in simp)

lemma reconcile_actor_count:
  "reconcile_actor X n r m s = (Inr claims, t) \<Longrightarrow> length (instances_at t (subject claims) n) = m"
  by (erule reconcile_actor_ok) (metis scaled_length length_map length_upt diff_add_inverse)

text \<open>The instances of an actor that was not there speak with the claims of the fetched module.\<close>

lemma reconcile_actor_claims:
  assumes "reconcile_actor X n r m s = (Inr claims, t)" "actor_at s (subject claims) n = None"
    and "i \<in> set (instances_at t (subject claims) n)"
  shows "hd_claims (in_handler i) = claims"
proof (rule reconcile_actor_cases [of X n r m s])
  fix act c g u
  assume f: "fetched X r s act c" and gu: "group_entry (subject c) (bind_name n (subject c) s) = (g, u)"
    and eq: "reconcile_actor X n r m s = scale_actor X act c n r m g u"
  have c: "rt_claims act = Some c" "c = claims"
    using f by (auto simp: fetched_def intro: reconcile_actor_ok [OF assms(1)])
  have g: "hm_get (actors u) (subject c) = Some g" by (rule group_entry_get [OF gu])
  have at: "actor_at u = actor_at s"
    using group_entry_frames(8) [OF gu] actor_at_cong [of "bind_name n (subject c) s" s] by simp
  then have none: "hm_get (ag_actors g) n = None"
    using assms(2) g c(2) by (metis actor_at_def option.simps(5))
  show ?thesis
  proof (rule scale_absent_cases [OF c(1) none, of m X r u])
    assume "scale_actor X act c n r m g u = (Inr c, u)"
    with assms eq at c(2) show ?thesis by (simp add: instances_at_def)
  next
    fix a
    assume sc: "scale_actor X act c n r m g u = (Inr c, set_actor (subject c) n a
        (spawn_tasks (actor_topic u (subject c)) m (with_targets u)))"
      and wf: "actor_wf (with_targets u) (subject c) g a" and hc: "hd_claims (ac_handler a) = c"
    have "instances_at t (subject c) n = ac_instances a"
      using assms(1) eq sc g by (auto simp: instances_at_set_actor)
    with assms(3) wf hc c(2) show ?thesis by (simp add: actor_wf_def)
  qed (use assms(1) eq in simp_all)
qed (use assms(1) in simp_all)

text \<open>Actors do not touch the link registry.\<close>

lemma reconcile_actor_links: "links (snd (reconcile_actor X n r m s)) = links s"
  by (rule reconcile_actor_cases [of X n r m s])
    (auto simp: fetched_def scale_actor_frames group_entry_frames(7))

lemma reconcile_actor_group:
  assumes "reconcile_actor X n r m s = (Inr claims, t)"
  obtains g where "hm_get (actors t) (subject claims) = Some g"
proof (rule reconcile_actor_cases [of X n r m s])
  fix act c g u
  assume f: "fetched X r s act c" and gu: "group_entry (subject c) (bind_name n (subject c) s) = (g, u)"
    and eq: "reconcile_actor X n r m s = scale_actor X act c n r m g u"
  have c: "rt_claims act = Some c" using f by (simp add: fetched_def)
  have g: "hm_get (actors u) (subject c) = Some g" by (rule group_entry_get [OF gu])
  have ok: "scale_actor X act c n r m g u = (Inr claims, t)" using assms eq by simp
  have "hm_get (actors t) (subject c) \<noteq> None \<and> claims = c"
  proof (cases "hm_get (ag_actors g) n")
    case None
    show ?thesis
      by (rule scale_absent_cases [OF c None, of m X r u]) (use ok g in \<open>auto simp: set_actor_def\<close>)
  next
    case (Some a)
    show ?thesis
      by (rule scale_present_cases [OF Some, of m X act c r u]) (use ok g in \<open>auto simp: set_actor_def\<close>)
  qed
  with that show ?thesis by auto
qed (use assms in simp_all)

text \<open>A reconciliation that finds the actor as it wants it does nothing.\<close>

lemma reconcile_actor_settled:
  assumes f: "fetched X r s act claims" and k: "hm_get (actor_keys s) n = Some (subject claims)"
    and g: "hm_get (actors s) (subject claims) = Some g"
    and m: "length (instances_at s (subject claims) n) = m"
  shows "reconcile_actor X n r m s = (Inr claims, s)"
proof (rule reconcile_actor_cases [of X n r m s])
  fix act' c g' t
  assume f': "fetched X r s act' c"
    and gt: "group_entry (subject c) (bind_name n (subject c) s) = (g', t)"
    and eq: "reconcile_actor X n r m s = scale_actor X act' c n r m g' t"
  have c: "c = claims" "rt_claims act' = Some claims" using f f' by (auto simp: fetched_def)
  then have t: "g' = g" "t = s"
    using gt k g by (auto simp: bind_name_def group_entry_def)
  show ?thesis
  proof (cases "hm_get (ag_actors g) n")
    case None
    with m g eq c t show ?thesis by (simp add: scale_actor_def nonzero_def instances_at_absent [OF g None])
  next
    case (Some a)
    with m instances_at_present [OF g Some] eq c t show ?thesis
      by (simp add: scale_actor_def checked_sub_def nonzero_def)
  qed
qed (use f k in auto)

lemma remove_actor_links: "links (snd (remove_actor n s)) = links s"
  by (cases "hm_get (actor_keys s) n") (simp_all add: remove_actor_unbound remove_actor_bound)

section \<open>Removing\<close>

lemma remove_actor_instances:
  "instances_at (snd (remove_actor n s)) k' n' =
     (if n' = n \<and> hm_get (actor_keys s) n = Some k' then [] else instances_at s k' n')"
proof (cases "hm_get (actor_keys s) n")
  case None
  then show ?thesis by (simp add: remove_actor_unbound)
next
  case (Some k)
  have "actor_at (snd (remove_actor n s)) = actor_at (s\<lparr>actors := groups_without k n s\<rparr>)"
    by (rule actor_at_cong) (simp add: remove_actor_bound [OF Some])
  then show ?thesis
    using Some by (simp add: instances_at_def actor_at_groups_without)
qed

lemma remove_actor_tasks:
  "tasks (snd (remove_actor n s)) =
     (case hm_get (actor_keys s) n of
        None \<Rightarrow> tasks s
      | Some k \<Rightarrow> filter (\<lambda>t. fst t \<notin> set (calls_at s k n)) (tasks s))"
  by (auto simp: remove_actor_unbound remove_actor_bound calls_at_def split: option.split)

lemma remove_actor_keys:
  "hm_get (actor_keys (snd (remove_actor n s))) n' = (if n' = n then None else hm_get (actor_keys s) n')"
  by (cases "hm_get (actor_keys s) n") (auto simp: remove_actor_unbound remove_actor_bound)

end
