(* ===== verification/Kasm_Samples.thy ===== *)
theory Kasm_Samples
  imports Kasm_Host Kasm_Reconcile
begin

text \<open>
  Concrete inputs, after \<^verbatim>\<open>sample.yaml\<close> (the echo actor, the HTTP server provider and the link between
  them), at which the theorems of the development are instantiated. The external functions are
  concrete functions here, so that the hypotheses about them can be seen to be satisfiable.
\<close>

definition sample_kp :: "key_pair_type \<Rightarrow> key_pair" where
  "sample_kp t =
     \<lparr>key_pair_type = t, public_key = (if t = Cluster then ''CK'' else ''NK''), seed = Inr ''SEED''\<rparr>"

definition sample_nats :: nats_config where
  "sample_nats = \<lparr>nc_url = ''nats://127.0.0.1:4222'', nc_timeout = Some 2000, nc_jwt = None,
     nc_key = None, nc_tls = False\<rparr>"

definition sample_cfg :: host_config where
  "sample_cfg = \<lparr>hc_allow_file_load = True, hc_rpc_config = sample_nats,
     hc_prov_rpc_config = sample_nats\<lparr>nc_timeout := None\<rparr>, hc_lattice_prefix = ''default'',
     hc_js_domain = None, hc_host_key = None, hc_cluster_key = None, hc_cluster_issuers = None,
     hc_log_level = Some ''info''\<rparr>"

definition sample_new :: new_ext where
  "sample_new = \<lparr>new_key_pair = sample_kp, build_runtime = Inr (), nats_connect = (\<lambda>_ _. Inr ())\<rparr>"

definition sample_host :: process where
  "sample_host = \<lparr>name = ''default'', host_key = sample_kp Server, lattice_prefix = ''default'',
     cluster_key = sample_kp Cluster, cluster_issuers = [''CK''], config = sample_cfg,
     links = [], actor_keys = [], actors = [], providers = [], aliases = [],
     registry_settings = [], link_cells = [], target_cells = [], tasks = [], next_task = 0,
     children = [], next_child = 0, events = []\<rparr>"

lemma sample_host_new: "host_new sample_new ''default'' sample_cfg = Inr sample_host"
  by (simp add: host_new_def key_or_new_def issuers_with_def connect_nats_def sample_new_def
      sample_cfg_def sample_nats_def sample_host_def sample_kp_def)

lemma sample_initial: "initial_host sample_host"
  unfolding initial_host_def using sample_host_new by blast

definition sample_digest :: digest where
  "sample_digest cs = concat cs"

section \<open>The echo actor\<close>

definition echo_claims :: actor_claims where
  "echo_claims = \<lparr>issuer = ''ABC'', subject = ''MECHO'', issued_at = 1700000000, not_before = None,
     expires = None,
     metadata = Some \<lparr>act_name = Some ''Echo'', act_caps = Some [''wasmcloud:httpserver''],
       act_rev = Some 4, act_ver = Some ''0.3.8'', act_call_alias = None, act_provider = False\<rparr>\<rparr>"

definition echo_module :: rt_actor where
  "echo_module = \<lparr>rt_claims = Some echo_claims, rt_wasm = [0, 97, 115, 109]\<rparr>"

definition no_entity :: wasmcloud_entity where
  "no_entity = \<lparr>ent_public_key = [], ent_link_name = [], ent_contract_id = []\<rparr>"

text \<open>Everything answers; and a message broker that refuses subscriptions from the \<open>j\<close>-th on.\<close>

definition echo_ext :: actor_ext where
  "echo_ext = \<lparr>fetch_module = (\<lambda>_ _ _. Inr [0, 97, 115, 109]),
     new_rt_actor = (\<lambda>_. Inr echo_module), queue_subscribe = (\<lambda>_ _. Inr ()),
     new_ulid = word_of_nat, entity_default = no_entity\<rparr>"

definition echo_ext_until :: "nat \<Rightarrow> actor_ext" where
  "echo_ext_until j = echo_ext\<lparr>queue_subscribe := (\<lambda>i _. if i < j then Inr () else Inl (Msg ''closed''))\<rparr>"

section \<open>The link and the provider\<close>

definition echo_ld :: link_definition where
  "echo_ld = \<lparr>ld_actor_id = ''MECHO'', ld_provider_id = ''VHTTP'', ld_link_name = ''test'',
     ld_contract_id = ''wasmcloud:httpserver'', ld_values = [(''address'', ''0.0.0.0:8080'')]\<rparr>"

definition link_up :: link_ext where
  "link_up = \<lparr>encode_ld = (\<lambda>_. Inr [147]), nats_publish = (\<lambda>_ _. Inr ())\<rparr>"

definition link_down :: link_ext where
  "link_down = \<lparr>encode_ld = (\<lambda>_. Inr [147]), nats_publish = (\<lambda>_ _. Inl (Msg ''disconnected''))\<rparr>"

definition http_claims :: provider_claims where
  "http_claims = \<lparr>issuer = ''ABC'', subject = ''VHTTP'', issued_at = 1700000000, not_before = None,
     expires = None,
     metadata = Some \<lparr>prov_name = Some ''HTTP Server'', prov_capid = ''wasmcloud:httpserver'',
       prov_vendor = ''wasmCloud'', prov_rev = Some 0, prov_ver = Some ''0.17.0'',
       prov_target_hashes = [(''x86_64-linux'', ''H1''), (''aarch64-linux'', ''H2'')]\<rparr>\<rparr>"

definition http_ext :: provider_ext where
  "http_ext = \<lparr>fetch_provider = (\<lambda>_ _ _ _. Inr (''/tmp/httpserver'', http_claims)), ulid_new = 7,
     uuid_string = (\<lambda>_. ''00000000''), encode_host_data = (\<lambda>_. Inr [123, 125]),
     spawn_command = (\<lambda>_. Inr ()), take_stdin = Some (), base64_encode = (\<lambda>b. b),
     write_stdin = (\<lambda>_. Inr ()), close_stdin = Inr (), encode_shutdown = (\<lambda>_. Inr [123, 125])\<rparr>"

definition http_ext_nospawn :: provider_ext where
  "http_ext_nospawn = http_ext\<lparr>spawn_command := (\<lambda>_. Inl (Msg ''exec format error''))\<rparr>"

definition running_host :: "nat \<Rightarrow> process" where
  "running_host m = snd (reconcile_actor echo_ext ''echo-default'' ''echo:0.3.8'' m sample_host)"

lemmas sample_defs =
  sample_host_def sample_cfg_def sample_nats_def sample_kp_def sample_digest_def echo_claims_def
  echo_module_def echo_ext_def echo_ext_until_def no_entity_def echo_ld_def link_up_def link_down_def
  http_claims_def http_ext_def http_ext_nospawn_def

lemma echo_fetched: "fetched echo_ext r s echo_module echo_claims"
  by (simp add: fetched_def fetch_actor_def echo_ext_def echo_module_def)

lemma echo_subscribes: "is_ok (queue_subscribe echo_ext i topic)"
  by (simp add: echo_ext_def)

lemma echo_subject: "subject echo_claims = ''MECHO''"
  by (simp add: echo_claims_def)

text \<open>Reconciling the echo actor works wherever its name is free or bound to its key.\<close>

lemma echo_reconciles:
  assumes "hm_get (actor_keys s) n \<in> {None, Some ''MECHO''}"
  obtains t where "reconcile_actor echo_ext n r m s = (Inr echo_claims, t)"
  using reconcile_actor_succeeds [OF echo_fetched _ echo_subscribes, where s = s and n = n and m = m and r = r] assms
  by (auto simp: echo_subject)

lemma sample_system_inv: "system_inv D sample_host"
  by (rule host_sys.initial_inv [OF sample_initial])

text \<open>A reachable state with the link registered and the echo actor running.\<close>

lemma sample_linked_instance:
  obtains t i where "(host_step sample_digest)\<^sup>*\<^sup>* sample_host t"
    "i \<in> set (instances_at t ''MECHO'' ''echo-default'')"
    "linked t ''MECHO'' ''wasmcloud:httpserver'' ''test'' = Some (entity_of echo_ld)"
    "hd_claims (in_handler i) = echo_claims"
proof -
  let ?s = "link_put sample_digest echo_ld sample_host"
  let ?e = "[Published (linkdefs_topic sample_host echo_ld ''put'') [147]]"
  have vac: "hm_get (links sample_host) (ld_hash sample_digest echo_ld) = None"
    by (simp add: sample_defs)
  have s: "snd (add_linkdef sample_digest link_up echo_ld sample_host) = emit ?e ?s"
    by (simp add: add_linkdef_vacant [OF vac]) (simp add: link_up_def)
  have ks: "hm_get (actor_keys (emit ?e ?s)) ''echo-default'' \<in> {None, Some ''MECHO''}"
    by (simp add: link_put_def) (simp add: sample_host_def)
  obtain t where t: "reconcile_actor echo_ext ''echo-default'' ''echo:0.3.8'' 1 (emit ?e ?s) = (Inr echo_claims, t)"
    by (rule echo_reconciles [OF ks])
  have "host_step sample_digest sample_host (emit ?e ?s)" "host_step sample_digest (emit ?e ?s) t"
    using host_step.add_link [of sample_digest sample_host link_up echo_ld]
      host_step.reconcile [of sample_digest "emit ?e ?s" echo_ext "''echo-default''" "''echo:0.3.8''" 1] t s
    by simp_all
  then have steps: "(host_step sample_digest)\<^sup>*\<^sup>* sample_host t"
    by (meson rtranclp.rtrancl_into_rtrancl rtranclp.rtrancl_refl)
  obtain i where i: "i \<in> set (instances_at t ''MECHO'' ''echo-default'')"
    using reconcile_actor_count [OF t] by (cases "instances_at t ''MECHO'' ''echo-default''") (auto simp: echo_subject)
  have "actors ?s = []" by (simp add: link_put_def) (simp add: sample_host_def)
  then have hc: "hd_claims (in_handler i) = echo_claims"
    using reconcile_actor_claims [OF t, of i] i by (simp add: actor_at_def echo_subject)
  have "links t = links ?s"
    using reconcile_actor_links [of echo_ext "''echo-default''" "''echo:0.3.8''" 1 "emit ?e ?s"] t by simp
  then have "linked t ''MECHO'' ''wasmcloud:httpserver'' ''test'' =
      linked ?s ''MECHO'' ''wasmcloud:httpserver'' ''test''"
    by (simp add: linked_def)
  also have "\<dots> = Some (entity_of echo_ld)"
    using sample_system_inv [of sample_digest] vac
    by (subst linked_link_put [of sample_digest])
      (simp_all add: system_inv_def host_invD link_matches_def echo_ld_def)
  finally show ?thesis using that steps i hc by blast
qed

end
