(* ===== verification/Kasm_Link_Props.thy ===== *)
theory Kasm_Link_Props
  imports Kasm_Samples
begin

text \<open>
  Properties of link definitions: what a registration and a deletion mean, that the link tables of
  running actors follow the registry in every reachable state, and what happens when two link
  definitions hash alike or a publication fails.
\<close>

section \<open>Properties\<close>

text \<open>
  In every state a host reaches from its creation by any sequence of operations, whatever the
  outcomes of the external calls, every running actor instance resolves a contract and link name to
  exactly the provider registered for its public key, through the link table it shares with its group.
\<close>

theorem instances_see_registry:
  assumes "initial_host s" "(host_step D)\<^sup>*\<^sup>* s t" "i \<in> set (instances_at t k n)"
  shows "table_get (link_cells t ! hd_links (in_handler i)) c l = linked t k c l"
  using assms by (rule reachable_table)

theorem instances_see_registry_witness:
  "\<exists>t i. (host_step sample_digest)\<^sup>*\<^sup>* sample_host t \<and> i \<in> set (instances_at t ''MECHO'' ''echo-default'') \<and>
     table_get (link_cells t ! hd_links (in_handler i)) ''wasmcloud:httpserver'' ''test'' =
       Some \<lparr>ent_public_key = ''VHTTP'', ent_link_name = ''test'', ent_contract_id = ''wasmcloud:httpserver''\<rparr>"
proof (rule sample_linked_instance)
  fix t i
  assume t: "(host_step sample_digest)\<^sup>*\<^sup>* sample_host t" "i \<in> set (instances_at t ''MECHO'' ''echo-default'')"
    "linked t ''MECHO'' ''wasmcloud:httpserver'' ''test'' = Some (entity_of echo_ld)"
  then show ?thesis
    using instances_see_registry [OF sample_initial t(1,2), of "''wasmcloud:httpserver''" "''test''"]
    by (auto simp: entity_of_def echo_ld_def)
qed

text \<open>
  Registering a link definition whose hash is free makes exactly that link visible: the actor
  reaches the provider under the contract and link name, and no other lookup changes. This holds for
  every outcome of the encoding and the publication, and a successful registration announces the
  definition on the provider's own topic.
\<close>

theorem add_linkdef_links:
  assumes "links_inv D s" "hm_get (links s) (ld_hash D ld) = None"
  shows "linked (snd (add_linkdef D X ld s)) k c l =
      (if link_matches k c l ld then Some (entity_of ld) else linked s k c l) \<and>
    (fst (add_linkdef D X ld s) = Inr () \<longrightarrow>
      (\<exists>p. encode_ld X ld = Inr p \<and>
        events (snd (add_linkdef D X ld s)) = events s @ [Published (linkdefs_topic s ld ''put'') p]))"
proof
  have wf: "links_wf D s" using assms(1) by (simp add: links_inv_def)
  show "linked (snd (add_linkdef D X ld s)) k c l =
      (if link_matches k c l ld then Some (entity_of ld) else linked s k c l)"
    by (rule add_linkdef_snd [of s D ld X]) (use assms(2) linked_link_put [OF wf assms(2)] in simp_all)
  show "fst (add_linkdef D X ld s) = Inr () \<longrightarrow>
      (\<exists>p. encode_ld X ld = Inr p \<and>
        events (snd (add_linkdef D X ld s)) = events s @ [Published (linkdefs_topic s ld ''put'') p])"
    by (auto simp: add_linkdef_vacant [OF assms(2)] link_put_def split: sum.splits)
qed

theorem add_linkdef_links_witness:
  "links_inv sample_digest sample_host \<and> hm_get (links sample_host) (ld_hash sample_digest echo_ld) = None \<and>
   linked (snd (add_linkdef sample_digest link_up echo_ld sample_host)) ''MECHO'' ''wasmcloud:httpserver'' ''test'' =
     Some \<lparr>ent_public_key = ''VHTTP'', ent_link_name = ''test'', ent_contract_id = ''wasmcloud:httpserver''\<rparr> \<and>
   events (snd (add_linkdef sample_digest link_up echo_ld sample_host)) =
     [Published ''wasmbus.rpc.default.VHTTP.test.linkdefs.put'' [147]]"
proof -
  have inv: "links_inv sample_digest sample_host"
    using sample_system_inv by (simp add: system_inv_def host_inv_def)
  have vac: "hm_get (links sample_host) (ld_hash sample_digest echo_ld) = None"
    by (simp add: sample_defs)
  have ok: "fst (add_linkdef sample_digest link_up echo_ld sample_host) = Inr ()"
    by (simp add: add_linkdef_vacant [OF vac]) (simp add: link_up_def)
  show ?thesis
    using add_linkdef_links [OF inv vac, where X = link_up and
      k = "''MECHO''" and c = "''wasmcloud:httpserver''" and l = "''test''"] ok inv vac
    by (simp add: entity_of_def link_matches_def linkdefs_topic_def sample_defs)
qed

text \<open>
  Deleting a link definition removes exactly the link that is stored under its hash, whatever the
  publication's outcome, and deleting one whose hash is not registered fails and changes nothing.
\<close>

theorem delete_linkdef_unlinks:
  assumes "links_inv D s"
  shows "case hm_get (links s) (ld_hash D ld) of
      None \<Rightarrow> delete_linkdef D X ld s = (Inl (Msg ''attempt to remove a non-exitent link''), s)
    | Some ld' \<Rightarrow>
        linked (snd (delete_linkdef D X ld s)) k c l = (if link_matches k c l ld' then None else linked s k c l) \<and>
        hm_get (links (snd (delete_linkdef D X ld s))) (ld_hash D ld) = None"
proof (cases "hm_get (links s) (ld_hash D ld)")
  case None
  then show ?thesis by (simp add: delete_linkdef_vacant)
next
  case (Some ld')
  have wf: "links_wf D s" using assms by (simp add: links_inv_def)
  obtain es where "snd (delete_linkdef D X ld s) = emit es (link_drop (ld_hash D ld) ld' s)"
    using delete_linkdef_drop [OF Some] by blast
  then show ?thesis
    using Some linked_link_drop [OF wf Some] by (simp add: link_drop_def)
qed

theorem delete_linkdef_unlinks_witness:
  "links_inv sample_digest (link_put sample_digest echo_ld sample_host) \<and>
   linked (snd (delete_linkdef sample_digest link_up echo_ld (link_put sample_digest echo_ld sample_host)))
     ''MECHO'' ''wasmcloud:httpserver'' ''test'' = None"
proof -
  have inv: "links_inv sample_digest (link_put sample_digest echo_ld sample_host)"
    using sample_system_inv by (intro link_put_inv) (simp_all add: system_inv_def host_inv_def sample_defs)
  show ?thesis
    using inv delete_linkdef_unlinks [OF inv, where ld = echo_ld and X = link_up and
      k = "''MECHO''" and c = "''wasmcloud:httpserver''" and l = "''test''"]
    by (simp add: link_matches_def echo_ld_def)
qed

text \<open>
  C25. Round trip: registering a new link definition and deleting it again leaves every lookup of every
  actor as it was, in the registry and in the link tables.
\<close>

theorem add_delete_roundtrip:
  assumes "links_inv D s" "hm_get (links s) (ld_hash D ld) = None" "linked s k c l = e"
    and "t = snd (delete_linkdef D Y ld (snd (add_linkdef D X ld s)))"
  shows "linked t k c l = e \<and>
    (\<forall>g. hm_get (actors t) k = Some g \<longrightarrow> table_get (link_cells t ! ag_links g) c l = e)"
proof -
  let ?s = "snd (add_linkdef D X ld s)"
  have inv: "links_inv D ?s" by (rule add_linkdef_inv [OF assms(1)])
  have inv': "links_inv D t" unfolding assms(4) by (rule delete_linkdef_inv [OF inv])
  have wf: "links_wf D s" "links_wf D ?s" using assms(1) inv by (simp_all add: links_inv_def)
  obtain es where put: "?s = emit es (link_put D ld s)"
    using add_linkdef_put [OF assms(2)] by blast
  then have get: "hm_get (links ?s) (ld_hash D ld) = Some ld" by simp
  obtain es' where "t = emit es' (link_drop (ld_hash D ld) ld ?s)"
    using delete_linkdef_drop [OF get] assms(4) by blast
  then have "linked t k c l = (if link_matches k c l ld then None else linked ?s k c l)"
    using linked_link_drop [OF wf(2) get] by simp
  moreover have "linked ?s k c l = (if link_matches k c l ld then Some (entity_of ld) else linked s k c l)"
    using linked_link_put [OF wf(1) assms(2)] by (simp add: put)
  moreover have "linked s k c l = None" if "link_matches k c l ld"
    using assms(2) ld_hash_matches [OF that, of D] linked_lookup [OF wf(1), of k c l] by simp
  ultimately have "linked t k c l = e" using assms(3) by (auto split: if_splits)
  then show ?thesis using inv' by (simp add: links_inv_def tables_agree_def)
qed

theorem add_delete_roundtrip_witness:
  "linked (snd (delete_linkdef sample_digest link_up echo_ld
      (snd (add_linkdef sample_digest link_down echo_ld sample_host))))
     ''MECHO'' ''wasmcloud:httpserver'' ''test'' = None"
proof -
  have inv: "links_inv sample_digest sample_host"
    using sample_system_inv by (simp add: system_inv_def host_inv_def)
  have vac: "hm_get (links sample_host) (ld_hash sample_digest echo_ld) = None"
    "linked sample_host ''MECHO'' ''wasmcloud:httpserver'' ''test'' = None"
    by (simp_all add: sample_defs linked_def hm_values_def)
  show ?thesis
    using add_delete_roundtrip [OF inv vac refl, where X = link_down and Y = link_up] by simp
qed

text \<open>
  The link table built for a new group does not depend on the iteration order of the registry: two
  registries with the same entries give tables with the same lookups, and these are the lookups of
  the registry itself.
\<close>

theorem get_actor_links_order_independent:
  assumes "links_wf D s" "links_wf D t" "set (links s) = set (links t)"
  shows "table_get (get_actor_links k s) c l = table_get (get_actor_links k t) c l \<and>
    table_get (get_actor_links k s) c l = linked s k c l"
proof -
  have "hm_get (links s) i = hm_get (links t) i" for i
    using hm_mem_get [OF links_wf_hm [OF assms(1)], of i] hm_mem_get [OF links_wf_hm [OF assms(2)], of i]
      assms(3) by (metis not_None_eq)
  then show ?thesis
    by (simp add: get_actor_links_linked [OF assms(1)] get_actor_links_linked [OF assms(2)]
        linked_lookup [OF assms(1)] linked_lookup [OF assms(2)])
qed

theorem get_actor_links_order_independent_witness:
  "table_get (get_actor_links ''MECHO'' (sample_host\<lparr>links := [(''MECHOxb'', echo_ld\<lparr>ld_contract_id := ''x'', ld_link_name := ''b''\<rparr>), (''MECHOya'', echo_ld\<lparr>ld_contract_id := ''y'', ld_link_name := ''a''\<rparr>)]\<rparr>)) ''y'' ''a'' =
   table_get (get_actor_links ''MECHO'' (sample_host\<lparr>links := [(''MECHOya'', echo_ld\<lparr>ld_contract_id := ''y'', ld_link_name := ''a''\<rparr>), (''MECHOxb'', echo_ld\<lparr>ld_contract_id := ''x'', ld_link_name := ''b''\<rparr>)]\<rparr>)) ''y'' ''a''"
  (is "table_get (get_actor_links _ ?s) _ _ = table_get (get_actor_links _ ?t) _ _")
proof -
  have "links_wf sample_digest ?s" "links_wf sample_digest ?t" "set (links ?s) = set (links ?t)"
    by (auto simp: links_wf_def hm_wf_def hm_get_def ld_hash_def linkdef_hash_def sample_digest_def echo_ld_def
        split: if_splits)
  then show ?thesis
    using get_actor_links_order_independent [of sample_digest ?s ?t "''MECHO''" "''y''" "''a''"] by blast
qed

text \<open>
  C39. The hash is taken over the concatenation of actor, contract and link name without separators. So
  two different links whose parts concatenate to the same text collide: once the first is
  registered, registering the second reports success, changes nothing and publishes nothing, and its
  lookup finds no provider. The hypothesis on the digest is that it sees only the concatenation of
  the chunks it is fed.
\<close>

theorem colliding_link_is_lost:
  assumes streaming: "\<And>cs cs'. concat cs = concat cs' \<Longrightarrow> D cs = D cs'"
    and inv: "links_inv D s" and vac: "hm_get (links s) (ld_hash D ld) = None"
    and same: "ld_actor_id ld @ ld_contract_id ld @ ld_link_name ld =
      ld_actor_id ld' @ ld_contract_id ld' @ ld_link_name ld'"
    and diff: "\<not> link_matches (ld_actor_id ld') (ld_contract_id ld') (ld_link_name ld') ld"
  shows "add_linkdef D Y ld' (snd (add_linkdef D X ld s)) = (Inr (), snd (add_linkdef D X ld s)) \<and>
    linked (snd (add_linkdef D X ld s)) (ld_actor_id ld') (ld_contract_id ld') (ld_link_name ld') = None"
proof -
  let ?t = "snd (add_linkdef D X ld s)"
  have eq: "ld_hash D ld' = ld_hash D ld"
    using same by (auto simp: ld_hash_def linkdef_hash_def intro: streaming)
  obtain es where t: "?t = emit es (link_put D ld s)"
    using add_linkdef_put [OF vac] by blast
  then have get: "hm_get (links ?t) (ld_hash D ld') = Some ld"
    by (simp add: eq)
  have wf: "links_wf D ?t"
    using add_linkdef_inv [OF inv] by (simp add: links_inv_def)
  have "linked ?t (ld_actor_id ld') (ld_contract_id ld') (ld_link_name ld') = None"
    using get diff unfolding linked_lookup [OF wf] ld_hash_def by simp
  then show ?thesis
    using add_linkdef_occupied [OF get] by simp
qed

theorem colliding_link_is_lost_witness:
  "linked (snd (add_linkdef sample_digest link_up (echo_ld\<lparr>ld_contract_id := ''c'', ld_link_name := ''xd''\<rparr>) sample_host))
     ''MECHO'' ''cx'' ''d'' = None"
proof -
  have inv: "links_inv sample_digest sample_host"
    using sample_system_inv by (simp add: system_inv_def host_inv_def)
  show ?thesis
    using colliding_link_is_lost [of sample_digest sample_host
        "echo_ld\<lparr>ld_contract_id := ''c'', ld_link_name := ''xd''\<rparr>"
        "echo_ld\<lparr>ld_contract_id := ''cx'', ld_link_name := ''d''\<rparr>" link_up link_up] inv
    by (simp add: sample_defs link_matches_def)
qed

text \<open>
  A registration whose announcement fails stays registered, so the announcement is never repeated:
  every later attempt to register the same definition succeeds at once, without a message to the
  provider, however the network behaves then.
\<close>

theorem failed_put_never_announced:
  assumes "hm_get (links s) (ld_hash D ld) = None" "add_linkdef D X ld s = (Inl e, t)"
  shows "events t = events s \<and> add_linkdef D Y ld t = (Inr (), t)"
proof -
  have t: "t = link_put D ld s"
    using assms by (auto simp: add_linkdef_vacant split: sum.splits)
  then show ?thesis
    using add_linkdef_occupied [of t D ld ld Y] by (simp add: link_put_def)
qed

theorem failed_put_never_announced_witness:
  "\<exists>e t. add_linkdef sample_digest link_down echo_ld sample_host = (Inl e, t) \<and>
     events t = [] \<and> add_linkdef sample_digest link_up echo_ld t = (Inr (), t)"
proof -
  have vac: "hm_get (links sample_host) (ld_hash sample_digest echo_ld) = None"
    by (simp add: sample_defs)
  obtain e t where t: "add_linkdef sample_digest link_down echo_ld sample_host = (Inl e, t)"
    by (simp add: add_linkdef_vacant [OF vac]) (simp add: link_down_def)
  show ?thesis
    using failed_put_never_announced [OF vac t, of link_up] t by (auto simp: sample_host_def)
qed

text \<open>
  A deletion whose announcement fails has already removed the definition, so it cannot be retried:
  every later deletion of the same definition fails, and the provider is never told.
\<close>

theorem failed_del_never_announced:
  assumes "delete_linkdef D X ld s = (Inl e, t)"
  shows "events t = events s \<and>
    delete_linkdef D Y ld t = (Inl (Msg ''attempt to remove a non-exitent link''), t)"
proof (cases "hm_get (links s) (ld_hash D ld)")
  case None
  with assms show ?thesis by (simp add: delete_linkdef_vacant)
next
  case (Some ld')
  then have "t = link_drop (ld_hash D ld) ld' s"
    using assms by (auto simp: delete_linkdef_occupied split: sum.splits)
  then show ?thesis
    by (simp add: delete_linkdef_vacant link_drop_def)
qed

theorem failed_del_never_announced_witness:
  "\<exists>e t. delete_linkdef sample_digest link_down echo_ld (link_put sample_digest echo_ld sample_host) = (Inl e, t) \<and>
     is_ok (fst (delete_linkdef sample_digest link_up echo_ld t)) = False"
proof -
  obtain e t where t: "delete_linkdef sample_digest link_down echo_ld (link_put sample_digest echo_ld sample_host) = (Inl e, t)"
    by (simp add: delete_linkdef_occupied [OF link_put_get]) (simp add: link_down_def)
  show ?thesis
    using failed_del_never_announced [OF t, of link_up] t by auto
qed

end
