(* ===== verification/Kasm_Actor_Props.thy ===== *)
theory Kasm_Actor_Props
  imports Kasm_Samples
begin

text \<open>
  Properties of actors: a reconciliation reaches the requested number of replicas and touches nothing
  else, it is idempotent, a name stays bound to one key, every instance is served by a task of its
  own, and which tasks a failed reconciliation leaves behind.
\<close>

section \<open>Lemmas\<close>

text \<open>
  A task nobody refers to. No operation ever ends it: only the tasks of stored instances are aborted,
  and new instances get new tasks.
\<close>

definition orphan :: "process \<Rightarrow> nat \<Rightarrow> string \<Rightarrow> bool" where
  "orphan s h topic \<longleftrightarrow> (h, topic) \<in> set (tasks s) \<and> (\<forall>k n. h \<notin> set (calls_at s k n))"

lemma orphan_cong: "actors t = actors s \<Longrightarrow> tasks t = tasks s \<Longrightarrow> orphan t = orphan s"
  using calls_at_cong [of t s] by (simp add: orphan_def fun_eq_iff)

lemma orphan_reconcile:
  assumes wf: "tasks_wf s" and o: "orphan s h topic"
  shows "orphan (snd (reconcile_actor X n r m s)) h topic"
proof (cases "reconcile_actor X n r m s")
  case (Pair q t)
  have h: "h < next_task s" using o tasks_wfD(1) [OF wf] by (force simp: orphan_def)
  show ?thesis
  proof (cases q)
    case (Inl e)
    from Pair [unfolded Inl] show ?thesis
      by (rule reconcile_actor_err) (use o Pair in \<open>auto simp: orphan_def calls_at_def\<close>)
  next
    case (Inr claims)
    show ?thesis
    proof (rule reconcile_actor_ok [OF Pair [unfolded Inr]])
      fix new
      let ?k = "subject claims" and ?old = "instances_at s (subject claims) n"
      assume new: "map in_calls new = [next_task s..<next_task s + (m - length ?old)]"
        and at: "instances_at t ?k n = scaled m ?old new"
        and oth: "\<And>k' n'. (k', n') \<noteq> (?k, n) \<Longrightarrow> instances_at t k' n' = instances_at s k' n'"
        and ts: "tasks t = rescheduled m ?old (actor_topic s ?k) s"
      have free: "h \<notin> set (calls_at s k' n')" for k' n' using o by (simp add: orphan_def)
      have own: "h \<notin> set (calls_at t ?k n)"
        using scaled_calls [OF new, of m ?old] free [of ?k n] h by (auto simp: calls_at_def at)
      have "h \<notin> set (calls_at t k' n')" for k' n'
      proof (cases "(k', n') = (?k, n)")
        case True
        with own show ?thesis by simp
      next
        case False
        from oth [OF this] free [of k' n'] show ?thesis by (simp add: calls_at_def)
      qed
      moreover have "(h, topic) \<in> set (tasks t)"
        using o free [of ?k n] by (force simp: ts rescheduled_def orphan_def calls_at_def dest: in_set_takeD)
      ultimately show ?thesis by (simp add: orphan_def Pair)
    qed
  qed
qed

lemma orphan_remove: "orphan s h topic \<Longrightarrow> orphan (snd (remove_actor n s)) h topic"
  by (auto simp: orphan_def calls_at_def remove_actor_instances remove_actor_tasks split: option.split)

lemma orphan_step:
  assumes "system_inv D s" "host_step D s t" "orphan s h topic"
  shows "orphan t h topic"
  using assms(2)
proof cases
  case (add_link X ld)
  with add_linkdef_running_part [of D X ld s] assms(3) orphan_cong [of t s]
  show ?thesis by (simp add: running_part_def)
next
  case (delete_link X ld)
  with delete_linkdef_running_part [of D X ld s] assms(3) orphan_cong [of t s]
  show ?thesis by (simp add: running_part_def)
next
  case (reconcile Y n r m)
  with assms show ?thesis by (auto intro!: orphan_reconcile simp: system_inv_def host_inv_def)
next
  case (remove n)
  with assms show ?thesis by (simp add: orphan_remove)
next
  case (start Z l r)
  with start_provider_actor_part [of s Z l r] assms orphan_cong [of t s]
  show ?thesis by (simp add: actor_part_def system_inv_def)
next
  case (stop Z l k)
  with stop_provider_actor_part [of Z l k s] assms orphan_cong [of t s]
  show ?thesis by (simp add: actor_part_def)
next
  case (retarget tgt ifaces hdl)
  with assms(3) orphan_cong [of t s] show ?thesis by (simp add: set_target_def Let_def)
qed

lemma orphan_steps:
  assumes "(host_step D)\<^sup>*\<^sup>* s t" "system_inv D s" "orphan s h topic"
  shows "orphan t h topic"
  using assms
proof (induction rule: rtranclp_induct)
  case (step t u)
  then show ?case using orphan_step host_sys.steps_inv by blast
qed

text \<open>All handles of running instances, in the order the statistics visit them.\<close>

definition group_calls :: "actor_group \<Rightarrow> nat list" where
  "group_calls g = concat (map (\<lambda>a. map in_calls (ac_instances a)) (hm_values (ag_actors g)))"

definition host_calls :: "process \<Rightarrow> nat list" where
  "host_calls s = concat (map group_calls (hm_values (actors s)))"

lemma stats_instance_count: "st_actor_instance_count (stats s) = word_of_nat (length (host_calls s))"
  by (simp add: stats_def Let_def host_calls_def group_calls_def length_concat comp_def)

lemma calls_at_iff:
  "h \<in> set (calls_at s k n) \<longleftrightarrow>
     (\<exists>g a. hm_get (actors s) k = Some g \<and> hm_get (ag_actors g) n = Some a \<and> h \<in> in_calls ` set (ac_instances a))"
  by (cases "actor_at s k n") (auto simp: calls_at_def instances_at_def actor_at_def split: option.splits)

lemma group_calls_set:
  assumes "hm_get (actors s) k = Some g" "hm_wf (ag_actors g)"
  shows "set (group_calls g) = (\<Union>n. set (calls_at s k n))"
proof (rule set_eqI)
  fix h
  have "h \<in> set (group_calls g) \<longleftrightarrow> (\<exists>a \<in> set (hm_values (ag_actors g)). h \<in> in_calls ` set (ac_instances a))"
    by (simp add: group_calls_def)
  also have "\<dots> \<longleftrightarrow> (\<exists>n a. hm_get (ag_actors g) n = Some a \<and> h \<in> in_calls ` set (ac_instances a))"
    unfolding hm_values_iff [OF assms(2)] Bex_def by blast
  also have "\<dots> \<longleftrightarrow> h \<in> (\<Union>n. set (calls_at s k n))"
    by (simp add: calls_at_iff assms(1))
  finally show "h \<in> set (group_calls g) \<longleftrightarrow> h \<in> (\<Union>n. set (calls_at s k n))" .
qed

lemma host_calls_set:
  assumes "host_inv D s"
  shows "set (host_calls s) = (\<Union>k n. set (calls_at s k n))"
proof (rule set_eqI)
  fix h
  note gr = groups_wfD [OF host_invD(3) [OF assms]] and aw = actors_wfD [OF host_invD(5) [OF assms]]
  have "h \<in> set (host_calls s) \<longleftrightarrow> (\<exists>g \<in> set (hm_values (actors s)). h \<in> set (group_calls g))"
    by (simp add: host_calls_def)
  also have "\<dots> \<longleftrightarrow> (\<exists>k g. hm_get (actors s) k = Some g \<and> h \<in> set (group_calls g))"
    unfolding hm_values_iff [OF gr(1)] Bex_def by blast
  also have "\<dots> \<longleftrightarrow> (\<exists>k g. hm_get (actors s) k = Some g \<and> (\<exists>n. h \<in> set (calls_at s k n)))"
    using group_calls_set [OF _ aw(1)] by (metis UN_iff UNIV_I)
  also have "\<dots> \<longleftrightarrow> h \<in> (\<Union>k n. set (calls_at s k n))"
    unfolding UN_iff calls_at_iff by blast
  finally show "h \<in> set (host_calls s) \<longleftrightarrow> h \<in> (\<Union>k n. set (calls_at s k n))" .
qed

lemma host_calls_distinct:
  assumes "host_inv D s"
  shows "distinct (host_calls s)"
  unfolding host_calls_def
proof (rule hm_distinct_concat)
  note aw = actors_wfD [OF host_invD(5) [OF assms]] and tw = tasks_wfD [OF host_invD(6) [OF assms]]
  show "hm_wf (actors s)" by (rule groups_wfD(1) [OF host_invD(3) [OF assms]])
  show "distinct (group_calls g)" if g: "hm_get (actors s) k = Some g" for k g
    unfolding group_calls_def
  proof (rule hm_distinct_concat [OF aw(1) [OF g]])
    show "distinct (map in_calls (ac_instances a))" if "hm_get (ag_actors g) n = Some a" for n a
      using tw(2) [of k n] by (simp add: calls_at_present [OF g that])
    show "set (map in_calls (ac_instances a)) \<inter> set (map in_calls (ac_instances a')) = {}"
      if "hm_get (ag_actors g) n = Some a" "hm_get (ag_actors g) n' = Some a'" "n \<noteq> n'" for n n' a a'
      using tw(3) [of k n k n'] that(3) by (simp add: calls_at_present [OF g that(1)] calls_at_present [OF g that(2)])
  qed
  show "set (group_calls g) \<inter> set (group_calls g') = {}"
    if "hm_get (actors s) k = Some g" "hm_get (actors s) k' = Some g'" "k \<noteq> k'" for k k' g g'
    unfolding group_calls_set [OF that(1) aw(1) [OF that(1)]] group_calls_set [OF that(2) aw(1) [OF that(2)]]
    using tw(3) that(3) by fast
qed

section \<open>Properties\<close>

text \<open>
  C8. A successful reconciliation leaves the resource with exactly the requested number of instances,
  bound to its module's key: when it had more, the oldest are dropped and the rest kept in order; when
  it had fewer, all are kept and the missing ones added. The tasks of the dropped instances end, one
  task per new instance is spawned, and no other resource's instances and no other task change.
\<close>

theorem reconcile_reaches_replicas:
  assumes "reconcile_actor X n r m s = (Inr claims, t)"
    and "k = subject claims" and "old = instances_at s k n"
  shows "length (instances_at t k n) = m \<and> hm_get (actor_keys t) n = Some k \<and>
    (\<exists>new. instances_at t k n = drop (length old - m) old @ new \<and>
       map in_calls new = [next_task s..<next_task s + (m - length old)]) \<and>
    tasks t = filter (\<lambda>task. fst task \<notin> in_calls ` set (take (length old - m) old)) (tasks s) @
      map (\<lambda>h. (h, actor_topic s k)) [next_task s..<next_task s + (m - length old)] \<and>
    (\<forall>k' n'. (k', n') \<noteq> (k, n) \<longrightarrow> instances_at t k' n' = instances_at s k' n')"
  by (rule reconcile_actor_ok [OF assms(1)])
    (use assms reconcile_actor_count [OF assms(1)] in \<open>auto simp: scaled_def rescheduled_def\<close>)

theorem reconcile_reaches_replicas_witness:
  "\<exists>t. reconcile_actor echo_ext ''echo-default'' ''echo:0.3.8'' 3 sample_host = (Inr echo_claims, t) \<and>
     length (instances_at t ''MECHO'' ''echo-default'') = 3 \<and>
     tasks t = map (\<lambda>h. (h, ''wasmbus.rpc.default.MECHO'')) [0, 1, 2]"
proof -
  have "hm_get (actor_keys sample_host) ''echo-default'' \<in> {None, Some ''MECHO''}"
    by (simp add: sample_host_def)
  then obtain t where t: "reconcile_actor echo_ext ''echo-default'' ''echo:0.3.8'' 3 sample_host = (Inr echo_claims, t)"
    by (rule echo_reconciles)
  show ?thesis
    using reconcile_reaches_replicas [OF t refl refl] t
    by (simp add: echo_subject instances_at_def actor_at_def sample_host_def actor_topic_def upt_rec)
qed

text \<open>
  C13. A reconciliation succeeds whenever the module can be fetched, carries claims and has the key the
  name is bound to (or the name is free), and the broker accepts the subscriptions.
\<close>

theorem reconcile_succeeds:
  assumes "fetch_actor X r s = Inr act" "rt_claims act = Some claims"
    and "hm_get (actor_keys s) n \<in> {None, Some (subject claims)}"
    and "\<And>i topic. is_ok (queue_subscribe X i topic)"
  shows "fst (reconcile_actor X n r m s) = Inr claims"
  using reconcile_actor_succeeds [of X r s act claims n m] assms by (force simp: fetched_def)

theorem reconcile_succeeds_witness:
  "fst (reconcile_actor echo_ext ''echo-default'' ''echo:0.3.8'' 3 sample_host) = Inr echo_claims"
  by (rule reconcile_succeeds [of _ _ _ echo_module])
    (simp_all add: fetch_actor_def sample_defs)

text \<open>
  Reconciling is idempotent: after a success, any further reconciliation with the same replica
  count that fetches a module of the same key succeeds and changes nothing at all. The image reference
  may differ, so a new image with the same key never replaces the running instances.
\<close>

theorem reconcile_idempotent:
  assumes "reconcile_actor X n r m s = (Inr claims, t)"
    and "fetch_actor Y r' t = Inr act'" "rt_claims act' = Some claims'" "subject claims' = subject claims"
  shows "reconcile_actor Y n r' m t = (Inr claims', t)"
proof -
  obtain g where "hm_get (actors t) (subject claims') = Some g"
    using reconcile_actor_group [OF assms(1)] assms(4) by metis
  moreover have "hm_get (actor_keys t) n = Some (subject claims')"
    using assms(4) by (auto intro: reconcile_actor_ok [OF assms(1)])
  ultimately show ?thesis
    using reconcile_actor_count [OF assms(1)] assms(2-4)
    by (intro reconcile_actor_settled [of _ _ _ act']) (auto simp: fetched_def)
qed

theorem reconcile_idempotent_witness:
  "\<exists>t. reconcile_actor echo_ext ''echo-default'' ''echo:0.3.8'' 2 sample_host = (Inr echo_claims, t) \<and>
     reconcile_actor echo_ext ''echo-default'' ''echo:0.4.0'' 2 t = (Inr echo_claims, t)"
proof -
  have "hm_get (actor_keys sample_host) ''echo-default'' \<in> {None, Some ''MECHO''}"
    by (simp add: sample_host_def)
  then obtain t where t: "reconcile_actor echo_ext ''echo-default'' ''echo:0.3.8'' 2 sample_host = (Inr echo_claims, t)"
    by (rule echo_reconciles)
  have "fetch_actor echo_ext ''echo:0.4.0'' t = Inr echo_module" "rt_claims echo_module = Some echo_claims"
    using echo_fetched by (simp_all add: fetched_def)
  from reconcile_idempotent [OF t this refl] t show ?thesis by blast
qed

text \<open>
  A name is pinned to the key of its first module: while it is bound, a reconciliation that
  fetches a module of another key fails and changes nothing.
\<close>

theorem reconcile_pins_key:
  assumes "hm_get (actor_keys s) n = Some k"
    and "fetch_actor X r s = Inr act" "rt_claims act = Some claims" "subject claims \<noteq> k"
  shows "reconcile_actor X n r m s = (Inl (Msg ''actor public key is change''), s)"
  using assms by (simp add: reconcile_actor_def)

theorem reconcile_pins_key_witness:
  "reconcile_actor echo_ext ''echo-default'' ''echo:0.3.8'' 1
     (sample_host\<lparr>actor_keys := [(''echo-default'', ''MOTHER'')]\<rparr>) =
   (Inl (Msg ''actor public key is change''), sample_host\<lparr>actor_keys := [(''echo-default'', ''MOTHER'')]\<rparr>)"
  by (rule reconcile_pins_key [of _ _ "''MOTHER''" _ _ echo_module echo_claims])
    (simp_all add: fetch_actor_def sample_defs hm_get_def)

text \<open>
  In every reachable state each running instance is served by its own live task, subscribed to the
  topic of the actor's key, and a resource name runs under one key only.
\<close>

theorem instances_served:
  assumes "initial_host s" "(host_step D)\<^sup>*\<^sup>* s t"
  shows "distinct (calls_at t k n) \<and>
    (\<forall>h \<in> set (calls_at t k n). (h, actor_topic t k) \<in> set (tasks t)) \<and>
    (\<forall>k' n'. (k', n') \<noteq> (k, n) \<longrightarrow> set (calls_at t k n) \<inter> set (calls_at t k' n') = {}) \<and>
    (\<forall>k'. instances_at t k n \<noteq> [] \<longrightarrow> instances_at t k' n \<noteq> [] \<longrightarrow> k' = k)"
proof -
  have inv: "host_inv D t"
    using host_sys.reachable_inv [OF assms] by (simp add: system_inv_def)
  note tw = tasks_wfD [OF host_invD(6) [OF inv]] and aw = host_invD(5) [OF inv]
  have one: "\<forall>k'. instances_at t k n \<noteq> [] \<longrightarrow> instances_at t k' n \<noteq> [] \<longrightarrow> k' = k"
    using instances_at_bound [OF aw] by (metis option.inject)
  have "\<forall>k' n'. (k', n') \<noteq> (k, n) \<longrightarrow> set (calls_at t k n) \<inter> set (calls_at t k' n') = {}"
    using tw(3) by metis
  with tw(2,4) one show ?thesis by simp
qed

theorem instances_served_witness:
  "\<exists>t. (host_step sample_digest)\<^sup>*\<^sup>* sample_host t \<and>
     (\<forall>h \<in> set (calls_at t ''MECHO'' ''echo-default''). (h, actor_topic t ''MECHO'') \<in> set (tasks t)) \<and>
     length (calls_at t ''MECHO'' ''echo-default'') = 2"
proof -
  have "hm_get (actor_keys sample_host) ''echo-default'' \<in> {None, Some ''MECHO''}"
    by (simp add: sample_host_def)
  then obtain t where t: "reconcile_actor echo_ext ''echo-default'' ''echo:0.3.8'' 2 sample_host = (Inr echo_claims, t)"
    by (rule echo_reconciles)
  have steps: "(host_step sample_digest)\<^sup>*\<^sup>* sample_host t"
    using host_step.reconcile [of sample_digest sample_host echo_ext "''echo-default''" "''echo:0.3.8''" 2] t by auto
  then show ?thesis
    using instances_served [OF sample_initial steps, of "''MECHO''" "''echo-default''"]
      reconcile_actor_count [OF t] by (auto simp: calls_at_def echo_subject)
qed

text \<open>
  C12. Removing an actor always succeeds. Its name is free again, none of its instances is left under
  the key it was bound to, the tasks that served them have ended, and the instances of every other
  resource, the other names and all other tasks are as before.
\<close>

theorem remove_actor_effect:
  assumes "host_inv D s" "t = snd (remove_actor n s)"
  shows "fst (remove_actor n s) = Inr () \<and> hm_get (actor_keys t) n = None \<and>
    (\<forall>k. instances_at t k n = []) \<and>
    (\<forall>k n'. n' \<noteq> n \<longrightarrow> instances_at t k n' = instances_at s k n' \<and>
       hm_get (actor_keys t) n' = hm_get (actor_keys s) n') \<and>
    (\<forall>task \<in> set (tasks s). task \<in> set (tasks t) \<longleftrightarrow> (\<forall>k. fst task \<notin> set (calls_at s k n)))"
proof -
  have none: "instances_at s k n = []" if "hm_get (actor_keys s) n \<noteq> Some k" for k
    using that instances_at_bound [OF host_invD(5) [OF assms(1)]] by blast
  have "fst (remove_actor n s) = Inr ()"
    by (cases "hm_get (actor_keys s) n") (simp_all add: remove_actor_unbound remove_actor_bound)
  moreover have "task \<in> set (tasks t) \<longleftrightarrow> (\<forall>k. fst task \<notin> set (calls_at s k n))"
    if "task \<in> set (tasks s)" for task
  proof (cases "hm_get (actor_keys s) n")
    case None
    with that none show ?thesis by (simp add: assms(2) remove_actor_tasks calls_at_def)
  next
    case (Some k)
    have "(\<forall>k. fst task \<notin> set (calls_at s k n)) \<longleftrightarrow> fst task \<notin> set (calls_at s k n)"
      using none Some unfolding calls_at_def
      by (metis empty_iff empty_set list.simps(8) option.inject)
    with that Some show ?thesis by (simp add: assms(2) remove_actor_tasks)
  qed
  moreover have "instances_at t k n = []" for k
    using none [of k] by (simp add: assms(2) remove_actor_instances)
  ultimately show ?thesis
    by (simp add: assms(2) remove_actor_keys remove_actor_instances)
qed

theorem remove_actor_effect_witness:
  "\<exists>s. length (instances_at s ''MECHO'' ''echo-default'') = 2 \<and>
     instances_at (snd (remove_actor ''echo-default'' s)) ''MECHO'' ''echo-default'' = []"
proof -
  have "hm_get (actor_keys sample_host) ''echo-default'' \<in> {None, Some ''MECHO''}"
    by (simp add: sample_host_def)
  then obtain s where s: "reconcile_actor echo_ext ''echo-default'' ''echo:0.3.8'' 2 sample_host = (Inr echo_claims, s)"
    by (rule echo_reconciles)
  have "host_inv sample_digest s"
    using reconcile_actor_inv [of "{}" sample_digest sample_host echo_ext "''echo-default''" "''echo:0.3.8''" 2] s
      sample_system_inv by (simp add: system_inv_def)
  from remove_actor_effect [OF this refl, of "''echo-default''"] reconcile_actor_count [OF s]
  show ?thesis by (auto simp: echo_subject)
qed

text \<open>
  C14. As long as reconciliations succeed, nothing runs that the host does not know of: if every task
  serves a stored instance, this is still so after a successful reconciliation and after any removal.
\<close>

theorem success_leaves_no_orphans:
  assumes "host_inv D s" "no_orphans s"
  shows "(is_ok (fst (reconcile_actor X n r m s)) \<longrightarrow> no_orphans (snd (reconcile_actor X n r m s))) \<and>
    no_orphans (snd (remove_actor n s))"
proof
  have known: "\<exists>k n. h \<in> set (calls_at s k n)" if "(h, tp) \<in> set (tasks s)" for h tp
    using that assms(2) by (auto simp: no_orphans_def)
  show "no_orphans (snd (remove_actor n s))"
    unfolding no_orphans_def remove_actor_tasks
  proof (intro allI impI)
    fix h tp assume *: "(h, tp) \<in> set (case hm_get (actor_keys s) n of None \<Rightarrow> tasks s
      | Some k \<Rightarrow> filter (\<lambda>t. fst t \<notin> set (calls_at s k n)) (tasks s))"
    then obtain k n' where kn: "h \<in> set (calls_at s k n')"
      using known [of h tp] by (auto split: option.splits)
    then have "h \<in> set (calls_at (snd (remove_actor n s)) k n')"
      using * by (auto simp: calls_at_def remove_actor_instances split: option.splits)
    then show "\<exists>k n'. h \<in> set (calls_at (snd (remove_actor n s)) k n')" by blast
  qed
  show "is_ok (fst (reconcile_actor X n r m s)) \<longrightarrow> no_orphans (snd (reconcile_actor X n r m s))"
  proof
    assume "is_ok (fst (reconcile_actor X n r m s))"
    then obtain claims t where ok: "reconcile_actor X n r m s = (Inr claims, t)"
      by (cases "reconcile_actor X n r m s") (auto simp: is_ok_def split: sum.splits)
    show "no_orphans (snd (reconcile_actor X n r m s))"
    proof (rule reconcile_actor_ok [OF ok])
      fix new
      let ?k = "subject claims" and ?old = "instances_at s (subject claims) n"
      assume new: "map in_calls new = [next_task s..<next_task s + (m - length ?old)]"
        and at: "instances_at t ?k n = scaled m ?old new"
        and oth: "\<And>k' n'. (k', n') \<noteq> (?k, n) \<Longrightarrow> instances_at t k' n' = instances_at s k' n'"
        and ts: "tasks t = rescheduled m ?old (actor_topic s ?k) s"
      have "\<exists>k' n'. h \<in> set (calls_at t k' n')" if "(h, tp) \<in> set (tasks t)" for h tp
      proof (cases "h \<in> in_calls ` set (scaled m ?old new)")
        case True
        then have "h \<in> set (calls_at t ?k n)" by (simp add: calls_at_def at)
        then show ?thesis by blast
      next
        case False
        with rescheduled_known [OF that [unfolded ts] new] have old: "(h, tp) \<in> set (tasks s)"
          "h \<notin> set (calls_at s ?k n)" by (auto simp: calls_at_def)
        then obtain k' n' where kn: "h \<in> set (calls_at s k' n')" using known by blast
        with old(2) have "(k', n') \<noteq> (?k, n)" by blast
        with kn oth [of k' n'] have "h \<in> set (calls_at t k' n')" by (simp add: calls_at_def)
        then show ?thesis by blast
      qed
      then show ?thesis by (simp add: ok no_orphans_def)
    qed
  qed
qed

theorem success_leaves_no_orphans_witness:
  "no_orphans sample_host \<and>
   no_orphans (snd (reconcile_actor echo_ext ''echo-default'' ''echo:0.3.8'' 2 sample_host))"
proof -
  have inv: "host_inv sample_digest sample_host"
    using sample_system_inv by (simp add: system_inv_def)
  have none: "no_orphans sample_host"
    by (simp add: no_orphans_def sample_host_def)
  have "hm_get (actor_keys sample_host) ''echo-default'' \<in> {None, Some ''MECHO''}"
    by (simp add: sample_host_def)
  then obtain t where t: "reconcile_actor echo_ext ''echo-default'' ''echo:0.3.8'' 2 sample_host = (Inr echo_claims, t)"
    by (rule echo_reconciles)
  show ?thesis
    using success_leaves_no_orphans [OF inv none, of echo_ext "''echo-default''" "''echo:0.3.8''" 2] t none by simp
qed

text \<open>
  C33. When subscribing fails part of the way, all the tasks spawned before the failure are leaked: the
  reconciliation reports an error, no stored instance refers to any of these tasks, and no sequence of later
  operations, removing the actor included, ever ends one of them.
\<close>

theorem failed_reconcile_leaks_tasks:
  assumes "system_inv D s" "reconcile_actor X n r m s = (Inl e, t)" "(host_step D)\<^sup>*\<^sup>* t u"
  shows "\<forall>h \<in> {next_task s..<next_task t}.
    (\<exists>topic. (h, topic) \<in> set (tasks u)) \<and> (\<forall>k' n'. h \<notin> set (calls_at u k' n'))"
proof -
  have wf: "tasks_wf s" using assms(1) by (simp add: system_inv_def host_inv_def)
  have "host_step D s t"
    using host_step.reconcile [of D s X n r m] assms(2) by simp
  then have inv: "system_inv D t" by (rule host_step_inv [OF assms(1)])
  have "\<exists>topic. orphan t h topic" if h: "next_task s \<le> h" "h < next_task t" for h
  proof (rule reconcile_actor_err [OF assms(2)])
    assume "t = s"
    with h show ?thesis by simp
  next
    fix act and claims :: actor_claims and j
    let ?k = "subject claims"
    assume "fetched X r s act claims" and at: "instances_at t = instances_at s"
      and ts: "tasks t = tasks s @ map (\<lambda>h. (h, actor_topic s ?k)) [next_task s..<next_task s + j]"
    have "next_task t = next_task s + j" using reconcile_err_next [OF assms(2)] ts by simp
    moreover have "h \<notin> set (calls_at s k' n')" for k' n'
      using calls_bound [OF wf, of h k' n'] h(1) by fastforce
    ultimately have "orphan t h (actor_topic s ?k)"
      using h by (simp add: orphan_def ts calls_at_def at)
    then show ?thesis ..
  qed
  then show ?thesis
    using orphan_steps [OF assms(3) inv] by (fastforce simp: orphan_def)
qed

text \<open>Two of three subscriptions succeed; removing the actor ends neither task.\<close>

theorem failed_reconcile_leaks_tasks_witness:
  "\<exists>e t. reconcile_actor (echo_ext_until 2) ''echo-default'' ''echo:0.3.8'' 3 sample_host = (Inl e, t) \<and>
     (\<forall>h \<in> {0, 1}. \<exists>topic. (h, topic) \<in> set (tasks (snd (remove_actor ''echo-default'' t))))"
proof -
  obtain e t where t: "reconcile_actor (echo_ext_until 2) ''echo-default'' ''echo:0.3.8'' 3 sample_host = (Inl e, t)"
    and nt: "next_task t = 2"
    by (simp add: reconcile_actor_def fetch_actor_def group_entry_def scale_actor_def start_actor_def
        instantiate_actor_def sample_defs Let_def nonzero_def numeral_3_eq_3 get_actor_links_def hm_values_def
        emit_def)
  have "host_step sample_digest t (snd (remove_actor ''echo-default'' t))"
    by (rule host_step.remove)
  then have steps: "(host_step sample_digest)\<^sup>*\<^sup>* t (snd (remove_actor ''echo-default'' t))" by blast
  have "next_task sample_host = 0" by (simp add: sample_host_def)
  then show ?thesis
    using failed_reconcile_leaks_tasks [OF sample_system_inv t steps] t nt by auto
qed

text \<open>
  The reported number of instances counts every running instance of a reachable state exactly once
  (modulo the width of the counter).
\<close>

theorem stats_counts_instances:
  assumes "initial_host s" "(host_step D)\<^sup>*\<^sup>* s t"
  shows "st_actor_instance_count (stats t) = word_of_nat (card (\<Union>k n. set (calls_at t k n)))"
proof -
  have inv: "host_inv D t"
    using host_sys.reachable_inv [OF assms] by (simp add: system_inv_def)
  show ?thesis
    using distinct_card [OF host_calls_distinct [OF inv]]
    by (simp add: stats_instance_count host_calls_set [OF inv])
qed

theorem stats_counts_instances_witness:
  "st_actor_instance_count (stats sample_host) = 0"
  using stats_counts_instances [OF sample_initial rtranclp.rtrancl_refl [of "host_step sample_digest"]]
  by (simp add: calls_at_def instances_at_def actor_at_def sample_host_def)

end
