(* ===== verification/Kasm_Provider_Props.thy ===== *)
theory Kasm_Provider_Props
  imports Kasm_Samples
begin

text \<open>
  Properties of capability providers: what a new provider process is told, that starting is
  idempotent, what a failed start leaves behind, and in which order a stop proceeds.
\<close>

section \<open>Lemmas\<close>

lemma build_host_data_links:
  assumes "build_host_data X l claims s = Inr dat"
  shows "dt_link_definitions dat = provider_links (subject claims) l s"
    and "dt_provider_key dat = subject claims" "dt_link_name dat = l"
    and "dt_lattice_rpc_prefix dat = hc_lattice_prefix (config s)"
    and "dt_cluster_issuers dat = cluster_issuers s"
    and "seed (cluster_key s) = Inr (dt_invocation_seed dat)"
  using assms by (auto simp: build_host_data_def and_then_Inr)

lemma provider_links_iff:
  assumes "hm_wf (links s)"
  shows "ld \<in> set (provider_links k l s) \<longleftrightarrow>
    ld_provider_id ld = k \<and> ld_link_name ld = l \<and> (\<exists>i. hm_get (links s) i = Some ld)"
  using hm_values_iff [OF assms, of ld] by (auto simp: provider_links_def)

lemma feed_stdin_ok:
  assumes "fst (feed_stdin X c p s) = Inr ()"
  shows "stdin_events X c p = [Stdin c p, Stdin c [13, 10]]"
  using assms
  by (auto simp: feed_stdin_def stdin_events_def Let_def some_or_def with_context_def
      split: option.splits sum.splits)

lemma launch_ok_events:
  assumes "launch X path dat s = (Inr c, t)"
  obtains p where "encode_host_data X dat = Inr p" "c = next_child s"
    "t = emit [Spawned c path, Stdin c (base64_encode X p), Stdin c [13, 10]]
       (s\<lparr>children := children s @ [c], next_child := Suc c\<rparr>)"
proof -
  have "is_ok (encode_host_data X dat) \<and> is_ok (spawn_command X path)"
    using launch_not_spawned [of X dat path s] assms by force
  then obtain p where p: "encode_host_data X dat = Inr p" "spawn_command X path = Inr ()"
    by (auto simp: is_ok_def split: sum.splits)
  show ?thesis
    using assms that [OF p(1)] unfolding launch_spawned [OF p]
    by (auto split: sum.splits simp: feed_stdin_ok)
qed

lemma provider_entry_links [simp]:
  "provider_entry claims r s = (p, t) \<Longrightarrow> provider_links k l t = provider_links k l s"
  by (simp add: provider_links_def provider_entry_frames(1))

lemma start_provider_running:
  assumes "fetch_provider X r l (hc_allow_file_load (config s)) (registry_settings s) = Inr (path, claims)"
    and "child_at s (subject claims) l \<noteq> None"
  shows "start_provider X l r s = (Inr claims, s)"
  using assms by (auto simp: start_provider_def provider_entry_def child_at_def split: option.splits)

lemma start_provider_ok:
  assumes "start_provider X l r s = (Inr claims, t)"
  obtains path where "fetch_provider X r l (hc_allow_file_load (config s)) (registry_settings s) = Inr (path, claims)"
    "child_at t (subject claims) l \<noteq> None"
    "child_at s (subject claims) l = None \<Longrightarrow> \<exists>dat p c.
       build_host_data X l claims s = Inr dat \<and> encode_host_data X dat = Inr p \<and> c = next_child s \<and>
       child_at t (subject claims) l = Some c \<and>
       events t = events s @ [Spawned c path, Stdin c (base64_encode X p), Stdin c [13, 10]]"
proof (cases "fetch_provider X r l (hc_allow_file_load (config s)) (registry_settings s)")
  case (Inl e)
  with assms show ?thesis by (simp add: start_provider_def)
next
  case (Inr pc)
  obtain path c0 where pc: "pc = (path, c0)" by (cases pc)
  obtain p u where pu: "provider_entry c0 r s = (p, u)" by fastforce
  note eq = start_provider_fetched [OF Inr [unfolded pc] pu] and fr = provider_entry_frames [OF pu]
  have at: "child_at s (subject c0) l = map_option pi_child (hm_get (pr_instances p) l)"
    using provider_entry_get [OF pu] fr(7) by (metis child_at_def option.simps(5))
  show ?thesis
  proof (cases "hm_get (pr_instances p) l")
    case (Some i)
    with eq assms have "claims = c0" "t = u" by auto
    with that Inr pc at Some fr(7) show ?thesis by simp
  next
    case None
    obtain dat where dat: "build_host_data X l c0 u = Inr dat"
      using eq None assms by (cases "build_host_data X l c0 u") auto
    obtain c v where la: "launch X path dat u = (Inr c, v)"
      using eq None dat assms by (cases "launch X path dat u"; cases "fst (launch X path dat u)") auto
    have t: "claims = c0" "t = v\<lparr>providers := hm_insert (subject c0)
         (p\<lparr>pr_instances := hm_insert l \<lparr>pi_child = c, pi_id = ulid_new X\<rparr> (pr_instances p)\<rparr>) (providers v)\<rparr>"
      using eq None dat la assms by auto
    have dat': "build_host_data X l c0 s = Inr dat"
      using dat pu by (auto simp: provider_entry_def Let_def build_host_data_def provider_links_def split: option.splits)
    show ?thesis
    proof (rule launch_ok_events [OF la])
      fix q
      assume q: "encode_host_data X dat = Inr q" "c = next_child u"
        and v: "v = emit [Spawned c path, Stdin c (base64_encode X q), Stdin c [13, 10]]
          (u\<lparr>children := children u @ [c], next_child := Suc c\<rparr>)"
      have "child_at t (subject c0) l = Some c" by (simp add: t child_at_def)
      moreover have "events t = events s @ [Spawned c path, Stdin c (base64_encode X q), Stdin c [13, 10]]"
        by (simp add: t v fr(6))
      ultimately show ?thesis
        using that [of path] Inr pc t(1) dat' q fr(5) by simp
    qed
  qed
qed

lemma start_provider_err:
  assumes "start_provider X l r s = (Inl e, t)" "\<forall>c \<in> set (children s). c < next_child s"
    and "fetch_provider X r l (hc_allow_file_load (config s)) (registry_settings s) = Inr (path, claims)"
  obtains p u es i where "provider_entry claims r s = (p, u)" "t = emit es (u\<lparr>next_child := i\<rparr>)"
proof -
  obtain p u where pu: "provider_entry claims r s = (p, u)" by fastforce
  note eq = start_provider_fetched [OF assms(3) pu] and fr = provider_entry_frames [OF pu]
  have none: "hm_get (pr_instances p) l = None"
    using eq assms(1) by (cases "hm_get (pr_instances p) l") auto
  show ?thesis
  proof (cases "build_host_data X l claims u")
    case (Inl e)
    with eq none assms(1) have "t = emit [] (u\<lparr>next_child := next_child u\<rparr>)" by simp
    with pu that show ?thesis by blast
  next
    case (Inr dat)
    obtain e v where la: "launch X path dat u = (Inl e, v)" and "t = v"
      using eq none Inr assms(1)
      by (cases "launch X path dat u"; cases "fst (launch X path dat u)") auto
    moreover have "\<forall>c \<in> set (children u). c < next_child u" using assms(2) by (simp add: fr(4,5))
    ultimately obtain es i where "t = emit es (u\<lparr>next_child := i\<rparr>)" by (auto elim: launch_err)
    with pu that show ?thesis by blast
  qed
qed

section \<open>Properties\<close>

text \<open>
  C24. A provider process that is started receives on its standard input, and before anything else, the
  encoding of its host data: its own key and link name, the cluster's issuers and signing seed, and
  exactly those registered link definitions that name this provider and this link name.
\<close>

theorem started_provider_is_told:
  assumes "start_provider X l r s = (Inr claims, t)" "child_at s (subject claims) l = None"
    and "hm_wf (links s)"
  shows "\<exists>dat p path. encode_host_data X dat = Inr p \<and>
    child_at t (subject claims) l = Some (next_child s) \<and>
    events t = events s @ [Spawned (next_child s) path, Stdin (next_child s) (base64_encode X p),
      Stdin (next_child s) [13, 10]] \<and>
    dt_provider_key dat = subject claims \<and> dt_link_name dat = l \<and>
    dt_cluster_issuers dat = cluster_issuers s \<and> seed (cluster_key s) = Inr (dt_invocation_seed dat) \<and>
    (\<forall>ld. ld \<in> set (dt_link_definitions dat) \<longleftrightarrow>
       ld_provider_id ld = subject claims \<and> ld_link_name ld = l \<and> (\<exists>i. hm_get (links s) i = Some ld))"
proof (rule start_provider_ok [OF assms(1)])
  fix path
  assume "child_at s (subject claims) l = None \<Longrightarrow> \<exists>dat p c.
       build_host_data X l claims s = Inr dat \<and> encode_host_data X dat = Inr p \<and> c = next_child s \<and>
       child_at t (subject claims) l = Some c \<and>
       events t = events s @ [Spawned c path, Stdin c (base64_encode X p), Stdin c [13, 10]]"
  from this [OF assms(2)] obtain dat p where dat: "build_host_data X l claims s = Inr dat"
    and p: "encode_host_data X dat = Inr p" "child_at t (subject claims) l = Some (next_child s)"
      "events t = events s @ [Spawned (next_child s) path, Stdin (next_child s) (base64_encode X p),
        Stdin (next_child s) [13, 10]]" by blast
  show ?thesis
    by (rule exI [of _ dat], rule exI [of _ p], rule exI [of _ path])
      (simp add: p build_host_data_links [OF dat] provider_links_iff [OF assms(3)])
qed

text \<open>
  Starting is idempotent: once a start succeeded, starting again what has the same key and link
  name succeeds, changes nothing and spawns no process, whatever image it names.
\<close>

theorem start_provider_idempotent:
  assumes "start_provider X l r s = (Inr claims, t)"
    and "fetch_provider Y r' l (hc_allow_file_load (config t)) (registry_settings t) = Inr (path, claims')"
    and "subject claims' = subject claims"
  shows "start_provider Y l r' t = (Inr claims', t)"
  by (rule start_provider_ok [OF assms(1)]) (use assms start_provider_running in metis)

text \<open>
  A start that fails leaves no process behind: the running children and the child of every
  provider and link name are as before. But the provider's entry is created before the process is,
  and stays, so a provider that never ran is counted by the statistics.
\<close>

theorem failed_start_leaves_entry:
  assumes "providers_inv s" "start_provider X l r s = (Inl e, t)"
    and "fetch_provider X r l (hc_allow_file_load (config s)) (registry_settings s) = Inr (path, claims)"
  shows "children t = children s \<and> child_at t = child_at s \<and>
    (\<exists>p. hm_get (providers t) (subject claims) = Some p) \<and>
    (hm_get (providers s) (subject claims) = None \<longrightarrow>
       st_provider_count (stats t) = st_provider_count (stats s) + 1)"
proof (rule start_provider_err [OF assms(2) providers_invD(4) [OF assms(1)] assms(3)])
  fix p u es i
  assume pu: "provider_entry claims r s = (p, u)" and t: "t = emit es (u\<lparr>next_child := i\<rparr>)"
  note fr = provider_entry_frames [OF pu] and get = provider_entry_get [OF pu]
  have "child_at t = child_at s"
    using child_at_cong [of t u] by (simp add: t fr(7))
  moreover have "length (providers u) = Suc (length (providers s))"
    if "hm_get (providers s) (subject claims) = None"
    using that pu by (auto simp: provider_entry_def Let_def hm_insert_absent)
  ultimately show ?thesis
    using fr(4) get by (auto simp: t stats_def Let_def)
qed

theorem failed_start_leaves_entry_witness:
  "\<exists>e t. start_provider http_ext_nospawn ''test'' ''httpserver:0.17.0'' sample_host = (Inl e, t) \<and>
     children t = [] \<and> st_provider_count (stats t) = 1"
proof -
  have inv: "providers_inv sample_host" using sample_system_inv by (simp add: system_inv_def)
  have f: "fetch_provider http_ext_nospawn ''httpserver:0.17.0'' ''test'' (hc_allow_file_load (config sample_host))
      (registry_settings sample_host) = Inr (''/tmp/httpserver'', http_claims)"
    by (simp add: http_ext_nospawn_def http_ext_def)
  obtain e t where t: "start_provider http_ext_nospawn ''test'' ''httpserver:0.17.0'' sample_host = (Inl e, t)"
    by (simp add: start_provider_def provider_entry_def build_host_data_def launch_def sample_defs
        u64_try_from_def out_of_range_def Let_def)
  show ?thesis
    using failed_start_leaves_entry [OF inv t f] t by (auto simp: sample_host_def stats_def)
qed

text \<open>
  C23. Stopping a provider's link name always succeeds. Its process is gone, the processes of all other
  providers and link names keep running, and an empty provider is forgotten. The process is killed
  before the graceful shutdown request is sent, which therefore never reaches it alive.
\<close>

theorem stop_provider_effect:
  assumes "providers_inv s" "t = snd (stop_provider X l k s)"
  shows "fst (stop_provider X l k s) = Inr () \<and> child_at t k l = None \<and>
    (\<forall>k' l'. (k', l') \<noteq> (k, l) \<longrightarrow> child_at t k' l' = child_at s k' l') \<and>
    (\<forall>c. c \<in> set (children t) \<longleftrightarrow> c \<in> set (children s) \<and> child_at s k l \<noteq> Some c) \<and>
    (\<forall>c. child_at s k l = Some c \<longrightarrow>
       (\<exists>rest. events t = events s @ Killed c # rest \<and> (\<forall>e \<in> set rest. \<exists>tp p. e = Requested tp p)))"
proof -
  let ?u = "case child_at s k l of None \<Rightarrow> s | Some c \<Rightarrow> request_shutdown X k l (drop_child c s)"
  have t: "t = ?u\<lparr>providers := providers_without k l s\<rparr>"
    using assms(2) by (simp add: stop_provider_eq)
  have at: "child_at t k' l' = (if k' = k \<and> l' = l then None else child_at s k' l')" for k' l'
    unfolding t by (rule child_at_without)
  have ch: "c \<in> set (children t) \<longleftrightarrow> c \<in> set (children s) \<and> child_at s k l \<noteq> Some c" for c
    by (auto simp: t split: option.split)
  have ev: "\<exists>rest. events t = events s @ Killed c # rest \<and> (\<forall>e \<in> set rest. \<exists>tp p. e = Requested tp p)"
    if "child_at s k l = Some c" for c
    using that by (simp add: t request_shutdown_def drop_child_def split: sum.split)
  show ?thesis using at ch ev by (simp add: stop_provider_eq)
qed

text \<open>
  C22. In every reachable state the running child processes are exactly the recorded ones: no process
  runs unrecorded, every recorded one runs, and each serves one provider and link name only, so a
  provider and link name never has two processes.
\<close>

theorem children_are_tracked:
  assumes "initial_host s" "(host_step D)\<^sup>*\<^sup>* s t"
  shows "set (children t) = {c. \<exists>k l. child_at t k l = Some c} \<and> distinct (children t) \<and>
    (\<forall>k l k' l' c. child_at t k l = Some c \<longrightarrow> child_at t k' l' = Some c \<longrightarrow> k = k' \<and> l = l')"
proof -
  have inv: "providers_inv t"
    using host_sys.reachable_inv [OF assms] by (simp add: system_inv_def)
  note iv = providers_invD [OF inv]
  have "set (children t) = {c. \<exists>k l. child_at t k l = Some c}" using iv(6) by blast
  moreover have "\<forall>k l k' l' c. child_at t k l = Some c \<longrightarrow> child_at t k' l' = Some c \<longrightarrow> k = k' \<and> l = l'"
    using iv(7) by blast
  ultimately show ?thesis using iv(5) by blast
qed

text \<open>The provider of the sample, started and stopped again.\<close>

definition http_running :: process where
  "http_running = snd (start_provider http_ext ''test'' ''httpserver:0.17.0'' sample_host)"

lemma http_starts: "start_provider http_ext ''test'' ''httpserver:0.17.0'' sample_host = (Inr http_claims, http_running)"
  by (simp add: http_running_def) (simp add: start_provider_def provider_entry_def build_host_data_def
      launch_def feed_stdin_def emit_def sample_defs u64_try_from_def out_of_range_def Let_def)

text \<open>With the sample link registered, the process is told of this link.\<close>

theorem started_provider_is_told_witness:
  "\<exists>t dat. start_provider http_ext ''test'' ''httpserver:0.17.0'' (snd (add_linkdef sample_digest link_up echo_ld sample_host)) =
       (Inr http_claims, t) \<and> child_at t ''VHTTP'' ''test'' = Some 0 \<and> encode_host_data http_ext dat = Inr [123, 125] \<and>
     dt_provider_key dat = ''VHTTP'' \<and> (\<forall>ld. ld \<in> set (dt_link_definitions dat) \<longleftrightarrow> ld = echo_ld)"
proof -
  let ?s = "snd (add_linkdef sample_digest link_up echo_ld sample_host)"
  have vac: "hm_get (links sample_host) (ld_hash sample_digest echo_ld) = None" by (simp add: sample_defs)
  have s: "links ?s = [(ld_hash sample_digest echo_ld, echo_ld)]" "providers ?s = []" "next_child ?s = 0"
    by (simp_all add: add_linkdef_vacant [OF vac]) (simp_all add: link_up_def link_put_def update_table_def emit_def sample_host_def split: option.split)
  have put: "\<exists>es. ?s = emit es (link_put sample_digest echo_ld sample_host)"
    by (simp add: add_linkdef_vacant [OF vac]) (auto simp: link_up_def)
  have "fst (start_provider http_ext ''test'' ''httpserver:0.17.0'' (emit es (link_put sample_digest echo_ld sample_host))) =
      Inr http_claims" for es
    by (simp add: start_provider_def provider_entry_def Let_def build_host_data_def launch_def feed_stdin_def emit_def
        sample_defs u64_try_from_def out_of_range_def link_put_def update_table_def)
  with put have "fst (start_provider http_ext ''test'' ''httpserver:0.17.0'' ?s) = Inr http_claims" by metis
  then obtain t where t: "start_provider http_ext ''test'' ''httpserver:0.17.0'' ?s = (Inr http_claims, t)"
    by (metis fst_conv surj_pair)
  have k: "subject http_claims = ''VHTTP''" "ld_provider_id echo_ld = ''VHTTP''" "ld_link_name echo_ld = ''test''"
    by (simp_all add: http_claims_def echo_ld_def)
  have "child_at ?s (subject http_claims) ''test'' = None" "hm_wf (links ?s)"
    "\<And>ld. (\<exists>i. hm_get (links ?s) i = Some ld) \<longleftrightarrow> ld = echo_ld"
    by (auto simp: child_at_def s hm_wf_def hm_get_def)
  with started_provider_is_told [OF t] t s(3) k show ?thesis by (auto simp: http_ext_def)
qed

theorem start_provider_idempotent_witness:
  "start_provider http_ext ''test'' ''httpserver:0.18.0'' http_running = (Inr http_claims, http_running)"
  by (rule start_provider_idempotent [OF http_starts]) (simp_all add: http_ext_def)

theorem stop_provider_effect_witness:
  "child_at (snd (stop_provider http_ext ''test'' ''VHTTP'' http_running)) ''VHTTP'' ''test'' = None"
proof -
  have "providers_inv http_running"
    unfolding http_running_def using sample_system_inv
    by (intro start_provider_inv) (simp add: system_inv_def)
  from stop_provider_effect [OF this refl, where k = "''VHTTP''" and X = http_ext and l = "''test''"] show ?thesis by simp
qed

theorem children_are_tracked_witness:
  "\<exists>c. child_at http_running ''VHTTP'' ''test'' = Some c \<and> c \<in> set (children http_running)"
proof -
  have "host_step sample_digest sample_host http_running"
    unfolding http_running_def by (rule host_step.start)
  then have steps: "(host_step sample_digest)\<^sup>*\<^sup>* sample_host http_running" by blast
  have "subject http_claims = ''VHTTP''" by (simp add: http_claims_def)
  moreover have "child_at http_running (subject http_claims) ''test'' \<noteq> None"
    by (rule start_provider_ok [OF http_starts])
  ultimately obtain c where "child_at http_running ''VHTTP'' ''test'' = Some c" by auto
  with children_are_tracked [OF sample_initial steps] show ?thesis by blast
qed

end
