(* ===== verification/Kasm_Link_Registry.thy ===== *)
theory Kasm_Link_Registry
  imports Kasm_Links
begin

text \<open>
  Reference counting of links in the controller (\<^verbatim>\<open>src/main.rs\<close>: \<^verbatim>\<open>Ctx.links\<close>, the last parts of
  \<^verbatim>\<open>add_link\<close> and \<^verbatim>\<open>delete_link\<close>). Several \<^verbatim>\<open>Link\<close> resources may describe the same link; the host
  is told when the first appears and when the last disappears. What the controller relies on is the
  locale \<open>link_registry\<close>; the host's operations are shown to provide it.
\<close>

section \<open>Operations\<close>

type_synonym ref_table = "(string, link_definition \<times> string set) hmap"

definition link_id :: "link_definition \<Rightarrow> string" where
  "link_id ld = ld_contract_id ld @ ''.'' @ ld_actor_id ld @ ''.'' @ ld_link_name ld"

text \<open>The entry of a link for the resource \<open>nm\<close>; \<open>add\<close> is the host's \<^verbatim>\<open>add_linkdef\<close>.\<close>

definition register_link ::
    "(link_definition \<Rightarrow> 's \<Rightarrow> unit res \<times> 's) \<Rightarrow> string \<Rightarrow> link_definition \<Rightarrow> ref_table \<times> 's \<Rightarrow>
     unit res \<times> ref_table \<times> 's" where
  "register_link add nm ld = (\<lambda>(tbl, s).
     case hm_get tbl (link_id ld) of
       None \<Rightarrow>
         (case add ld s of
            (Inl e, s) \<Rightarrow> (Inl e, tbl, s)
          | (Inr _, s) \<Rightarrow> (Inr (), hm_insert (link_id ld) (ld, {nm}) tbl, s))
     | Some (ld', ref_names) \<Rightarrow>
         (Inr (), hm_insert (link_id ld) (ld', insert nm ref_names) tbl, s))"

text \<open>
  The resource \<open>nm\<close> gives up the link \<open>i\<close>; \<open>del\<close> is the host's \<^verbatim>\<open>delete_linkdef\<close>. The name is taken out
  of the set in place, before the host is asked.
\<close>

definition release_link ::
    "(link_definition \<Rightarrow> 's \<Rightarrow> unit res \<times> 's) \<Rightarrow> string \<Rightarrow> string \<Rightarrow> ref_table \<times> 's \<Rightarrow>
     unit res \<times> ref_table \<times> 's" where
  "release_link del nm i = (\<lambda>(tbl, s).
     case hm_get tbl i of
       None \<Rightarrow> (Inr (), tbl, s)
     | Some (ld, ref_names) \<Rightarrow>
         let ref_names = ref_names - {nm};
             tbl = hm_insert i (ld, ref_names) tbl
         in if ref_names = {}
            then (case del ld s of
                    (Inl e, s) \<Rightarrow> (Inl e, tbl, s)
                  | (Inr _, s) \<Rightarrow> (Inr (), hm_remove i tbl, s))
            else (Inr (), tbl, s))"

lemma release_link_last:
  assumes "hm_get tbl j = Some (ld, refs)" "refs - {nm} = {}"
  shows "release_link del nm j (tbl, s) =
    (case del ld s of
       (Inl e, t) \<Rightarrow> (Inl e, hm_insert j (ld, {}) tbl, t)
     | (Inr _, t) \<Rightarrow> (Inr (), hm_remove j tbl, t))"
  unfolding release_link_def prod.case assms(1) option.case Let_def assms(2)
  by (simp add: hm_remove_insert split: prod.split sum.split)

lemma release_link_shared:
  assumes "hm_get tbl j = Some (ld, refs)" "refs - {nm} \<noteq> {}"
  shows "release_link del nm j (tbl, s) = (Inr (), hm_insert j (ld, refs - {nm}) tbl, s)"
  using assms by (simp add: release_link_def Let_def del: Diff_eq_empty_iff)

lemma register_link_state:
  "snd (snd (register_link add nm ld (tbl, s))) \<in> {s, snd (add ld s)}"
  by (auto simp: register_link_def split: option.splits prod.splits sum.splits)

lemma release_link_state:
  obtains "snd (snd (release_link del nm j (tbl, s))) = s"
  | ld where "snd (snd (release_link del nm j (tbl, s))) = snd (del ld s)"
proof (cases "hm_get tbl j")
  case None
  with that(1) show ?thesis by (simp add: release_link_def)
next
  case (Some e)
  obtain ld refs where got: "hm_get tbl j = Some (ld, refs)" using Some by (cases e) simp
  show ?thesis
  proof (cases "refs - {nm} = {}")
    case True
    have "snd (snd (release_link del nm j (tbl, s))) = snd (del ld s)"
      unfolding release_link_last [OF got True] by (simp split: prod.split sum.split)
    with that(2) show ?thesis .
  next
    case False
    with that(1) show ?thesis by (simp add: release_link_shared [OF got False])
  qed
qed

section \<open>Abstract view\<close>

text \<open>Who references a link.\<close>

definition refs_of :: "ref_table \<Rightarrow> string \<Rightarrow> string set" where
  "refs_of tbl i = (case hm_get tbl i of None \<Rightarrow> {} | Some (ld, refs) \<Rightarrow> refs)"

text \<open>The links in \<open>L\<close> are told apart alike by the controller's identifier and by the host's hash.\<close>

definition separate :: "(link_definition \<Rightarrow> string) \<Rightarrow> link_definition set \<Rightarrow> bool" where
  "separate key L \<longleftrightarrow> (\<forall>ld \<in> L. \<forall>ld' \<in> L. key ld = key ld' \<longleftrightarrow> link_id ld = link_id ld')"

text \<open>The registry holds exactly the referenced links.\<close>

definition mirror ::
    "link_definition set \<Rightarrow> ('s \<Rightarrow> string \<Rightarrow> link_definition option) \<Rightarrow> (link_definition \<Rightarrow> string) \<Rightarrow>
     ref_table \<Rightarrow> 's \<Rightarrow> bool" where
  "mirror L reg key tbl s \<longleftrightarrow>
     (\<forall>i ld refs. hm_get tbl i = Some (ld, refs) \<longrightarrow>
        ld \<in> L \<and> i = link_id ld \<and> refs \<noteq> {} \<and> reg s (key ld) = Some ld) \<and>
     (\<forall>i ld. reg s i = Some ld \<longrightarrow> i = key ld \<and> (\<exists>refs. hm_get tbl (link_id ld) = Some (ld, refs)))"

lemma mirrorD:
  assumes "mirror L reg key tbl s"
  shows "hm_get tbl i = Some (ld, refs) \<Longrightarrow> ld \<in> L"
    and "hm_get tbl i = Some (ld, refs) \<Longrightarrow> i = link_id ld"
    and "hm_get tbl i = Some (ld, refs) \<Longrightarrow> refs \<noteq> {}"
    and "hm_get tbl i = Some (ld, refs) \<Longrightarrow> reg s (key ld) = Some ld"
    and "reg s j = Some ld \<Longrightarrow> j = key ld"
    and "reg s j = Some ld \<Longrightarrow> \<exists>refs. hm_get tbl (link_id ld) = Some (ld, refs)"
  using assms unfolding mirror_def by blast+

lemma mirrorI:
  assumes "\<And>i ld refs. hm_get tbl i = Some (ld, refs) \<Longrightarrow>
      ld \<in> L \<and> i = link_id ld \<and> refs \<noteq> {} \<and> reg s (key ld) = Some ld"
    and "\<And>i ld. reg s i = Some ld \<Longrightarrow> i = key ld \<and> (\<exists>refs. hm_get tbl (link_id ld) = Some (ld, refs))"
  shows "mirror L reg key tbl s"
  using assms unfolding mirror_def by blast

lemma separateD:
  "separate key L \<Longrightarrow> ld \<in> L \<Longrightarrow> ld' \<in> L \<Longrightarrow> key ld = key ld' \<longleftrightarrow> link_id ld = link_id ld'"
  by (simp add: separate_def)

lemma mirror_update_refs:
  assumes m: "mirror L reg key tbl s" and got: "hm_get tbl j = Some (ld, refs)" and ne: "refs' \<noteq> {}"
  shows "mirror L reg key (hm_insert j (ld, refs') tbl) s"
proof (rule mirrorI)
  fix i ld1 refs1
  assume i: "hm_get (hm_insert j (ld, refs') tbl) i = Some (ld1, refs1)"
  show "ld1 \<in> L \<and> i = link_id ld1 \<and> refs1 \<noteq> {} \<and> reg s (key ld1) = Some ld1"
  proof (cases "i = j")
    case True
    with i mirrorD(1,2,4) [OF m got] ne show ?thesis by auto
  next
    case False
    with i have "hm_get tbl i = Some (ld1, refs1)" by simp
    from mirrorD(1-4) [OF m this] show ?thesis by blast
  qed
next
  fix i ld1
  assume i: "reg s i = Some ld1"
  obtain refs1 where r: "hm_get tbl (link_id ld1) = Some (ld1, refs1)"
    using mirrorD(6) [OF m i] by blast
  have "\<exists>refs. hm_get (hm_insert j (ld, refs') tbl) (link_id ld1) = Some (ld1, refs)"
    using r got by (cases "link_id ld1 = j") auto
  with mirrorD(5) [OF m i]
  show "i = key ld1 \<and> (\<exists>refs. hm_get (hm_insert j (ld, refs') tbl) (link_id ld1) = Some (ld1, refs))" ..
qed

text \<open>The table refines the abstract reference sets, for every registry.\<close>

lemma register_link_refs:
  assumes "register_link add nm ld (tbl, s) = (r, tbl', t)"
  shows "refs_of tbl' i =
    (if i = link_id ld \<and> is_ok r then insert nm (refs_of tbl i) else refs_of tbl i)"
  using assms
  by (auto simp: register_link_def refs_of_def split: option.splits prod.splits sum.splits if_splits)

lemma release_link_refs:
  assumes "release_link del nm j (tbl, s) = (r, tbl', t)"
  shows "refs_of tbl' i = (if i = j then refs_of tbl i - {nm} else refs_of tbl i)"
  using assms
  by (auto simp: release_link_def refs_of_def Let_def split: option.splits prod.splits sum.splits if_splits)

text \<open>
  An entry of the table that the registry knows nothing of, in a table whose entries are filed under their
  identifiers.
\<close>

definition stranded ::
    "link_definition set \<Rightarrow> ('s \<Rightarrow> string \<Rightarrow> link_definition option) \<Rightarrow> (link_definition \<Rightarrow> string) \<Rightarrow>
     link_definition \<Rightarrow> ref_table \<Rightarrow> 's \<Rightarrow> bool" where
  "stranded L reg key ld tbl s \<longleftrightarrow>
     (\<exists>refs. hm_get tbl (link_id ld) = Some (ld, refs)) \<and> reg s (key ld) = None \<and>
     (\<forall>i ld' refs. hm_get tbl i = Some (ld', refs) \<longrightarrow> ld' \<in> L \<and> i = link_id ld')"

lemma stranded_put:
  assumes "stranded L reg key ld tbl s" "hm_get tbl j = Some (ld', refs)"
  shows "stranded L reg key ld (hm_insert j (ld', refs') tbl) s"
proof -
  have "ld' \<in> L \<and> j = link_id ld'" "j = link_id ld \<Longrightarrow> ld' = ld" using assms by (auto simp: stranded_def)
  with assms(1) show ?thesis unfolding stranded_def by (auto split: if_splits)
qed

lemma stranded_new:
  assumes "stranded L reg key ld tbl s" "ld' \<in> L" "link_id ld' \<noteq> link_id ld" "reg t (key ld) = None"
  shows "stranded L reg key ld (hm_insert (link_id ld') (ld', refs) tbl) t"
  using assms unfolding stranded_def by (auto split: if_splits)

lemma stranded_drop:
  assumes "stranded L reg key ld tbl s" "j \<noteq> link_id ld" "reg t (key ld) = None"
  shows "stranded L reg key ld (hm_remove j tbl) t"
  using assms unfolding stranded_def by (auto split: if_splits)

section \<open>The interface of a link registry\<close>

text \<open>
  What the controller relies on: adding stores a definition under a free key and nothing else, and
  deleting frees the key, whether or not they report success; a deletion at a free key fails.
\<close>

locale link_registry =
  fixes add :: "link_definition \<Rightarrow> 's \<Rightarrow> unit res \<times> 's"
    and del :: "link_definition \<Rightarrow> 's \<Rightarrow> unit res \<times> 's"
    and reg :: "'s \<Rightarrow> string \<Rightarrow> link_definition option"
    and key :: "link_definition \<Rightarrow> string"
  assumes add_reg: "reg (snd (add ld s)) i = (if i = key ld \<and> reg s i = None then Some ld else reg s i)"
    and del_reg: "reg (snd (del ld s)) i = (if i = key ld then None else reg s i)"
    and del_free: "reg s (key ld) = None \<Longrightarrow> \<exists>e. del ld s = (Inl e, s)"
begin

text \<open>A vacant identifier means a free key, as long as no two links collide.\<close>

lemma vacant_free:
  assumes "mirror L reg key tbl s" "separate key L" "ld \<in> L" "hm_get tbl (link_id ld) = None"
  shows "reg s (key ld) = None"
proof (rule ccontr)
  assume "reg s (key ld) \<noteq> None"
  then obtain ld' where "reg s (key ld) = Some ld'" by blast
  with mirrorD(5,6) [OF assms(1)] obtain refs where
    *: "key ld = key ld'" "hm_get tbl (link_id ld') = Some (ld', refs)" by metis
  then have "ld' \<in> L" using mirrorD(1) [OF assms(1)] by blast
  from separateD [OF assms(2,3) this] * assms(4) show False by simp
qed

lemma register_mirror:
  assumes m: "mirror L reg key tbl s" and sep: "separate key L" "ld \<in> L"
    and r: "register_link add nm ld (tbl, s) = (Inr u, tbl', t)"
  shows "mirror L reg key tbl' t"
proof (cases "hm_get tbl (link_id ld)")
  case None
  note free = vacant_free [OF m sep None]
  have t: "tbl' = hm_insert (link_id ld) (ld, {nm}) tbl" "t = snd (add ld s)"
    using r None by (auto simp: register_link_def split: prod.splits sum.splits)
  show ?thesis
  proof (rule mirrorI)
    fix i ld1 refs1
    assume i: "hm_get tbl' i = Some (ld1, refs1)"
    show "ld1 \<in> L \<and> i = link_id ld1 \<and> refs1 \<noteq> {} \<and> reg t (key ld1) = Some ld1"
    proof (cases "i = link_id ld")
      case True
      with i free sep(2) show ?thesis by (auto simp: t add_reg)
    next
      case False
      with i have "hm_get tbl i = Some (ld1, refs1)" by (simp add: t(1))
      from mirrorD(1-4) [OF m this] show ?thesis by (simp add: t(2) add_reg)
    qed
  next
    fix i ld1
    assume i: "reg t i = Some ld1"
    show "i = key ld1 \<and> (\<exists>refs. hm_get tbl' (link_id ld1) = Some (ld1, refs))"
    proof (cases "i = key ld")
      case True
      with i free show ?thesis by (simp add: t add_reg)
    next
      case False
      with i have old: "reg s i = Some ld1" by (simp add: t(2) add_reg)
      obtain refs1 where "hm_get tbl (link_id ld1) = Some (ld1, refs1)"
        using mirrorD(6) [OF m old] by blast
      with None mirrorD(5) [OF m old] show ?thesis by (auto simp: t(1))
    qed
  qed
next
  case (Some e)
  obtain ld' refs where e: "e = (ld', refs)" by (cases e)
  have t: "tbl' = hm_insert (link_id ld) (ld', insert nm refs) tbl" "t = s"
    using r Some e by (auto simp: register_link_def)
  with m show ?thesis using mirror_update_refs [OF m Some [unfolded e]] by simp
qed

lemma release_mirror:
  assumes m: "mirror L reg key tbl s"
    and r: "release_link del nm j (tbl, s) = (Inr u, tbl', t)"
  shows "mirror L reg key tbl' t"
proof (cases "hm_get tbl j")
  case None
  with m r show ?thesis by (simp add: release_link_def)
next
  case (Some e)
  obtain ld refs where e: "e = (ld, refs)" by (cases e)
  note got = Some [unfolded e]
  show ?thesis
  proof (cases "refs - {nm} = {}")
    case False
    then have t: "tbl' = hm_insert j (ld, refs - {nm}) tbl" "t = s"
      using r got by (auto simp: release_link_def Let_def)
    show ?thesis
      unfolding t using mirror_update_refs [OF m got False] .
  next
    case True
    then have t: "tbl' = hm_remove j tbl" "t = snd (del ld s)"
      using r unfolding release_link_last [OF got True] by (auto split: prod.splits sum.splits)
    show ?thesis
    proof (rule mirrorI)
      fix i ld' refs'
      assume "hm_get tbl' i = Some (ld', refs')"
      then have i: "i \<noteq> j" "hm_get tbl i = Some (ld', refs')" by (auto simp: t(1) split: if_splits)
      have "key ld' \<noteq> key ld"
        using mirrorD(4) [OF m i(2)] mirrorD(4) [OF m got] mirrorD(2) [OF m i(2)]
          mirrorD(2) [OF m got] i(1) by (metis option.inject)
      with mirrorD(1-4) [OF m i(2)]
      show "ld' \<in> L \<and> i = link_id ld' \<and> refs' \<noteq> {} \<and> reg t (key ld') = Some ld'"
        by (simp add: t(2) del_reg)
    next
      fix i ld'
      assume "reg t i = Some ld'"
      then have i: "i \<noteq> key ld" "reg s i = Some ld'" by (auto simp: t(2) del_reg split: if_splits)
      obtain refs' where get: "hm_get tbl (link_id ld') = Some (ld', refs')"
        using mirrorD(6) [OF m i(2)] by blast
      have "link_id ld' \<noteq> j"
      proof
        assume "link_id ld' = j"
        with get got have "ld' = ld" by simp
        with mirrorD(5) [OF m i(2)] i(1) show False by simp
      qed
      with get mirrorD(5) [OF m i(2)]
      show "i = key ld' \<and> (\<exists>refs. hm_get tbl' (link_id ld') = Some (ld', refs))"
        by (simp add: t(1))
    qed
  qed
qed

text \<open>In a mirrored state a link is registered exactly as long as somebody references it.\<close>

lemma mirror_referenced:
  assumes m: "mirror L reg key tbl s" and sep: "separate key L" "ld \<in> L"
  shows "reg s (key ld) \<noteq> None \<longleftrightarrow> refs_of tbl (link_id ld) \<noteq> {}"
proof
  assume "reg s (key ld) \<noteq> None"
  then have "hm_get tbl (link_id ld) \<noteq> None" using vacant_free [OF m sep] by metis
  then obtain ld' refs where "hm_get tbl (link_id ld) = Some (ld', refs)" by auto
  with mirrorD(3) [OF m] show "refs_of tbl (link_id ld) \<noteq> {}" by (simp add: refs_of_def)
next
  assume "refs_of tbl (link_id ld) \<noteq> {}"
  then obtain ld' refs where got: "hm_get tbl (link_id ld) = Some (ld', refs)"
    by (auto simp: refs_of_def split: option.splits)
  then have "key ld = key ld'"
    using separateD [OF sep(1,2) mirrorD(1) [OF m got]] mirrorD(2) [OF m got] by simp
  with mirrorD(4) [OF m got] show "reg s (key ld) \<noteq> None" by simp
qed

text \<open>
  When the host reports an error on a deletion, it has nevertheless lost the link, but the table keeps
  an entry without references. A resource that registers the link again is only added to the entry:
  it gets a success, and the host is not asked.
\<close>

lemma release_failed:
  assumes m: "mirror L reg key tbl s"
    and r: "release_link del nm j (tbl, s) = (Inl e, tbl', t)"
  obtains ld where "j = link_id ld" "hm_get tbl' j = Some (ld, {})" "reg t (key ld) = None"
proof -
  obtain ld refs where got: "hm_get tbl j = Some (ld, refs)"
    using r by (cases "hm_get tbl j") (auto simp: release_link_def)
  have none: "refs - {nm} = {}"
    using r release_link_shared [OF got, of nm del s] by force
  have "tbl' = hm_insert j (ld, {}) tbl" "t = snd (del ld s)"
    using r unfolding release_link_last [OF got none] by (auto split: prod.splits sum.splits)
  with that [of ld] mirrorD(2) [OF m got] show ?thesis by (simp add: del_reg)
qed

lemma release_failed_stranded:
  assumes "mirror L reg key tbl s" "release_link del nm j (tbl, s) = (Inl e, tbl', t)"
  obtains ld where "stranded L reg key ld tbl' t" "j = link_id ld"
proof -
  obtain ld where ld: "j = link_id ld" "hm_get tbl' j = Some (ld, {})" "reg t (key ld) = None"
    by (rule release_failed [OF assms])
  have "hm_get tbl i = Some (ld', refs) \<Longrightarrow> ld' \<in> L \<and> i = link_id ld'" for i ld' refs
    using mirrorD(1,2) [OF assms(1)] by blast
  then have "\<forall>i ld' refs. hm_get tbl' i = Some (ld', refs) \<longrightarrow> ld' \<in> L \<and> i = link_id ld'"
    using assms(2) by (auto simp: release_link_def Let_def split: option.splits prod.splits sum.splits if_splits)
  with ld that show ?thesis unfolding stranded_def by blast
qed

text \<open>Nothing that is done with the table and the registry ever ends this.\<close>

lemma register_stranded:
  assumes st: "stranded L reg key ld tbl s" and sep: "separate key L" "ld' \<in> L"
    and r: "register_link add nm ld' (tbl, s) = (q, tbl', t)"
  shows "stranded L reg key ld tbl' t"
proof (cases "hm_get tbl (link_id ld')")
  case (Some e)
  obtain ld1 refs where e: "e = (ld1, refs)" by (cases e)
  with Some r have "tbl' = hm_insert (link_id ld') (ld1, insert nm refs) tbl" "t = s"
    by (auto simp: register_link_def)
  with stranded_put [OF st Some [unfolded e]] show ?thesis by simp
next
  case None
  then have ne: "link_id ld' \<noteq> link_id ld" "key ld' \<noteq> key ld"
    using st separateD [OF sep] unfolding stranded_def by (metis option.distinct(1))+
  then have free: "reg (snd (add ld' s)) (key ld) = None"
    using st by (simp add: stranded_def add_reg)
  show ?thesis
  proof (cases "add ld' s")
    case (Pair q' u)
    have "stranded L reg key ld tbl u" using st free Pair by (simp add: stranded_def)
    with None r stranded_new [OF st sep(2) ne(1), of u] free Pair show ?thesis
      by (cases q') (auto simp: register_link_def)
  qed
qed

lemma release_stranded:
  assumes st: "stranded L reg key ld tbl s" and sep: "separate key L"
    and r: "release_link del nm j (tbl, s) = (q, tbl', t)"
  shows "stranded L reg key ld tbl' t"
proof (cases "hm_get tbl j")
  case None
  with st r show ?thesis by (simp add: release_link_def)
next
  case (Some e)
  obtain ld' refs where e: "e = (ld', refs)" by (cases e)
  note got = Some [unfolded e]
  have ld': "ld' \<in> L" "j = link_id ld'" and ld: "ld \<in> L" using st got by (auto simp: stranded_def)
  show ?thesis
  proof (cases "refs - {nm} = {}")
    case False
    with r have "tbl' = hm_insert j (ld', refs - {nm}) tbl" "t = s" by (auto simp: release_link_shared [OF got False])
    with stranded_put [OF st got] show ?thesis by simp
  next
    case True
    note last = r [unfolded release_link_last [OF got True]]
    show ?thesis
    proof (cases "link_id ld' = link_id ld")
      case True
      then have same: "ld' = ld" using st got ld'(2) by (auto simp: stranded_def)
      obtain e where "del ld s = (Inl e, s)" using del_free st unfolding stranded_def by blast
      with last same have "tbl' = hm_insert j (ld', {}) tbl" "t = s" by auto
      with stranded_put [OF st got] show ?thesis by simp
    next
      case False
      then have "key ld \<noteq> key ld'" using separateD [OF sep ld ld'(1)] by simp
      then have free: "reg (snd (del ld' s)) (key ld) = None" using st by (simp add: stranded_def del_reg)
      show ?thesis
      proof (cases "del ld' s")
        case (Pair q' u)
        have "stranded L reg key ld tbl u" using st free Pair by (simp add: stranded_def)
        with last stranded_put [OF this got] stranded_drop [OF st, of j u] free Pair ld'(2) False show ?thesis
          by (cases q') auto
      qed
    qed
  qed
qed

lemma stranded_register:
  assumes "stranded L reg key ld tbl s" "link_id ld' = link_id ld"
  obtains refs where "hm_get tbl (link_id ld) = Some (ld, refs)"
    "register_link add nm ld' (tbl, s) = (Inr (), hm_insert (link_id ld) (ld, insert nm refs) tbl, s)"
  using assms by (auto simp: stranded_def register_link_def)

lemma stranded_release:
  assumes "stranded L reg key ld tbl s"
  shows "is_ok (fst (release_link del nm (link_id ld) (tbl, s))) \<longleftrightarrow> \<not> refs_of tbl (link_id ld) \<subseteq> {nm}"
    and "snd (snd (release_link del nm (link_id ld) (tbl, s))) = s"
proof -
  obtain refs where got: "hm_get tbl (link_id ld) = Some (ld, refs)" using assms by (auto simp: stranded_def)
  obtain e where e: "del ld s = (Inl e, s)" using del_free assms unfolding stranded_def by blast
  have r: "refs_of tbl (link_id ld) = refs" by (simp add: refs_of_def got)
  have "(is_ok (fst (release_link del nm (link_id ld) (tbl, s))) \<longleftrightarrow> \<not> refs \<subseteq> {nm}) \<and>
      snd (snd (release_link del nm (link_id ld) (tbl, s))) = s"
  proof (cases "refs - {nm} = {}")
    case True
    then show ?thesis unfolding release_link_last [OF got True] e by auto
  next
    case False
    then show ?thesis unfolding release_link_shared [OF got False] by auto
  qed
  then show "is_ok (fst (release_link del nm (link_id ld) (tbl, s))) \<longleftrightarrow> \<not> refs_of tbl (link_id ld) \<subseteq> {nm}"
    "snd (snd (release_link del nm (link_id ld) (tbl, s))) = s" by (simp_all add: r)
qed

end

section \<open>The host provides it\<close>

lemma add_linkdef_reg:
  "hm_get (links (snd (add_linkdef D X ld s))) i =
     (if i = ld_hash D ld \<and> hm_get (links s) i = None then Some ld else hm_get (links s) i)"
  by (rule add_linkdef_snd [of s D ld X]) (auto simp: link_put_def)

lemma delete_linkdef_reg:
  "hm_get (links (snd (delete_linkdef D X ld s))) i =
     (if i = ld_hash D ld then None else hm_get (links s) i)"
  by (rule delete_linkdef_snd [of s D ld X]) (auto simp: link_drop_def)

interpretation host_links:
  link_registry "add_linkdef D X" "delete_linkdef D X" "\<lambda>s. hm_get (links s)" "ld_hash D"
  for D :: digest and X :: link_ext
  by unfold_locales (simp_all add: add_linkdef_reg delete_linkdef_reg delete_linkdef_vacant)

text \<open>A mirrored link is visible to its actor.\<close>

abbreviation reg_of :: "process \<Rightarrow> string \<Rightarrow> link_definition option" where
  "reg_of s \<equiv> hm_get (links s)"

lemma mirror_linked:
  assumes m: "mirror L reg_of (ld_hash D) tbl s" and wf: "links_wf D s"
    and sep: "separate (ld_hash D) L" "ld \<in> L"
    and same: "\<forall>ld1 \<in> L. \<forall>ld2 \<in> L. link_id ld1 = link_id ld2 \<longrightarrow>
      link_matches (ld_actor_id ld1) (ld_contract_id ld1) (ld_link_name ld1) ld2"
  shows "linked s (ld_actor_id ld) (ld_contract_id ld) (ld_link_name ld) \<noteq> None \<longleftrightarrow>
    refs_of tbl (link_id ld) \<noteq> {}"
proof -
  have key: "linkdef_hash D (ld_actor_id ld) (ld_contract_id ld) (ld_link_name ld) = ld_hash D ld"
    by (simp add: ld_hash_def)
  have "link_matches (ld_actor_id ld) (ld_contract_id ld) (ld_link_name ld) ld'"
    if occ: "reg_of s (ld_hash D ld) = Some ld'" for ld'
  proof -
    obtain refs where got: "hm_get tbl (link_id ld') = Some (ld', refs)"
      using mirrorD(6) [OF m occ] by blast
    have L: "ld' \<in> L" using mirrorD(1) [OF m got] .
    moreover have "link_id ld = link_id ld'"
      using separateD [OF sep L] mirrorD(5) [OF m occ] by simp
    ultimately show ?thesis using sep(2) same by blast
  qed
  then have "linked s (ld_actor_id ld) (ld_contract_id ld) (ld_link_name ld) \<noteq> None \<longleftrightarrow>
      reg_of s (ld_hash D ld) \<noteq> None"
    unfolding linked_lookup [OF wf] key by (simp split: option.split)
  then show ?thesis using host_links.mirror_referenced [OF m sep] by simp
qed

end
