(* ===== verification/Kasm_Apis.thy ===== *)
theory Kasm_Apis
  imports Kasm_External
begin

text \<open>
  The custom resources (\<^verbatim>\<open>crates/apis/src/v1alpha1\<close>): one record per struct. A resource object
  adds to its spec and status the metadata name, which is all the host reads of the metadata.
\<close>

type_synonym condition = string

section \<open>Claims\<close>

record api_claims =
  c_issuer :: string
  c_subject :: string
  c_issued_at :: datetime
  c_not_before :: "datetime option"
  c_expires :: "datetime option"

section \<open>Actor\<close>

record actor_spec =
  as_host :: string
  as_image :: string
  as_replicas :: "32 word"

record actor_status =
  ast_public_key :: string
  ast_descriptive_name :: "string option"
  ast_caps :: "string list option"
  ast_capability_provider :: "string list option"
  ast_call_alias :: "string option"
  ast_claims :: api_claims
  ast_version :: "string option"
  ast_reversion :: "32 word option"
  ast_conditions :: "condition list"
  ast_replicas :: "32 word"
  ast_available_replicas :: "32 word"

record actor_resource =
  a_name :: string
  a_spec :: actor_spec
  a_status :: "actor_status option"

section \<open>Provider\<close>

record provider_spec =
  ps_host :: string
  ps_image :: string
  ps_link :: string

record provider_status =
  pst_public_key :: string
  pst_contract_id :: string
  pst_descriptive_name :: "string option"
  pst_claims :: api_claims
  pst_architecture_targets :: "string list"
  pst_vendor :: string
  pst_version :: "string option"
  pst_reversion :: "32 word option"
  pst_conditions :: "condition list"
  pst_instance_id :: string

record provider_resource =
  p_name :: string
  p_spec :: provider_spec
  p_status :: "provider_status option"

section \<open>Link\<close>

record source_ref =
  src_key :: string
  src_name :: string

record link_spec =
  ls_link_name :: string
  ls_provider :: source_ref
  ls_actor :: source_ref
  ls_contract_id :: string
  ls_values :: "(string, string) hmap"

record link_status =
  lst_provider_key :: string
  lst_actor_key :: string
  lst_link_name :: string
  lst_conditions :: "condition list"

record link_resource =
  l_name :: string
  l_spec :: link_spec
  l_status :: "link_status option"

section \<open>Host\<close>

record host_provider_status =
  hps_count :: "64 word"

record host_actor_status =
  has_count :: "64 word"
  has_instance_count :: "64 word"

record kasmcloud_host_status =
  hst_kube_node_name :: string
  hst_public_key :: string
  hst_cluster_public_key :: string
  hst_cluster_issuers :: "string list"
  hst_pre_instance :: string
  hst_instance :: string
  hst_providers :: host_provider_status
  hst_actors :: host_actor_status

end
