(* ===== verification/Kasm_Status.thy ===== *)
theory Kasm_Status
  imports Kasm_Apis Kasm_Actors "HOL-Library.List_Lexorder" "HOL-Library.Char_ord"
begin

text \<open>
  The statuses the controllers report (\<^verbatim>\<open>src/main.rs\<close>): built from the claims of the fetched module,
  and, for the host, from its statistics. Strings are ordered as Rust orders them, by their bytes.
\<close>

text \<open>
  \<^verbatim>\<open>Utc.timestamp_opt\<close> is partial (\<open>Some\<close> is \<^verbatim>\<open>LocalResult::Single\<close>); \<^verbatim>\<open>MIN_UTC\<close> stands in where it has
  no answer. \<^verbatim>\<open>KUBERNETES_NODE_NAME\<close> comes from the environment.
\<close>

record status_ext =
  timestamp_opt :: "int \<Rightarrow> datetime option"
  min_utc :: datetime
  node_name :: string

definition time_of :: "status_ext \<Rightarrow> 64 word \<Rightarrow> datetime" where
  "time_of X w = (case timestamp_opt X (u64_as_i64 w) of Some dt \<Rightarrow> dt | None \<Rightarrow> min_utc X)"

definition status_claims :: "status_ext \<Rightarrow> 'm claims \<Rightarrow> api_claims" where
  "status_claims X claims =
     \<lparr>c_issuer = issuer claims, c_subject = subject claims,
      c_issued_at = time_of X (issued_at claims),
      c_not_before = map_option (time_of X) (not_before claims),
      c_expires = map_option (time_of X) (expires claims)\<rparr>"

definition actor_status_of :: "status_ext \<Rightarrow> actor_spec \<Rightarrow> actor_claims \<Rightarrow> actor_status" where
  "actor_status_of X spec claims =
     (let status =
            \<lparr>ast_public_key = subject claims, ast_descriptive_name = None, ast_caps = None,
             ast_capability_provider = None, ast_call_alias = None,
             ast_claims = status_claims X claims, ast_version = None, ast_reversion = None,
             ast_conditions = [], ast_replicas = as_replicas spec,
             ast_available_replicas = as_replicas spec\<rparr>
      in case metadata claims of
           None \<Rightarrow> status
         | Some meta \<Rightarrow>
             let status = status\<lparr>ast_descriptive_name := act_name meta\<rparr>;
                 status = (if act_provider meta then status\<lparr>ast_caps := act_caps meta\<rparr>
                           else status\<lparr>ast_capability_provider := act_caps meta\<rparr>)
             in status\<lparr>ast_reversion := act_rev meta, ast_version := act_ver meta,
                       ast_call_alias := act_call_alias meta\<rparr>)"

definition provider_status_of :: "status_ext \<Rightarrow> provider_claims \<Rightarrow> provider_status" where
  "provider_status_of X claims =
     (let status =
            \<lparr>pst_public_key = subject claims, pst_contract_id = [], pst_descriptive_name = None,
             pst_claims = status_claims X claims, pst_architecture_targets = [], pst_vendor = [],
             pst_version = None, pst_reversion = None, pst_conditions = [], pst_instance_id = []\<rparr>
      in case metadata claims of
           None \<Rightarrow> status
         | Some meta \<Rightarrow>
             status\<lparr>pst_descriptive_name := prov_name meta, pst_reversion := prov_rev meta,
                    pst_version := prov_ver meta, pst_vendor := prov_vendor meta,
                    pst_contract_id := prov_capid meta,
                    pst_architecture_targets := sort (hm_keys (prov_target_hashes meta))\<rparr>)"

definition host_status_of :: "status_ext \<Rightarrow> process \<Rightarrow> kasmcloud_host_status" where
  "host_status_of X s =
     (let host_stats = stats s
      in \<lparr>hst_kube_node_name = node_name X, hst_public_key = public_key (host_key s),
          hst_cluster_public_key = public_key (cluster_key s), hst_cluster_issuers = cluster_issuers s,
          hst_pre_instance = [], hst_instance = [],
          hst_providers = \<lparr>hps_count = st_provider_count host_stats\<rparr>,
          hst_actors = \<lparr>has_count = st_actor_count host_stats,
                        has_instance_count = st_actor_instance_count host_stats\<rparr>\<rparr>)"

section \<open>Facts\<close>

lemma status_keys [simp]:
  "ast_public_key (actor_status_of X spec claims) = subject claims"
  "pst_public_key (provider_status_of X c) = subject c"
  by (simp_all add: actor_status_of_def provider_status_of_def Let_def split: option.split)

lemma actor_status_replicas [simp]:
  "ast_replicas (actor_status_of X spec claims) = as_replicas spec"
  "ast_available_replicas (actor_status_of X spec claims) = as_replicas spec"
  by (simp_all add: actor_status_of_def Let_def split: option.split)

text \<open>The order in which the hash map hands out the targets does not show in the status.\<close>

lemma sorted_keys_unique:
  assumes "hm_wf m" "hm_wf m'" "set m = set m'"
  shows "sort (hm_keys m) = sort (hm_keys m' :: string list)"
proof (rule sorted_distinct_set_unique)
  show "distinct (sort (hm_keys m))" "distinct (sort (hm_keys m'))"
    using assms by (simp_all add: hm_wf_def hm_keys_def)
  show "set (sort (hm_keys m)) = set (sort (hm_keys m'))"
    using assms(3) by (simp add: hm_keys_def)
qed simp_all

end
