(* ===== verification/Kasm_Controller.thy ===== *)
theory Kasm_Controller
  imports Kasm_Host Kasm_Link_Registry Kasm_Status Kasm_Reconcile
begin

text \<open>
  The controllers (\<^verbatim>\<open>src/main.rs\<close>): the handlers of \<^verbatim>\<open>Actor\<close>, \<^verbatim>\<open>Link\<close> and \<^verbatim>\<open>Provider\<close> resources, which
  drive the host and report to the API server, and the closures that filter events by host and choose
  between applying and cleaning up.
\<close>

section \<open>State and environment\<close>

datatype action = Await_change | Requeue nat

datatype 'r finalizer_event = Apply 'r | Cleanup 'r

text \<open>The status patches sent to the API server, in order. Their failure is only logged.\<close>

datatype patch =
    Patch_actor string actor_status
  | Patch_provider string provider_status
  | Patch_link string link_status
  | Patch_host string kasmcloud_host_status

text \<open>\<^verbatim>\<open>Ctx\<close>: the host, the references to links, and the API clients.\<close>

record ctx =
  ctx_host :: process
  ctx_links :: ref_table
  ctx_patches :: "patch list"

text \<open>
  What the API server answers to a read, the \<^verbatim>\<open>Default\<close> value of \<^verbatim>\<open>LinkDefinition\<close>, and the externals
  of the operations of the host.
\<close>

record ctl_ext =
  cx_get_actor :: "string \<Rightarrow> actor_resource res"
  cx_get_provider :: "string \<Rightarrow> provider_resource res"
  cx_default_ld :: link_definition
  cx_digest :: digest
  cx_link :: link_ext
  cx_actor :: actor_ext
  cx_provider :: provider_ext
  cx_status :: status_ext

definition send_patch :: "patch \<Rightarrow> ctx \<Rightarrow> ctx" where
  "send_patch p c = c\<lparr>ctx_patches := ctx_patches c @ [p]\<rparr>"

definition update_host_status :: "ctl_ext \<Rightarrow> ctx \<Rightarrow> ctx" where
  "update_host_status X c =
     send_patch (Patch_host (name (ctx_host c)) (host_status_of (cx_status X) (ctx_host c))) c"

section \<open>Actors\<close>

definition ctl_reconcile_actor :: "ctl_ext \<Rightarrow> actor_resource \<Rightarrow> ctx \<Rightarrow> action \<times> ctx" where
  "ctl_reconcile_actor X r c =
     (case reconcile_actor (cx_actor X) (a_name r) (as_image (a_spec r))
             (i32_as_usize (as_replicas (a_spec r))) (ctx_host c) of
        (Inl _, s) \<Rightarrow> (Await_change, c\<lparr>ctx_host := s\<rparr>)
      | (Inr claims, s) \<Rightarrow>
          let c = c\<lparr>ctx_host := s\<rparr>;
              status = actor_status_of (cx_status X) (a_spec r) claims
          in if a_status r = Some status then (Await_change, c)
             else (Await_change, send_patch (Patch_actor (a_name r) status) c))"

definition ctl_delete_actor :: "actor_resource \<Rightarrow> ctx \<Rightarrow> action \<times> ctx" where
  "ctl_delete_actor r c =
     (case remove_actor (a_name r) (ctx_host c) of
        (Inl _, s) \<Rightarrow> (Requeue 60, c\<lparr>ctx_host := s\<rparr>)
      | (Inr _, s) \<Rightarrow> (Await_change, c\<lparr>ctx_host := s\<rparr>))"

definition run_actor :: "ctl_ext \<Rightarrow> actor_resource finalizer_event \<Rightarrow> ctx \<Rightarrow> action \<times> ctx" where
  "run_actor X ev c =
     (let r = (case ev of Apply r \<Rightarrow> r | Cleanup r \<Rightarrow> r)
      in if as_host (a_spec r) \<noteq> name (ctx_host c) then (Await_change, c)
         else
           let (result, c) = (case ev of Apply r \<Rightarrow> ctl_reconcile_actor X r c
                                       | Cleanup r \<Rightarrow> ctl_delete_actor r c)
           in (result, update_host_status X c))"

section \<open>Links\<close>

text \<open>
  \<^verbatim>\<open>add_link\<close> first works out which link a resource means. Each part either goes on with a link
  definition (\<open>Inr\<close>) or returns early with an action (\<open>Inl\<close>).
\<close>

definition status_complete :: "link_status \<Rightarrow> bool" where
  "status_complete st \<longleftrightarrow> lst_provider_key st \<noteq> [] \<and> lst_actor_key st \<noteq> [] \<and> lst_link_name st \<noteq> []"

definition link_of_spec :: "ctl_ext \<Rightarrow> link_spec \<Rightarrow> action + link_definition" where
  "link_of_spec X spec =
     (let ld = (cx_default_ld X)\<lparr>ld_contract_id := ls_contract_id spec, ld_values := ls_values spec\<rparr>
      in if ls_link_name spec \<noteq> [] then Inr (ld\<lparr>ld_link_name := ls_link_name spec\<rparr>)
         else if src_key (ls_provider spec) \<noteq> [] then Inl Await_change
         else Inr ld)"

definition link_of_status :: "link_status option \<Rightarrow> link_definition \<Rightarrow> link_definition" where
  "link_of_status st ld =
     (case st of
        None \<Rightarrow> ld
      | Some st \<Rightarrow>
          if status_complete st
          then ld\<lparr>ld_actor_id := lst_actor_key st, ld_provider_id := lst_provider_key st,
                  ld_link_name := lst_link_name st\<rparr>
          else ld)"

definition resolve_actor :: "ctl_ext \<Rightarrow> link_spec \<Rightarrow> link_definition \<Rightarrow> action + link_definition" where
  "resolve_actor X spec ld =
     (if ld_actor_id ld \<noteq> [] then Inr ld
      else
        let key = src_key (ls_actor spec); nm = src_name (ls_actor spec)
        in if key \<noteq> [] then Inr (ld\<lparr>ld_actor_id := key\<rparr>)
           else if nm \<noteq> [] then
             (case cx_get_actor X nm of
                Inr actor \<Rightarrow>
                  (case a_status actor of
                     Some st \<Rightarrow>
                       if ast_public_key st = [] then Inl (Requeue 10)
                       else Inr (ld\<lparr>ld_actor_id := ast_public_key st\<rparr>)
                   | None \<Rightarrow> Inl (Requeue 10))
              | Inl _ \<Rightarrow> Inl (Requeue 60))
           else Inl Await_change)"

definition resolve_provider :: "ctl_ext \<Rightarrow> link_spec \<Rightarrow> link_definition \<Rightarrow> action + link_definition" where
  "resolve_provider X spec ld =
     (if \<not> (ld_provider_id ld = [] \<or> ld_link_name ld = []) then Inr ld
      else
        let key = src_key (ls_provider spec); nm = src_name (ls_provider spec)
        in if nm \<noteq> [] then
             (case cx_get_provider X nm of
                Inr prov \<Rightarrow>
                  if ld_link_name ld \<noteq> [] \<and> ld_link_name ld \<noteq> ps_link (p_spec prov)
                  then Inl Await_change
                  else
                    (case p_status prov of
                       Some st \<Rightarrow>
                         if pst_public_key st = [] then Inl (Requeue 10)
                         else if key \<noteq> [] \<and> pst_public_key st \<noteq> key then Inl (Requeue 10)
                         else Inr (ld\<lparr>ld_provider_id := pst_public_key st,
                                      ld_link_name := ps_link (p_spec prov)\<rparr>)
                     | None \<Rightarrow> Inl (Requeue 10))
              | Inl _ \<Rightarrow> Inl (Requeue 60))
           else if key \<noteq> [] then Inr (ld\<lparr>ld_provider_id := key\<rparr>)
           else Inl Await_change)"

definition resolve_link :: "ctl_ext \<Rightarrow> link_resource \<Rightarrow> action + link_definition" where
  "resolve_link X r =
     (case link_of_spec X (l_spec r) of
        Inl a \<Rightarrow> Inl a
      | Inr ld \<Rightarrow>
          (case resolve_actor X (l_spec r) (link_of_status (l_status r) ld) of
             Inl a \<Rightarrow> Inl a
           | Inr ld \<Rightarrow> resolve_provider X (l_spec r) ld))"

definition link_status_of :: "link_definition \<Rightarrow> link_status" where
  "link_status_of ld =
     \<lparr>lst_provider_key = ld_provider_id ld, lst_actor_key = ld_actor_id ld,
      lst_link_name = ld_link_name ld, lst_conditions = []\<rparr>"

definition ctl_add_link :: "ctl_ext \<Rightarrow> link_resource \<Rightarrow> ctx \<Rightarrow> action \<times> ctx" where
  "ctl_add_link X r c =
     (case resolve_link X r of
        Inl a \<Rightarrow> (a, c)
      | Inr ld \<Rightarrow>
          (case register_link (add_linkdef (cx_digest X) (cx_link X)) (l_name r) ld
                  (ctx_links c, ctx_host c) of
             (Inl _, tbl, s) \<Rightarrow> (Await_change, c\<lparr>ctx_host := s, ctx_links := tbl\<rparr>)
           | (Inr _, tbl, s) \<Rightarrow>
               let c = c\<lparr>ctx_host := s, ctx_links := tbl\<rparr>
               in if l_status r = Some (link_status_of ld) then (Await_change, c)
                  else (Await_change, send_patch (Patch_link (l_name r) (link_status_of ld)) c)))"

definition link_status_id :: "link_spec \<Rightarrow> link_status \<Rightarrow> string" where
  "link_status_id spec st =
     ls_contract_id spec @ ''.'' @ lst_actor_key st @ ''.'' @ lst_link_name st"

definition ctl_delete_link :: "ctl_ext \<Rightarrow> link_resource \<Rightarrow> ctx \<Rightarrow> action \<times> ctx" where
  "ctl_delete_link X r c =
     (case l_status r of
        None \<Rightarrow> (Await_change, c)
      | Some st \<Rightarrow>
          if status_complete st then
            let i = link_status_id (l_spec r) st
            in case release_link (delete_linkdef (cx_digest X) (cx_link X)) (l_name r) i
                      (ctx_links c, ctx_host c) of
                 (Inl _, tbl, s) \<Rightarrow> (Requeue 10, c\<lparr>ctx_host := s, ctx_links := tbl\<rparr>)
               | (Inr _, tbl, s) \<Rightarrow> (Await_change, c\<lparr>ctx_host := s, ctx_links := tbl\<rparr>)
          else (Await_change, c))"

definition run_link :: "ctl_ext \<Rightarrow> link_resource finalizer_event \<Rightarrow> ctx \<Rightarrow> action \<times> ctx" where
  "run_link X ev c =
     (case ev of Apply r \<Rightarrow> ctl_add_link X r c | Cleanup r \<Rightarrow> ctl_delete_link X r c)"

section \<open>Providers\<close>

definition ctl_reconcile_provider :: "ctl_ext \<Rightarrow> provider_resource \<Rightarrow> ctx \<Rightarrow> action \<times> ctx" where
  "ctl_reconcile_provider X r c =
     (case start_provider (cx_provider X) (ps_link (p_spec r)) (ps_image (p_spec r)) (ctx_host c) of
        (Inl _, s) \<Rightarrow> (Await_change, c\<lparr>ctx_host := s\<rparr>)
      | (Inr claims, s) \<Rightarrow>
          let c = c\<lparr>ctx_host := s\<rparr>;
              status = provider_status_of (cx_status X) claims
          in if p_status r = Some status then (Await_change, c)
             else (Await_change, send_patch (Patch_provider (p_name r) status) c))"

definition ctl_delete_provider :: "ctl_ext \<Rightarrow> provider_resource \<Rightarrow> ctx \<Rightarrow> action \<times> ctx" where
  "ctl_delete_provider X r c =
     (case p_status r of
        None \<Rightarrow> (Await_change, c)
      | Some st \<Rightarrow>
          if pst_public_key st = [] then (Await_change, c)
          else
            (case stop_provider (cx_provider X) (ps_link (p_spec r)) (pst_public_key st) (ctx_host c) of
               (Inl _, s) \<Rightarrow> (Requeue 10, c\<lparr>ctx_host := s\<rparr>)
             | (Inr _, s) \<Rightarrow> (Await_change, c\<lparr>ctx_host := s\<rparr>)))"

definition run_provider :: "ctl_ext \<Rightarrow> provider_resource finalizer_event \<Rightarrow> ctx \<Rightarrow> action \<times> ctx" where
  "run_provider X ev c =
     (let r = (case ev of Apply r \<Rightarrow> r | Cleanup r \<Rightarrow> r)
      in if ps_host (p_spec r) \<noteq> name (ctx_host c) then (Await_change, c)
         else (case ev of Apply r \<Rightarrow> ctl_reconcile_provider X r c
                        | Cleanup r \<Rightarrow> ctl_delete_provider X r c))"

section \<open>The controllers as clients of the host\<close>

lemma ctl_host_frames [simp]:
  "ctx_host (send_patch p c) = ctx_host c"
  "ctx_links (send_patch p c) = ctx_links c"
  "ctx_host (update_host_status X c) = ctx_host c"
  "ctx_links (update_host_status X c) = ctx_links c"
  by (simp_all add: send_patch_def update_host_status_def)

lemma ctl_add_link_host:
  "ctx_host (snd (ctl_add_link X r c)) =
     (case resolve_link X r of
        Inl _ \<Rightarrow> ctx_host c
      | Inr ld \<Rightarrow> snd (snd (register_link (add_linkdef (cx_digest X) (cx_link X)) (l_name r) ld
          (ctx_links c, ctx_host c))))"
  by (auto simp: ctl_add_link_def Let_def split: sum.split prod.split)

lemma ctl_delete_link_host:
  "ctx_host (snd (ctl_delete_link X r c)) =
     (case l_status r of
        None \<Rightarrow> ctx_host c
      | Some st \<Rightarrow>
          if status_complete st
          then snd (snd (release_link (delete_linkdef (cx_digest X) (cx_link X)) (l_name r)
                 (link_status_id (l_spec r) st) (ctx_links c, ctx_host c)))
          else ctx_host c)"
  by (auto simp: ctl_delete_link_def Let_def split: sum.split prod.split option.split)

lemma ctl_reconcile_actor_host:
  "ctx_host (snd (ctl_reconcile_actor X r c)) =
     snd (reconcile_actor (cx_actor X) (a_name r) (as_image (a_spec r))
       (i32_as_usize (as_replicas (a_spec r))) (ctx_host c))"
  by (auto simp: ctl_reconcile_actor_def Let_def split: sum.split prod.split)

lemma ctl_delete_actor_host:
  "ctx_host (snd (ctl_delete_actor r c)) = snd (remove_actor (a_name r) (ctx_host c))"
  by (auto simp: ctl_delete_actor_def split: sum.split prod.split)

lemma ctl_reconcile_provider_host:
  "ctx_host (snd (ctl_reconcile_provider X r c)) =
     snd (start_provider (cx_provider X) (ps_link (p_spec r)) (ps_image (p_spec r)) (ctx_host c))"
  by (auto simp: ctl_reconcile_provider_def Let_def split: sum.split prod.split)

lemma ctl_delete_provider_host:
  "ctx_host (snd (ctl_delete_provider X r c)) =
     (case p_status r of
        None \<Rightarrow> ctx_host c
      | Some st \<Rightarrow>
          if pst_public_key st = [] then ctx_host c
          else snd (stop_provider (cx_provider X) (ps_link (p_spec r)) (pst_public_key st) (ctx_host c)))"
  by (auto simp: ctl_delete_provider_def split: sum.split prod.split option.split)

section \<open>The state machine of the controllers\<close>

text \<open>
  One rule per controller. Resources, events and the answers from outside are arbitrary; only the
  digest is the same throughout.
\<close>

inductive ctl_step :: "digest \<Rightarrow> ctx \<Rightarrow> ctx \<Rightarrow> bool" for D :: digest where
  link_event: "cx_digest X = D \<Longrightarrow> ctl_step D c (snd (run_link X le c))"
| actor_event: "ctl_step D c (snd (run_actor X ae c))"
| provider_event: "ctl_step D c (snd (run_provider X pe c))"

inductive_cases ctl_stepE: "ctl_step D c d"

definition initial_ctx :: "ctx \<Rightarrow> bool" where
  "initial_ctx c \<longleftrightarrow> initial_host (ctx_host c) \<and> ctx_links c = []"

text \<open>Every event is handled by at most one operation of the host.\<close>

lemma run_link_simulates:
  assumes "cx_digest X = D"
  shows "(host_step D)\<^sup>=\<^sup>= (ctx_host c) (ctx_host (snd (run_link X ev c)))"
proof (cases ev)
  case (Apply r)
  show ?thesis
  proof (cases "resolve_link X r")
    case (Inl a)
    with Apply show ?thesis by (simp add: run_link_def ctl_add_link_host)
  next
    case (Inr ld)
    with Apply register_link_state [of "add_linkdef (cx_digest X) (cx_link X)" "l_name r" ld "ctx_links c" "ctx_host c"]
      host_step.add_link [of D "ctx_host c" "cx_link X" ld] assms
    show ?thesis by (auto simp: run_link_def ctl_add_link_host)
  qed
next
  case (Cleanup r)
  have "(host_step D)\<^sup>=\<^sup>= (ctx_host c) (snd (snd (release_link (delete_linkdef (cx_digest X) (cx_link X))
      (l_name r) i (ctx_links c, ctx_host c))))" for i
    by (rule release_link_state [of "delete_linkdef (cx_digest X) (cx_link X)" "l_name r" i "ctx_links c" "ctx_host c"])
      (use assms host_step.delete_link [of D "ctx_host c" "cx_link X"] in auto)
  then show ?thesis
    unfolding run_link_def Cleanup finalizer_event.case ctl_delete_link_host
    by (simp split: option.split)
qed

lemma run_actor_simulates: "(host_step D)\<^sup>=\<^sup>= (ctx_host c) (ctx_host (snd (run_actor X ev c)))"
proof (cases ev)
  case (Apply r)
  have "host_step D (ctx_host c) (ctx_host (snd (ctl_reconcile_actor X r c)))"
    unfolding ctl_reconcile_actor_host by (rule host_step.reconcile)
  with Apply show ?thesis by (auto simp: run_actor_def Let_def split: prod.splits)
next
  case (Cleanup r)
  have "host_step D (ctx_host c) (ctx_host (snd (ctl_delete_actor r c)))"
    unfolding ctl_delete_actor_host by (rule host_step.remove)
  with Cleanup show ?thesis by (auto simp: run_actor_def Let_def split: prod.splits)
qed

lemma run_provider_simulates: "(host_step D)\<^sup>=\<^sup>= (ctx_host c) (ctx_host (snd (run_provider X ev c)))"
proof (cases ev)
  case (Apply r)
  have "host_step D (ctx_host c) (ctx_host (snd (ctl_reconcile_provider X r c)))"
    unfolding ctl_reconcile_provider_host by (rule host_step.start)
  with Apply show ?thesis by (auto simp: run_provider_def)
next
  case (Cleanup r)
  have "(host_step D)\<^sup>=\<^sup>= (ctx_host c) (ctx_host (snd (ctl_delete_provider X r c)))"
    unfolding ctl_delete_provider_host
    using host_step.stop [of D "ctx_host c" "cx_provider X" "ps_link (p_spec r)"]
    by (auto split: option.split)
  with Cleanup show ?thesis by (auto simp: run_provider_def)
qed

lemma ctl_step_simulates: "ctl_step D c d \<Longrightarrow> (host_step D)\<^sup>=\<^sup>= (ctx_host c) (ctx_host d)"
  by (erule ctl_stepE) (use run_link_simulates run_actor_simulates run_provider_simulates in blast)+

interpretation ctl_sys:
  transition_system initial_ctx "ctl_step D" "\<lambda>c. system_inv D (ctx_host c)" for D :: digest
proof
  show "system_inv D (ctx_host c)" if "initial_ctx c" for c
    using that host_sys.initial_inv by (simp add: initial_ctx_def)
  show "system_inv D (ctx_host d)" if "system_inv D (ctx_host c)" "ctl_step D c d" for c d
    using that ctl_step_simulates [of D c d] host_step_inv by auto
qed

lemma ctl_steps_simulate: "(ctl_step D)\<^sup>*\<^sup>* c d \<Longrightarrow> (host_step D)\<^sup>*\<^sup>* (ctx_host c) (ctx_host d)"
proof (induction rule: rtranclp_induct)
  case (step d e)
  then show ?case
    using ctl_step_simulates [OF step(2)] by (auto intro: rtranclp.rtrancl_into_rtrancl)
qed simp

end
