(* ===== verification/Kasm_Controller_Props.thy ===== *)
theory Kasm_Controller_Props
  imports Kasm_Controller Kasm_Samples
begin

text \<open>
  Properties of the controllers: the last event of an actor decides what runs, a link is registered
  exactly while some resource refers to it (as long as the network works), a patched status settles,
  and how a link is lost when a deletion fails. The names of hosts and the links are followed through events of
  every kind.
\<close>

section \<open>Healthy runs\<close>

text \<open>Link events handled while encoding and publishing work, for links in \<open>L\<close>.\<close>

definition healthy :: "link_ext \<Rightarrow> bool" where
  "healthy X \<longleftrightarrow> (\<forall>ld. is_ok (encode_ld X ld)) \<and> (\<forall>t p. is_ok (nats_publish X t p))"

inductive ctl_run :: "digest \<Rightarrow> link_definition set \<Rightarrow> ctx \<Rightarrow> ctx \<Rightarrow> bool"
  for D :: digest and L :: "link_definition set" where
  apply_link: "cx_digest X = D \<Longrightarrow> healthy (cx_link X) \<Longrightarrow>
    (\<And>ld. resolve_link X r = Inr ld \<Longrightarrow> ld \<in> L) \<Longrightarrow> ctl_run D L c (snd (run_link X (Apply r) c))"
| cleanup_link: "cx_digest X = D \<Longrightarrow> healthy (cx_link X) \<Longrightarrow>
    ctl_run D L c (snd (run_link X (Cleanup r) c))"
| actor_event: "ctl_run D L c (snd (run_actor X ae c))"
| provider_event: "ctl_run D L c (snd (run_provider X pe c))"

definition mirrored :: "digest \<Rightarrow> link_definition set \<Rightarrow> ctx \<Rightarrow> bool" where
  "mirrored D L c \<longleftrightarrow> mirror L reg_of (ld_hash D) (ctx_links c) (ctx_host c)"

lemma mirrored_cong:
  "links (ctx_host d) = links (ctx_host c) \<Longrightarrow> ctx_links d = ctx_links c \<Longrightarrow> mirrored D L d = mirrored D L c"
  by (simp add: mirrored_def mirror_def)

lemma healthy_add: "healthy X \<Longrightarrow> is_ok (fst (add_linkdef D X ld s))"
  by (cases "hm_get (links s) (ld_hash D ld)")
    (auto simp: healthy_def add_linkdef_vacant add_linkdef_occupied is_ok_def split: sum.splits)

lemma healthy_delete:
  "healthy X \<Longrightarrow> hm_get (links s) (ld_hash D ld) \<noteq> None \<Longrightarrow> is_ok (fst (delete_linkdef D X ld s))"
  by (auto simp: healthy_def delete_linkdef_occupied is_ok_def split: sum.splits)

lemma healthy_register:
  assumes "healthy X"
  shows "is_ok (fst (register_link (add_linkdef D X) nm ld (tbl, s)))"
  using healthy_add [OF assms, of D ld s]
  by (auto simp: register_link_def is_ok_def split: option.splits prod.splits sum.splits)

lemma healthy_release:
  assumes "healthy X" "mirror L reg_of (ld_hash D) tbl s"
  shows "is_ok (fst (release_link (delete_linkdef D X) nm j (tbl, s)))"
proof (cases "hm_get tbl j")
  case None
  then show ?thesis by (simp add: release_link_def)
next
  case (Some e)
  then obtain ld refs where got: "hm_get tbl j = Some (ld, refs)" by (cases e) simp
  have "is_ok (fst (delete_linkdef D X ld s))"
    using mirrorD(4) [OF assms(2) got] by (intro healthy_delete [OF assms(1)]) simp
  then show ?thesis
    by (cases "refs - {nm} = {}")
      (auto simp: release_link_last [OF got] release_link_shared [OF got] simp del: Diff_eq_empty_iff
        split: prod.split sum.split)
qed

lemma add_link_mirrored:
  assumes m: "mirrored D L c" and sep: "separate (ld_hash D) L" and X: "cx_digest X = D" "healthy (cx_link X)"
    and L: "\<And>ld. resolve_link X r = Inr ld \<Longrightarrow> ld \<in> L"
  shows "mirrored D L (snd (ctl_add_link X r c))"
proof (cases "resolve_link X r")
  case (Inl a)
  with m show ?thesis by (simp add: ctl_add_link_def)
next
  case (Inr ld)
  let ?R = "register_link (add_linkdef D (cx_link X)) (l_name r) ld (ctx_links c, ctx_host c)"
  obtain q tbl s where q: "?R = (q, tbl, s)" by (cases ?R) auto
  obtain u where u: "q = Inr u"
    using healthy_register [OF X(2), of D "l_name r" ld "ctx_links c" "ctx_host c"] q by (cases q) auto
  have "mirror L reg_of (ld_hash D) tbl s"
    using host_links.register_mirror [OF m [unfolded mirrored_def] sep L [OF Inr] q [unfolded u]] .
  then show ?thesis
    using Inr q u X by (simp add: ctl_add_link_def mirrored_def Let_def)
qed

lemma delete_link_mirrored:
  assumes m: "mirrored D L c" and X: "cx_digest X = D" "healthy (cx_link X)"
  shows "mirrored D L (snd (ctl_delete_link X r c))"
proof (cases "l_status r")
  case None
  with m show ?thesis by (simp add: ctl_delete_link_def)
next
  case (Some st)
  let ?R = "release_link (delete_linkdef D (cx_link X)) (l_name r) (link_status_id (l_spec r) st)
    (ctx_links c, ctx_host c)"
  obtain q tbl s where q: "?R = (q, tbl, s)" by (cases ?R) auto
  obtain u where u: "q = Inr u"
    using healthy_release [OF X(2) m [unfolded mirrored_def], of "l_name r" "link_status_id (l_spec r) st"] q
    by (cases q) auto
  have "mirror L reg_of (ld_hash D) tbl s"
    using host_links.release_mirror [OF m [unfolded mirrored_def] q [unfolded u]] .
  then show ?thesis
    using Some q u X m by (simp add: ctl_delete_link_def mirrored_def Let_def)
qed

text \<open>Actor and provider events leave the link registry alone.\<close>

lemma start_provider_links: "links (snd (start_provider X l r s)) = links s"
proof -
  have *: "links (snd (launch X path dat s)) = links s" for path dat s
  proof (cases "is_ok (encode_host_data X dat) \<and> is_ok (spawn_command X path)")
    case False
    then show ?thesis using launch_not_spawned [of X dat path s] by auto
  next
    case True
    then obtain p where p: "encode_host_data X dat = Inr p" "spawn_command X path = Inr ()"
      by (auto simp: is_ok_def split: sum.splits)
    show ?thesis unfolding launch_spawned [OF p] by (auto simp: drop_child_def split: sum.split)
  qed
  have **: "links (snd (provider_entry c r s)) = links s" for c
    by (simp add: provider_entry_def Let_def split: option.split)
  show ?thesis
    by (auto simp: start_provider_def Let_def split: sum.split prod.split option.split
        dest: arg_cong [where f = "\<lambda>x. links (snd x)"] simp flip: * **) (metis * ** snd_conv)+
qed

lemma stop_provider_links: "links (snd (stop_provider X l k s)) = links s"
  using stop_provider_actor_part [of X l k s] by (simp add: actor_part_def)

lemma ctl_links_frames:
  "ctx_links (snd (ctl_reconcile_actor X r c)) = ctx_links c"
  "ctx_links (snd (ctl_delete_actor r c)) = ctx_links c"
  "ctx_links (snd (ctl_reconcile_provider X p c)) = ctx_links c"
  "ctx_links (snd (ctl_delete_provider X p c)) = ctx_links c"
  by (simp_all add: ctl_reconcile_actor_def ctl_delete_actor_def ctl_reconcile_provider_def
      ctl_delete_provider_def Let_def split: prod.split sum.split option.split)

lemma run_actor_links:
  "links (ctx_host (snd (run_actor X ev c))) = links (ctx_host c)" "ctx_links (snd (run_actor X ev c)) = ctx_links c"
  by (auto simp: run_actor_def Let_def case_prod_beta ctl_links_frames ctl_reconcile_actor_host
      ctl_delete_actor_host reconcile_actor_links remove_actor_links split: finalizer_event.split)

lemma run_provider_links:
  "links (ctx_host (snd (run_provider X pe c))) = links (ctx_host c)" "ctx_links (snd (run_provider X pe c)) = ctx_links c"
  by (auto simp: run_provider_def Let_def ctl_links_frames ctl_reconcile_provider_host
      ctl_delete_provider_host start_provider_links stop_provider_links
      split: finalizer_event.split option.split)

lemma run_actor_mirrored: "mirrored D L (snd (run_actor X ev c)) = mirrored D L c"
  by (rule mirrored_cong [OF run_actor_links])

lemma run_provider_mirrored: "mirrored D L (snd (run_provider X pe c)) = mirrored D L c"
  by (rule mirrored_cong [OF run_provider_links])

lemma ctl_run_mirrored:
  assumes "mirrored D L c" "separate (ld_hash D) L" "ctl_run D L c d"
  shows "mirrored D L d"
  using assms(3)
proof cases
  case (apply_link X r)
  with assms show ?thesis by (simp add: run_link_def add_link_mirrored)
next
  case (cleanup_link X r)
  with assms show ?thesis by (simp add: run_link_def delete_link_mirrored)
qed (simp_all add: assms run_actor_mirrored run_provider_mirrored)

lemma ctl_run_step: "ctl_run D L c d \<Longrightarrow> ctl_step D c d"
  by (erule ctl_run.cases) (auto intro: ctl_step.intros)

lemma initial_mirrored: "initial_ctx c \<Longrightarrow> mirrored D L c"
  by (auto simp: initial_ctx_def initial_host_def mirrored_def mirror_def host_new_empty(1))

text \<open>The healthy runs as a transition system of their own, whose invariant is the mirror.\<close>

interpretation ctl_healthy: transition_system initial_ctx
  "\<lambda>c d. separate (ld_hash D) L \<and> ctl_run D L c d" "mirrored D L" for D :: digest and L
  by unfold_locales (auto intro: initial_mirrored ctl_run_mirrored)

lemma ctl_run_reachable:
  assumes "initial_ctx c" "separate (ld_hash D) L" "(ctl_run D L)\<^sup>*\<^sup>* c d"
  shows "mirrored D L d" "system_inv D (ctx_host d)"
proof -
  have "(\<lambda>c d. separate (ld_hash D) L \<and> ctl_run D L c d)\<^sup>*\<^sup>* c d"
    using assms(3,2) by (simp add: mono_rtranclp)
  then show "mirrored D L d" using ctl_healthy.reachable_inv assms(1) by blast
  have "(ctl_step D)\<^sup>*\<^sup>* c d"
    using assms(3) ctl_run_step by (metis mono_rtranclp)
  then show "system_inv D (ctx_host d)" using ctl_sys.reachable_inv assms(1) by blast
qed

text \<open>A mirrored link is visible to its actor.\<close>

lemma referenced_linked:
  assumes "initial_ctx c" "(ctl_run D L)\<^sup>*\<^sup>* c d"
    and "separate (ld_hash D) L" "ld \<in> L"
    and "\<forall>ld1 \<in> L. \<forall>ld2 \<in> L. link_id ld1 = link_id ld2 \<longrightarrow>
      link_matches (ld_actor_id ld1) (ld_contract_id ld1) (ld_link_name ld1) ld2"
  shows "linked (ctx_host d) (ld_actor_id ld) (ld_contract_id ld) (ld_link_name ld) \<noteq> None \<longleftrightarrow>
    refs_of (ctx_links d) (link_id ld) \<noteq> {}"
proof -
  note m = ctl_run_reachable(1) [OF assms(1,3,2), unfolded mirrored_def]
  have wf: "links_wf D (ctx_host d)"
    using ctl_run_reachable(2) [OF assms(1,3,2)] by (simp add: system_inv_def host_invD)
  show ?thesis by (rule mirror_linked [OF m wf assms(3-5)])
qed

section \<open>A link the host has lost\<close>

text \<open>Events of every kind, whatever their outcome, for links in \<open>L\<close>.\<close>

inductive ctl_event :: "digest \<Rightarrow> link_definition set \<Rightarrow> ctx \<Rightarrow> ctx \<Rightarrow> bool"
  for D :: digest and L :: "link_definition set" where
  apply_any: "cx_digest X = D \<Longrightarrow> (\<And>ld. resolve_link X r = Inr ld \<Longrightarrow> ld \<in> L) \<Longrightarrow>
    ctl_event D L c (snd (run_link X (Apply r) c))"
| cleanup_any: "cx_digest X = D \<Longrightarrow> ctl_event D L c (snd (run_link X (Cleanup r) c))"
| actor_any: "ctl_event D L c (snd (run_actor X ae c))"
| provider_any: "ctl_event D L c (snd (run_provider X pe c))"

lemma ctl_event_step: "ctl_event D L c d \<Longrightarrow> ctl_step D c d"
  by (erule ctl_event.cases) (auto intro: ctl_step.intros)

lemma ctl_events_steps: "(ctl_event D L)\<^sup>*\<^sup>* c d \<Longrightarrow> (ctl_step D)\<^sup>*\<^sup>* c d"
  using ctl_event_step by (metis mono_rtranclp)

definition lost_link :: "digest \<Rightarrow> link_definition set \<Rightarrow> link_definition \<Rightarrow> ctx \<Rightarrow> bool" where
  "lost_link D L ld c \<longleftrightarrow> stranded L reg_of (ld_hash D) ld (ctx_links c) (ctx_host c)"

lemma lost_link_cong:
  "links (ctx_host d) = links (ctx_host c) \<Longrightarrow> ctx_links d = ctx_links c \<Longrightarrow> lost_link D L ld d = lost_link D L ld c"
  by (simp add: lost_link_def stranded_def)

lemma ctl_event_lost:
  assumes "ctl_event D L c d" "separate (ld_hash D) L" "lost_link D L ld c"
  shows "lost_link D L ld d"
  using assms(1)
proof cases
  case (apply_any X r)
  show ?thesis
  proof (cases "resolve_link X r")
    case (Inl a)
    with apply_any assms(3) show ?thesis by (simp add: run_link_def ctl_add_link_def)
  next
    case (Inr ld')
    obtain q tbl s where q: "register_link (add_linkdef D (cx_link X)) (l_name r) ld' (ctx_links c, ctx_host c) = (q, tbl, s)"
      by (cases "register_link (add_linkdef D (cx_link X)) (l_name r) ld' (ctx_links c, ctx_host c)") auto
    have "stranded L reg_of (ld_hash D) ld tbl s"
      using host_links.register_stranded [OF assms(3) [unfolded lost_link_def] assms(2) _ q] apply_any(3) [OF Inr] by blast
    with Inr q apply_any show ?thesis
      by (cases q) (simp_all add: run_link_def ctl_add_link_def lost_link_def Let_def)
  qed
next
  case (cleanup_any X r)
  show ?thesis
  proof (cases "l_status r")
    case None
    with cleanup_any assms(3) show ?thesis by (simp add: run_link_def ctl_delete_link_def)
  next
    case (Some st)
    let ?R = "release_link (delete_linkdef D (cx_link X)) (l_name r) (link_status_id (l_spec r) st) (ctx_links c, ctx_host c)"
    obtain q tbl s where q: "?R = (q, tbl, s)" by (cases ?R) auto
    have "stranded L reg_of (ld_hash D) ld tbl s"
      using host_links.release_stranded [OF assms(3) [unfolded lost_link_def] assms(2) q] .
    with Some q cleanup_any assms(3) show ?thesis
      by (cases q) (simp_all add: run_link_def ctl_delete_link_def lost_link_def Let_def)
  qed
next
  case (actor_any X ae)
  then show ?thesis
    using assms(3) lost_link_cong [OF run_actor_links [of X ae c]] by simp
next
  case (provider_any X pe)
  then show ?thesis
    using assms(3) lost_link_cong [OF run_provider_links [of X pe c]] by simp
qed

lemma ctl_events_lost:
  assumes "(ctl_event D L)\<^sup>*\<^sup>* c d" "separate (ld_hash D) L" "lost_link D L ld c"
  shows "lost_link D L ld d"
  using assms(1)
  by (induction rule: rtranclp_induct) (use assms(2,3) ctl_event_lost in blast)+

lemma lost_link_unlinked:
  assumes "lost_link D L ld c" "system_inv D (ctx_host c)"
  shows "\<exists>ld' refs. hm_get (ctx_links c) (link_id ld) = Some (ld', refs) \<and> link_id ld' = link_id ld \<and>
    hm_get (links (ctx_host c)) (ld_hash D ld') = None \<and>
    linked (ctx_host c) (ld_actor_id ld') (ld_contract_id ld') (ld_link_name ld') = None"
proof -
  have "links_wf D (ctx_host c)" using assms(2) by (simp add: system_inv_def host_invD)
  then have "linked (ctx_host c) (ld_actor_id ld) (ld_contract_id ld) (ld_link_name ld) = None"
    using assms(1) by (simp add: linked_lookup lost_link_def stranded_def flip: ld_hash_def)
  with assms(1) show ?thesis by (auto simp: lost_link_def stranded_def)
qed

lemma lost_link_add:
  assumes "lost_link D L ld c" "resolve_link X r = Inr ld'" "link_id ld' = link_id ld"
  shows "fst (ctl_add_link X r c) = Await_change \<and> ctx_host (snd (ctl_add_link X r c)) = ctx_host c \<and>
    refs_of (ctx_links (snd (ctl_add_link X r c))) (link_id ld) = insert (l_name r) (refs_of (ctx_links c) (link_id ld))"
proof -
  obtain refs where got: "hm_get (ctx_links c) (link_id ld) = Some (ld, refs)"
    and reg: "register_link (add_linkdef (cx_digest X) (cx_link X)) (l_name r) ld' (ctx_links c, ctx_host c) =
      (Inr (), hm_insert (link_id ld) (ld, insert (l_name r) refs) (ctx_links c), ctx_host c)"
    using assms(1,3) by (auto simp: lost_link_def stranded_def register_link_def)
  then show ?thesis
    using assms(2) by (simp add: ctl_add_link_def Let_def refs_of_def)
qed

lemma lost_link_delete:
  assumes "lost_link D L ld c" "cx_digest X = D" "l_status r = Some st" "status_complete st"
    and "link_status_id (l_spec r) st = link_id ld"
  shows "ctx_host (snd (ctl_delete_link X r c)) = ctx_host c \<and>
    fst (ctl_delete_link X r c) = (if refs_of (ctx_links c) (link_id ld) \<subseteq> {l_name r} then Requeue 10 else Await_change)"
proof -
  let ?R = "release_link (delete_linkdef D (cx_link X)) (l_name r) (link_id ld) (ctx_links c, ctx_host c)"
  obtain q tbl s where q: "?R = (q, tbl, s)" by (cases ?R) auto
  have "is_ok q \<longleftrightarrow> \<not> refs_of (ctx_links c) (link_id ld) \<subseteq> {l_name r}" "s = ctx_host c"
    using host_links.stranded_release [OF assms(1) [unfolded lost_link_def], of "cx_link X" "l_name r"] by (simp_all add: q)
  then show ?thesis
    using assms(2-5) q by (cases q) (simp_all add: ctl_delete_link_def Let_def)
qed

section \<open>A host keeps its name\<close>

lemma name_frames [simp, host_frames]:
  "name (emit es s) = name s"
  "name (update_table k f s) = name s"
  "name (set_actor k n a s) = name s"
  "name (spawn_tasks tp m s) = name s"
  "name (with_targets s) = name s"
  "name (abort_calls xs s) = name s"
  "name (bind_name n k s) = name s"
  "name (drop_child c s) = name s"
  "name (request_shutdown Y k l s) = name s"
  by (simp_all add: emit_def update_table_def set_actor_def spawn_tasks_def with_targets_def abort_calls_def
      bind_name_def drop_child_def request_shutdown_def split: option.split sum.split)

lemma scale_actor_name:
  assumes "rt_claims act = Some claims"
  shows "name (snd (scale_actor X act claims n r m g s)) = name s"
proof (cases "hm_get (ag_actors g) n")
  case None
  show ?thesis by (rule scale_absent_cases [OF assms None, of m X r s]) simp_all
next
  case (Some a)
  show ?thesis by (rule scale_present_cases [OF Some, of m X act claims r s]) simp_all
qed

lemma group_entry_name: "group_entry k s = (g, t) \<Longrightarrow> name t = name s"
  by (auto simp: group_entry_def Let_def split: option.splits)

lemma provider_entry_name: "provider_entry c r s = (p, t) \<Longrightarrow> name t = name s"
  by (auto simp: provider_entry_def Let_def split: option.splits)

lemma reconcile_actor_name: "name (snd (reconcile_actor X n r m s)) = name s"
  by (rule reconcile_actor_cases [of X n r m s])
    (auto simp: fetched_def scale_actor_name dest: group_entry_name)

lemma start_provider_name: "name (snd (start_provider X l r s)) = name s"
proof -
  have *: "name (snd (launch X path dat s)) = name s" for path dat s
  proof (cases "is_ok (encode_host_data X dat) \<and> is_ok (spawn_command X path)")
    case False
    then show ?thesis using launch_not_spawned [of X dat path s] by auto
  next
    case True
    then obtain p where p: "encode_host_data X dat = Inr p" "spawn_command X path = Inr ()"
      by (auto simp: is_ok_def split: sum.splits)
    show ?thesis unfolding launch_spawned [OF p] by (auto simp: drop_child_def split: sum.split)
  qed
  have **: "name (snd (provider_entry c r s)) = name s" for c
    by (simp add: provider_entry_def Let_def split: option.split)
  show ?thesis
    by (auto simp: start_provider_def Let_def split: sum.split prod.split option.split
        dest: arg_cong [where f = "\<lambda>x. name (snd x)"] simp flip: * **) (metis * ** snd_conv)+
qed

lemma host_step_name:
  assumes "system_inv D s" "host_step D s t"
  shows "name t = name s"
  using assms(2)
proof cases
  case (add_link X ld)
  then show ?thesis by (rule_tac add_linkdef_snd [of s D ld X]) (simp_all add: link_put_def)
next
  case (delete_link X ld)
  then show ?thesis by (rule_tac delete_linkdef_snd [of s D ld X]) (simp_all add: link_drop_def)
next
  case (reconcile Y n r m)
  then show ?thesis by (simp add: reconcile_actor_name)
next
  case (remove n)
  then show ?thesis
    by (cases "hm_get (actor_keys s) n") (simp_all add: remove_actor_unbound remove_actor_bound)
next
  case (start Z l r)
  have "\<forall>c \<in> set (children s). c < next_child s"
    using assms(1) providers_invD(4) [of s] by (simp add: system_inv_def)
  then show ?thesis
    unfolding start by (rule start_provider_cases [of s Z l r]) (auto dest: provider_entry_name)
next
  case (stop Z l k)
  then show ?thesis by (simp add: stop_provider_eq split: option.split)
next
  case (retarget tgt ifaces hdl)
  then show ?thesis by (simp add: set_target_def Let_def)
qed

lemma ctl_steps_name:
  assumes "(ctl_step D)\<^sup>*\<^sup>* c d" "system_inv D (ctx_host c)"
  shows "name (ctx_host d) = name (ctx_host c)"
  using assms
proof (induction rule: rtranclp_induct)
  case (step d e)
  have "system_inv D (ctx_host d)" by (rule ctl_sys.steps_inv [OF step.hyps(1) step.prems])
  with step ctl_step_simulates [OF step.hyps(2)] show ?case by (auto dest: host_step_name)
qed simp

section \<open>Events of other resources\<close>

text \<open>Every event but those of the \<^verbatim>\<open>Actor\<close> resource \<open>n\<close>.\<close>

inductive other_event :: "digest \<Rightarrow> string \<Rightarrow> ctx \<Rightarrow> ctx \<Rightarrow> bool" for D :: digest and n :: string where
  other_link: "cx_digest X = D \<Longrightarrow> other_event D n c (snd (run_link X le c))"
| other_actor: "a_name (case ae of Apply r \<Rightarrow> r | Cleanup r \<Rightarrow> r) \<noteq> n \<Longrightarrow> other_event D n c (snd (run_actor X ae c))"
| other_provider: "other_event D n c (snd (run_provider X pe c))"

lemma other_event_step: "other_event D n c d \<Longrightarrow> ctl_step D c d"
  by (erule other_event.cases) (auto intro: ctl_step.intros)

lemma reconcile_actor_other:
  assumes "n' \<noteq> n"
  shows "instances_at (snd (reconcile_actor X n r m s)) k n' = instances_at s k n'"
proof (cases "reconcile_actor X n r m s")
  case (Pair q t)
  show ?thesis
  proof (cases q)
    case (Inl e)
    from Pair [unfolded Inl] show ?thesis by (rule reconcile_actor_err) (simp_all add: Pair)
  next
    case (Inr claims)
    from Pair [unfolded Inr] show ?thesis by (rule reconcile_actor_ok) (use assms in \<open>simp add: Pair\<close>)
  qed
qed

lemma operation_instances:
  "instances_at (snd (add_linkdef D X ld s)) = instances_at s"
  "instances_at (snd (delete_linkdef D X ld s)) = instances_at s"
  "instances_at (snd (stop_provider Z l k s)) = instances_at s"
  "providers_inv s \<Longrightarrow> instances_at (snd (start_provider Z l r s)) = instances_at s"
  using add_linkdef_running_part [of D X ld s] delete_linkdef_running_part [of D X ld s]
    stop_provider_actor_part [of Z l k s] start_provider_actor_part [of s Z l r]
  by (auto simp: running_part_def actor_part_def intro!: instances_at_cong)

lemma run_link_instances: "instances_at (ctx_host (snd (run_link X le c))) = instances_at (ctx_host c)"
proof -
  have reg: "instances_at (snd (snd (register_link (add_linkdef D (cx_link X)) nm ld (tbl, s)))) = instances_at s"
    for D nm ld tbl s
    using register_link_state [of "add_linkdef D (cx_link X)" nm ld tbl s] by (auto simp: operation_instances)
  have rel: "instances_at (snd (snd (release_link (delete_linkdef D (cx_link X)) nm i (tbl, s)))) = instances_at s"
    for D nm i tbl s
    by (rule release_link_state [of "delete_linkdef D (cx_link X)" nm i tbl s]) (simp_all add: operation_instances)
  show ?thesis
    by (cases le) (simp_all add: run_link_def ctl_add_link_host ctl_delete_link_host reg rel split: sum.split option.split)
qed

lemma other_event_instances:
  assumes "other_event D n c d" "system_inv D (ctx_host c)"
  shows "instances_at (ctx_host d) k n = instances_at (ctx_host c) k n"
  using assms(1)
proof cases
  case (other_link X le)
  then show ?thesis by (simp add: run_link_instances)
next
  case (other_actor ae X)
  then show ?thesis
    by (cases ae)
      (auto simp: run_actor_def case_prod_beta ctl_reconcile_actor_host ctl_delete_actor_host
        reconcile_actor_other remove_actor_instances)
next
  case (other_provider X pe)
  then show ?thesis
    using assms(2) by (cases pe)
      (auto simp: run_provider_def ctl_reconcile_provider_host ctl_delete_provider_host operation_instances
        system_inv_def split: option.split)
qed

lemma other_events_instances:
  assumes "(other_event D n)\<^sup>*\<^sup>* c d" "system_inv D (ctx_host c)"
  shows "instances_at (ctx_host d) k n = instances_at (ctx_host c) k n"
  using assms(1)
proof (induction rule: rtranclp_induct)
  case (step d e)
  have "(ctl_step D)\<^sup>*\<^sup>* c d" using step.hyps(1) other_event_step by (metis mono_rtranclp)
  then have "system_inv D (ctx_host d)" by (rule ctl_sys.steps_inv [OF _ assms(2)])
  with other_event_instances [OF step.hyps(2)] step.IH show ?case by simp
qed simp

section \<open>Sample resources\<close>

definition echo_resource :: "32 word \<Rightarrow> actor_resource" where
  "echo_resource w = \<lparr>a_name = ''echo-default'',
     a_spec = \<lparr>as_host = ''default'', as_image = ''echo:0.3.8'', as_replicas = w\<rparr>, a_status = None\<rparr>"

definition http_link :: link_resource where
  "http_link = \<lparr>l_name = ''httpserver-echo'',
     l_spec = \<lparr>ls_link_name = ''test'', ls_provider = \<lparr>src_key = ''VHTTP'', src_name = []\<rparr>,
       ls_actor = \<lparr>src_key = ''MECHO'', src_name = []\<rparr>, ls_contract_id = ''wasmcloud:httpserver'',
       ls_values = [(''address'', ''0.0.0.0:8080'')]\<rparr>,
     l_status = None\<rparr>"

definition sample_ctl :: "link_ext \<Rightarrow> ctl_ext" where
  "sample_ctl lx = \<lparr>cx_get_actor = (\<lambda>_. Inl (Msg ''not found'')),
     cx_get_provider = (\<lambda>_. Inl (Msg ''not found'')),
     cx_default_ld = \<lparr>ld_actor_id = [], ld_provider_id = [], ld_link_name = [], ld_contract_id = [], ld_values = []\<rparr>,
     cx_digest = sample_digest, cx_link = lx, cx_actor = echo_ext, cx_provider = http_ext,
     cx_status = \<lparr>timestamp_opt = Some, min_utc = 0, node_name = ''node-1''\<rparr>\<rparr>"

definition sample_ctx :: ctx where
  "sample_ctx = \<lparr>ctx_host = sample_host, ctx_links = [], ctx_patches = []\<rparr>"

lemma sample_ctl_simps [simp]:
  "cx_digest (sample_ctl lx) = sample_digest" "cx_link (sample_ctl lx) = lx"
  "cx_actor (sample_ctl lx) = echo_ext"
  by (simp_all add: sample_ctl_def)

lemma sample_ctx_initial: "initial_ctx sample_ctx"
  by (simp add: initial_ctx_def sample_ctx_def sample_initial)

lemma http_link_resolves: "resolve_link (sample_ctl lx) (http_link\<lparr>l_status := None\<rparr>) = Inr echo_ld"
  by (simp add: resolve_link_def link_of_spec_def link_of_status_def resolve_actor_def
      resolve_provider_def http_link_def sample_ctl_def echo_ld_def)

lemma http_link_none [simp]: "http_link\<lparr>l_status := None\<rparr> = http_link"
  by (simp add: http_link_def)

lemma link_up_healthy: "healthy link_up"
  by (simp add: healthy_def link_up_def)

text \<open>The sample link registered.\<close>

definition linked_ctx :: ctx where
  "linked_ctx = snd (ctl_add_link (sample_ctl link_up) http_link sample_ctx)"

lemma linked_ctx_run: "ctl_run sample_digest {echo_ld} sample_ctx linked_ctx"
  unfolding linked_ctx_def
  using ctl_run.apply_link [of "sample_ctl link_up" sample_digest http_link "{echo_ld}" sample_ctx]
    http_link_resolves [of link_up]
  by (simp add: run_link_def link_up_healthy)

lemma linked_ctx_fields:
  "ctx_links linked_ctx = [(link_id echo_ld, echo_ld, {''httpserver-echo''})]"
  "ctx_host linked_ctx = snd (add_linkdef sample_digest link_up echo_ld sample_host)"
proof -
  have vac: "hm_get (links sample_host) (ld_hash sample_digest echo_ld) = None"
    by (simp add: sample_defs)
  obtain s where s: "add_linkdef sample_digest link_up echo_ld sample_host = (Inr (), s)"
    by (simp add: add_linkdef_vacant [OF vac]) (simp add: link_up_def)
  have "register_link (add_linkdef sample_digest link_up) ''httpserver-echo'' echo_ld ([], sample_host) =
      (Inr (), [(link_id echo_ld, echo_ld, {''httpserver-echo''})], s)"
    by (simp add: register_link_def s)
  moreover have "l_name http_link = ''httpserver-echo''" by (simp add: http_link_def)
  ultimately have eq: "linked_ctx = send_patch (Patch_link ''httpserver-echo'' (link_status_of echo_ld))
      (sample_ctx\<lparr>ctx_host := s, ctx_links := [(link_id echo_ld, echo_ld, {''httpserver-echo''})]\<rparr>)"
    using http_link_resolves [of link_up]
    by (simp add: linked_ctx_def ctl_add_link_def) (simp add: sample_ctx_def http_link_def Let_def)
  show "ctx_links linked_ctx = [(link_id echo_ld, echo_ld, {''httpserver-echo''})]"
    "ctx_host linked_ctx = snd (add_linkdef sample_digest link_up echo_ld sample_host)"
    unfolding eq using s by simp_all
qed

lemma sample_separate: "separate (ld_hash sample_digest) {echo_ld}"
  by (simp add: separate_def)

text \<open>What a link that is resolved consists of.\<close>

lemma resolve_link_parts:
  assumes "resolve_link X r = Inr ld"
  obtains ld1 where "link_of_spec X (l_spec r) = Inr ld1"
    "\<And>a p l. ld\<lparr>ld_actor_id := a, ld_provider_id := p, ld_link_name := l\<rparr> =
       ld1\<lparr>ld_actor_id := a, ld_provider_id := p, ld_link_name := l\<rparr>"
    "ld_actor_id ld \<noteq> []" "ld_provider_id ld \<noteq> []" "ld_contract_id ld = ls_contract_id (l_spec r)"
    "ld_values ld = ls_values (l_spec r)"
proof -
  obtain ld1 ld2 where 1: "link_of_spec X (l_spec r) = Inr ld1"
    and 2: "resolve_actor X (l_spec r) (link_of_status (l_status r) ld1) = Inr ld2"
    and 3: "resolve_provider X (l_spec r) ld2 = Inr ld"
    using assms(1) by (auto simp: resolve_link_def split: sum.splits)
  have spec: "ld_contract_id ld1 = ls_contract_id (l_spec r)" "ld_values ld1 = ls_values (l_spec r)"
    using 1 by (auto simp: link_of_spec_def Let_def split: if_splits)
  have st: "ld_contract_id (link_of_status st ld1) = ld_contract_id ld1"
    "ld_values (link_of_status st ld1) = ld_values ld1" for st
    by (simp_all add: link_of_status_def split: option.split)
  have act: "ld_actor_id ld2 \<noteq> []" "ld_contract_id ld2 = ld_contract_id ld1" "ld_values ld2 = ld_values ld1"
    using 2 st by (auto simp: resolve_actor_def Let_def split: if_splits sum.splits option.splits)
  have "ld_actor_id ld = ld_actor_id ld2" "ld_provider_id ld \<noteq> []"
    "ld_contract_id ld = ld_contract_id ld2" "ld_values ld = ld_values ld2"
    using 3 by (auto simp: resolve_provider_def Let_def split: if_splits sum.splits option.splits)
  with 1 spec act that [of ld1] show ?thesis by simp
qed

section \<open>Properties\<close>

text \<open>
  C6. The last event of an \<^verbatim>\<open>Actor\<close> resource decides what runs. After the resource was applied in a reachable
  state, with a module that can be fetched, whose key the name is not bound away from, with a broker that accepts the
  subscriptions and a number of replicas that is not negative, there are exactly this number of instances
  under the module's key and none under another; if the module cannot be used, the instances stay what they were; and after
  it was cleaned up there is no instance under any key. Each holds for as long as only events of other
  resources follow, of links, providers and other actors, whatever their outcome.
\<close>

theorem last_event_decides_instances:
  assumes reach: "initial_ctx c0" "(ctl_step D)\<^sup>*\<^sup>* c0 c" and here: "as_host (a_spec r) = name (ctx_host c)"
    and after: "(other_event D (a_name r))\<^sup>*\<^sup>* (snd (run_actor X ev c)) d"
  shows "(ev = Apply r \<longrightarrow> fetched (cx_actor X) (as_image (a_spec r)) (ctx_host c) act claims \<longrightarrow>
      hm_get (actor_keys (ctx_host c)) (a_name r) \<in> {None, Some (subject claims)} \<longrightarrow>
      (\<forall>i topic. is_ok (queue_subscribe (cx_actor X) i topic)) \<longrightarrow> 0 \<le> sint (as_replicas (a_spec r)) \<longrightarrow>
      (\<forall>k. length (instances_at (ctx_host d) k (a_name r)) =
         (if k = subject claims then nat (sint (as_replicas (a_spec r))) else 0))) \<and>
    (ev = Apply r \<longrightarrow> (\<nexists>act claims. fetched (cx_actor X) (as_image (a_spec r)) (ctx_host c) act claims \<and>
        hm_get (actor_keys (ctx_host c)) (a_name r) \<in> {None, Some (subject claims)}) \<longrightarrow>
      (\<forall>k. instances_at (ctx_host d) k (a_name r) = instances_at (ctx_host c) k (a_name r))) \<and>
    (ev = Cleanup r \<longrightarrow> (\<forall>k. instances_at (ctx_host d) k (a_name r) = []))"
proof -
  let ?e = "snd (run_actor X ev c)" and ?n = "a_name r" and ?m = "i32_as_usize (as_replicas (a_spec r))"
  have inv: "system_inv D (ctx_host c)" "system_inv D (ctx_host ?e)"
    using ctl_sys.reachable_inv [OF reach] ctl_sys.reachable_inv [OF reach(1)] rtranclp.rtrancl_into_rtrancl [OF reach(2) ctl_step.actor_event]
    by blast+
  have keep: "instances_at (ctx_host d) k ?n = instances_at (ctx_host ?e) k ?n" for k
    by (rule other_events_instances [OF after inv(2)])
  have bound: "instances_at s k ?n = []" if "system_inv D s" "hm_get (actor_keys s) ?n \<noteq> Some k" for s k
    using that instances_at_bound [OF host_invD(5)] unfolding system_inv_def by blast
  have applied: "ctx_host ?e = snd (reconcile_actor (cx_actor X) ?n (as_image (a_spec r)) ?m (ctx_host c))" if "ev = Apply r"
    using that here by (simp add: run_actor_def case_prod_beta ctl_reconcile_actor_host)
  have 1: "length (instances_at (ctx_host d) k ?n) = (if k = subject claims then nat (sint (as_replicas (a_spec r))) else 0)"
    if ev: "ev = Apply r" and f: "fetched (cx_actor X) (as_image (a_spec r)) (ctx_host c) act claims"
      and key: "hm_get (actor_keys (ctx_host c)) ?n \<in> {None, Some (subject claims)}"
      and sub: "\<forall>i topic. is_ok (queue_subscribe (cx_actor X) i topic)" and pos: "0 \<le> sint (as_replicas (a_spec r))" for k
  proof -
    obtain s where s: "reconcile_actor (cx_actor X) ?n (as_image (a_spec r)) ?m (ctx_host c) = (Inr claims, s)"
      using reconcile_actor_succeeds [OF f key] sub by blast
    then have e: "ctx_host ?e = s" using applied [OF ev] by simp
    have "hm_get (actor_keys s) ?n = Some (subject claims)" by (rule reconcile_actor_ok [OF s])
    then show ?thesis
      using reconcile_actor_count [OF s] bound [of s k] inv(2) pos unfolding keep e
      by (auto simp: i32_as_usize_nonneg)
  qed
  have 2: "instances_at (ctx_host d) k ?n = instances_at (ctx_host c) k ?n"
    if ev: "ev = Apply r" and no: "\<nexists>act claims. fetched (cx_actor X) (as_image (a_spec r)) (ctx_host c) act claims \<and>
        hm_get (actor_keys (ctx_host c)) ?n \<in> {None, Some (subject claims)}" for k
    unfolding keep applied [OF ev]
    by (rule reconcile_actor_cases [of "cx_actor X" ?n "as_image (a_spec r)" ?m "ctx_host c"]) (use no in auto)
  have 3: "instances_at (ctx_host d) k ?n = []" if "ev = Cleanup r" for k
    using that here bound [OF inv(1), of k] unfolding keep
    by (auto simp: run_actor_def case_prod_beta ctl_delete_actor_host remove_actor_instances)
  from 1 2 3 show ?thesis by blast
qed

text \<open>Two echo instances, which a link event leaves alone; a host without the resource has none.\<close>

theorem last_event_decides_instances_witness:
  "\<exists>d e. (other_event sample_digest ''echo-default'')\<^sup>*\<^sup>* (snd (run_actor (sample_ctl link_up) (Apply (echo_resource 2)) sample_ctx)) d \<and>
     length (instances_at (ctx_host d) ''MECHO'' ''echo-default'') = 2 \<and>
     (other_event sample_digest ''echo-default'')\<^sup>*\<^sup>* (snd (run_actor (sample_ctl link_up) (Cleanup (echo_resource 2)) d)) e \<and>
     instances_at (ctx_host e) ''MECHO'' ''echo-default'' = []"
proof -
  let ?X = "sample_ctl link_up" and ?r = "echo_resource 2"
  let ?c = "snd (run_actor ?X (Apply ?r) sample_ctx)"
  let ?d = "snd (run_link ?X (Apply http_link) ?c)"
  let ?e = "snd (run_actor ?X (Cleanup ?r) ?d)"
  have r: "a_name ?r = ''echo-default''" "as_host (a_spec ?r) = name (ctx_host sample_ctx)" "0 \<le> sint (as_replicas (a_spec ?r))"
    "hm_get (actor_keys (ctx_host sample_ctx)) (a_name ?r) \<in> {None, Some (subject echo_claims)}"
    "\<forall>i topic. is_ok (queue_subscribe (cx_actor ?X) i topic)"
    "fetched (cx_actor ?X) (as_image (a_spec ?r)) (ctx_host sample_ctx) echo_module echo_claims"
    using echo_fetched echo_subscribes by (simp_all add: echo_resource_def sample_ctx_def sample_host_def)
  have d: "other_event sample_digest (a_name ?r) ?c ?d" by (rule other_event.other_link) simp
  then have two: "length (instances_at (ctx_host ?d) ''MECHO'' ''echo-default'') = 2"
    using last_event_decides_instances [OF sample_ctx_initial rtranclp.rtrancl_refl r(2) r_into_rtranclp,
        where ev = "Apply ?r" and X = ?X and act = echo_module and claims = echo_claims] r
    by (auto simp: echo_subject echo_resource_def)
  have steps: "(ctl_step sample_digest)\<^sup>*\<^sup>* sample_ctx ?d"
    by (rule rtranclp.rtrancl_into_rtrancl [OF rtranclp.rtrancl_into_rtrancl [OF rtranclp.rtrancl_refl]];
        rule ctl_step.actor_event ctl_step.link_event) simp
  have "as_host (a_spec ?r) = name (ctx_host ?d)"
    using ctl_steps_name [OF steps ctl_sys.initial_inv [OF sample_ctx_initial]] r(2) by simp
  then have "instances_at (ctx_host ?e) ''MECHO'' ''echo-default'' = []"
    using last_event_decides_instances [OF sample_ctx_initial steps _ rtranclp.rtrancl_refl, where r = ?r and ev = "Cleanup ?r" and X = ?X] r(1) by metis
  with d two r(1) show ?thesis by (metis r_into_rtranclp rtranclp.rtrancl_refl)
qed

text \<open>
  What \<^verbatim>\<open>add_link\<close> resolves is complete and stable: the definition keeps the contract and the
  values of the spec, names an actor and a provider, and when its link name is not empty, the status
  written for it makes every later event of the resource mean the same link, whatever the API server
  then answers. In particular the cleanup releases the identifier that was registered.
\<close>

theorem resolved_link_is_pinned:
  assumes "resolve_link X r = Inr ld" "cx_default_ld Y = cx_default_ld X"
  shows "ld_actor_id ld \<noteq> [] \<and> ld_provider_id ld \<noteq> [] \<and>
    ld_contract_id ld = ls_contract_id (l_spec r) \<and> ld_values ld = ls_values (l_spec r) \<and>
    link_status_id (l_spec r) (link_status_of ld) = link_id ld \<and>
    (ld_link_name ld \<noteq> [] \<longrightarrow>
       status_complete (link_status_of ld) \<and>
       resolve_link Y (r\<lparr>l_status := Some (link_status_of ld)\<rparr>) = Inr ld)"
proof (rule resolve_link_parts [OF assms(1)])
  fix ld1
  assume 1: "link_of_spec X (l_spec r) = Inr ld1"
    and eq: "\<And>a p l. ld\<lparr>ld_actor_id := a, ld_provider_id := p, ld_link_name := l\<rparr> =
      ld1\<lparr>ld_actor_id := a, ld_provider_id := p, ld_link_name := l\<rparr>"
    and f: "ld_actor_id ld \<noteq> []" "ld_provider_id ld \<noteq> []" "ld_contract_id ld = ls_contract_id (l_spec r)"
      "ld_values ld = ls_values (l_spec r)"
  have "resolve_link Y (r\<lparr>l_status := Some (link_status_of ld)\<rparr>) = Inr ld" "status_complete (link_status_of ld)"
    if ln: "ld_link_name ld \<noteq> []"
  proof -
    show c: "status_complete (link_status_of ld)"
      using ln f by (simp add: status_complete_def link_status_of_def)
    have "link_of_spec Y (l_spec r) = Inr ld1"
      using 1 assms(2) by (simp add: link_of_spec_def)
    moreover have "link_of_status (Some (link_status_of ld)) ld1 = ld"
      using c eq [where a = "ld_actor_id ld" and p = "ld_provider_id ld" and l = "ld_link_name ld"]
      by (simp add: link_of_status_def link_status_of_def)
    ultimately show "resolve_link Y (r\<lparr>l_status := Some (link_status_of ld)\<rparr>) = Inr ld"
      using ln f by (simp add: resolve_link_def resolve_actor_def resolve_provider_def)
  qed
  then show ?thesis
    using f by (simp add: link_status_id_def link_id_def link_status_of_def)
qed

theorem resolved_link_is_pinned_witness:
  "resolve_link (sample_ctl link_down) (http_link\<lparr>l_status := Some (link_status_of echo_ld)\<rparr>) = Inr echo_ld"
proof -
  have "cx_default_ld (sample_ctl link_down) = cx_default_ld (sample_ctl link_up)" "ld_link_name echo_ld \<noteq> []"
    by (simp_all add: sample_ctl_def echo_ld_def)
  with resolved_link_is_pinned [OF http_link_resolves [of link_up] this(1)] show ?thesis by simp
qed

text \<open>
  C40. When the host reports an error while the last reference is cleaned up, the link is lost for as long as the program
  runs. Whatever events follow, failing ones included, of links that the hash tells apart as the controller does: the table
  keeps an entry for the link, while the host has none, so its actor does not see it. Every resource that describes
  the link is accepted, counted as a reference, and the host is left as it is. And no cleanup gets rid of the entry: it
  leaves the host as it is, is done when another resource refers to the link, and is tried again in
  ten seconds when none does.
\<close>

theorem failed_cleanup_strands_link:
  assumes reach: "initial_ctx c0" "(ctl_run D L)\<^sup>*\<^sup>* c0 c" "separate (ld_hash D) L"
    and failed: "cx_digest X = D" "l_status r = Some st" "ctl_delete_link X r c = (Requeue 10, d)"
      "i = link_status_id (l_spec r) st"
    and later: "(ctl_event D L)\<^sup>*\<^sup>* d e"
  shows "(\<exists>ld refs. hm_get (ctx_links e) i = Some (ld, refs) \<and> link_id ld = i \<and>
      hm_get (links (ctx_host e)) (ld_hash D ld) = None \<and>
      linked (ctx_host e) (ld_actor_id ld) (ld_contract_id ld) (ld_link_name ld) = None) \<and>
    (\<forall>Y r' ld'. resolve_link Y r' = Inr ld' \<longrightarrow> link_id ld' = i \<longrightarrow>
      fst (ctl_add_link Y r' e) = Await_change \<and> ctx_host (snd (ctl_add_link Y r' e)) = ctx_host e \<and>
      refs_of (ctx_links (snd (ctl_add_link Y r' e))) i = insert (l_name r') (refs_of (ctx_links e) i)) \<and>
    (\<forall>Y r' st'. cx_digest Y = D \<longrightarrow> l_status r' = Some st' \<longrightarrow> status_complete st' \<longrightarrow> link_status_id (l_spec r') st' = i \<longrightarrow>
      ctx_host (snd (ctl_delete_link Y r' e)) = ctx_host e \<and>
      fst (ctl_delete_link Y r' e) = (if refs_of (ctx_links e) i \<subseteq> {l_name r'} then Requeue 10 else Await_change))"
proof -
  obtain err tbl s where rel: "release_link (delete_linkdef D (cx_link X)) (l_name r) i (ctx_links c, ctx_host c) = (Inl err, tbl, s)"
    and d: "d = c\<lparr>ctx_host := s, ctx_links := tbl\<rparr>"
    using failed by (auto simp: ctl_delete_link_def Let_def split: prod.splits sum.splits if_splits)
  note m = ctl_run_reachable [OF reach(1,3,2)]
  obtain ld where "stranded L reg_of (ld_hash D) ld tbl s" and i: "i = link_id ld"
    by (rule host_links.release_failed_stranded [OF m(1) [unfolded mirrored_def] rel])
  then have lost: "lost_link D L ld e"
    using ctl_events_lost [OF later reach(3)] by (simp add: lost_link_def d)
  have "ctl_step D c d"
    using ctl_step.link_event [of X D c "Cleanup r"] failed(1,3) by (simp add: run_link_def)
  then have inv: "system_inv D (ctx_host e)"
    using ctl_sys.steps_inv [OF ctl_events_steps [OF later]] ctl_sys.step_inv m(2) by blast
  show ?thesis
    using lost_link_unlinked [OF lost inv] lost_link_add [OF lost] lost_link_delete [OF lost] unfolding i by blast
qed

text \<open>
  The sample link, whose deletion could not be published: a new resource for it is accepted and does not get it back.
\<close>

theorem failed_cleanup_strands_link_witness:
  "\<exists>d. ctl_delete_link (sample_ctl link_down) (http_link\<lparr>l_status := Some (link_status_of echo_ld)\<rparr>) linked_ctx =
       (Requeue 10, d) \<and>
     (ctl_event sample_digest {echo_ld})\<^sup>*\<^sup>* d (snd (run_link (sample_ctl link_up) (Apply http_link) d)) \<and>
     (\<exists>ld. link_id ld = link_id echo_ld \<and>
        linked (ctx_host (snd (run_link (sample_ctl link_up) (Apply http_link) d)))
          (ld_actor_id ld) (ld_contract_id ld) (ld_link_name ld) = None)"
proof -
  let ?r = "http_link\<lparr>l_status := Some (link_status_of echo_ld)\<rparr>"
  let ?s = "ctx_host linked_ctx"
  have vac: "hm_get (links sample_host) (ld_hash sample_digest echo_ld) = None"
    by (simp add: sample_defs)
  have st: "status_complete (link_status_of echo_ld)" "l_name ?r = ''httpserver-echo''"
    "link_id echo_ld = link_status_id (l_spec ?r) (link_status_of echo_ld)"
    by (simp_all add: status_complete_def link_status_of_def link_status_id_def link_id_def echo_ld_def http_link_def)
  have got: "hm_get (links ?s) (ld_hash sample_digest echo_ld) = Some echo_ld"
    using add_linkdef_reg [of sample_digest link_up echo_ld sample_host] vac by (simp add: linked_ctx_fields)
  obtain e t where "delete_linkdef sample_digest link_down echo_ld ?s = (Inl e, t)"
    by (simp add: delete_linkdef_occupied [OF got]) (simp add: link_down_def)
  moreover have "hm_get (ctx_links linked_ctx) (link_id echo_ld) = Some (echo_ld, {''httpserver-echo''})"
    by (simp add: linked_ctx_fields hm_get_def)
  from release_link_last [OF this, of "''httpserver-echo''" "delete_linkdef sample_digest link_down" ?s]
  have "release_link (delete_linkdef sample_digest link_down) ''httpserver-echo'' (link_id echo_ld)
      (ctx_links linked_ctx, ?s) =
    (case delete_linkdef sample_digest link_down echo_ld ?s of
       (Inl e, t) \<Rightarrow> (Inl e, hm_insert (link_id echo_ld) (echo_ld, {}) (ctx_links linked_ctx), t)
     | (Inr _, t) \<Rightarrow> (Inr (), hm_remove (link_id echo_ld) (ctx_links linked_ctx), t))" by simp
  ultimately obtain d where d: "ctl_delete_link (sample_ctl link_down) ?r linked_ctx = (Requeue 10, d)"
    using st by (simp add: ctl_delete_link_def)
  have add: "ctl_event sample_digest {echo_ld} d (snd (run_link (sample_ctl link_up) (Apply http_link) d))"
    using http_link_resolves [of link_up] by (intro ctl_event.apply_any) simp_all
  have status: "l_status ?r = Some (link_status_of echo_ld)" by simp
  have run: "(ctl_run sample_digest {echo_ld})\<^sup>*\<^sup>* sample_ctx linked_ctx" using linked_ctx_run by blast
  have later: "(ctl_event sample_digest {echo_ld})\<^sup>*\<^sup>* d (snd (run_link (sample_ctl link_up) (Apply http_link) d))"
    using add by blast
  from failed_cleanup_strands_link [OF sample_ctx_initial run sample_separate _ status d st(3) later] later d
  show ?thesis by (metis sample_ctl_simps(1))
qed

text \<open>
  A provider whose link name is empty gives a link that is registered but whose status never counts
  as complete: cleaning up the resource does nothing, and the link stays.
\<close>

theorem empty_link_name_never_released:
  assumes "resolve_link X r = Inr ld" "ld_link_name ld = []"
  shows "ctl_delete_link Y (r\<lparr>l_status := Some (link_status_of ld)\<rparr>) c = (Await_change, c)"
  using assms by (simp add: ctl_delete_link_def status_complete_def link_status_of_def)

theorem empty_link_name_never_released_witness:
  "\<exists>X r ld. resolve_link X r = Inr ld \<and> ld_link_name ld = [] \<and>
     ctl_delete_link X (r\<lparr>l_status := Some (link_status_of ld)\<rparr>) linked_ctx = (Await_change, linked_ctx)"
proof -
  let ?r = "http_link\<lparr>l_spec := (l_spec http_link)\<lparr>ls_link_name := [],
      ls_provider := \<lparr>src_key = [], src_name = ''httpserver''\<rparr>\<rparr>\<rparr>"
  let ?X = "(sample_ctl link_up)\<lparr>cx_get_provider := (\<lambda>nm. Inr \<lparr>p_name = nm,
      p_spec = \<lparr>ps_host = ''default'', ps_image = ''httpserver:0.17.0'', ps_link = []\<rparr>,
      p_status = Some (provider_status_of (cx_status (sample_ctl link_up)) http_claims)\<rparr>)\<rparr>"
  have "subject http_claims = ''VHTTP''" by (simp add: http_claims_def)
  then obtain ld where ld: "resolve_link ?X ?r = Inr ld" "ld_link_name ld = []"
    by (simp add: resolve_link_def link_of_spec_def link_of_status_def resolve_actor_def
        resolve_provider_def http_link_def sample_ctl_def Let_def)
  from empty_link_name_never_released [OF ld, of ?X linked_ctx] ld show ?thesis by blast
qed

text \<open>
  Replicas: after a successful reconciliation the resource has as many instances as its spec
  asks for, if that is not negative; a negative number of replicas is read as a huge unsigned one.
  The status reports the number in the spec as available in both cases.
\<close>

theorem replicas_requested:
  assumes "reconcile_actor (cx_actor X) (a_name r) (as_image (a_spec r))
      (i32_as_usize (as_replicas (a_spec r))) (ctx_host c) = (Inr claims, s)"
    and "w = sint (as_replicas (a_spec r))"
  shows "ctx_host (snd (ctl_reconcile_actor X r c)) = s \<and>
    length (instances_at s (subject claims) (a_name r)) = nat (if 0 \<le> w then w else 2 ^ 64 + w) \<and>
    (w < 0 \<longrightarrow> 2 ^ 63 < length (instances_at s (subject claims) (a_name r))) \<and>
    ast_available_replicas (actor_status_of (cx_status X) (a_spec r) claims) = as_replicas (a_spec r)"
proof -
  have "i32_as_usize (as_replicas (a_spec r)) = nat (if 0 \<le> w then w else 2 ^ 64 + w)"
    using i32_as_usize_nonneg i32_as_usize_neg assms(2) by simp
  then have len: "length (instances_at s (subject claims) (a_name r)) = nat (if 0 \<le> w then w else 2 ^ 64 + w)"
    using reconcile_actor_count [OF assms(1)] by simp
  have "w < 0 \<Longrightarrow> 2 ^ 63 < nat (2 ^ 64 + w)"
    using sint_i32_bounds(1) [of "as_replicas (a_spec r)"] assms(2) by (simp add: zless_nat_eq_int_zless)
  with len assms(1) show ?thesis by (simp add: ctl_reconcile_actor_host)
qed

theorem replicas_requested_witness:
  "\<exists>s. ctx_host (snd (ctl_reconcile_actor (sample_ctl link_up) (echo_resource (- 1)) sample_ctx)) = s \<and>
     2 ^ 63 < length (instances_at s ''MECHO'' ''echo-default'')"
proof -
  have "hm_get (actor_keys sample_host) ''echo-default'' \<in> {None, Some ''MECHO''}"
    by (simp add: sample_host_def)
  then obtain s where "reconcile_actor echo_ext ''echo-default'' ''echo:0.3.8'' (i32_as_usize (- 1)) sample_host =
      (Inr echo_claims, s)"
    by (rule echo_reconciles)
  then have "reconcile_actor (cx_actor (sample_ctl link_up)) (a_name (echo_resource (- 1)))
      (as_image (a_spec (echo_resource (- 1)))) (i32_as_usize (as_replicas (a_spec (echo_resource (- 1)))))
      (ctx_host sample_ctx) = (Inr echo_claims, s)"
    by (simp add: echo_resource_def sample_ctx_def)
  from replicas_requested [OF this refl] show ?thesis
    by (auto simp: echo_resource_def echo_subject)
qed

text \<open>
  A patched status settles: when the event that the patch itself causes is handled, with the module
  unchanged, the host and the API server are left alone.
\<close>

lemma reconcile_actor_again:
  assumes "reconcile_actor X n r m s = (Inr claims, t)" "fetch_actor Y r t = Inr act" "rt_claims act = Some claims"
  shows "reconcile_actor Y n r m t = (Inr claims, t)"
proof -
  obtain g where g: "hm_get (actors t) (subject claims) = Some g" by (rule reconcile_actor_group [OF assms(1)])
  have k: "hm_get (actor_keys t) n = Some (subject claims)" by (rule reconcile_actor_ok [OF assms(1)])
  have "fetched Y r t act claims" using assms(2,3) by (simp add: fetched_def)
  from reconcile_actor_settled [OF this k g reconcile_actor_count [OF assms(1)]] show ?thesis .
qed

theorem actor_status_settles:
  assumes "reconcile_actor (cx_actor X) (a_name r) (as_image (a_spec r))
      (i32_as_usize (as_replicas (a_spec r))) (ctx_host c) = (Inr claims, s)"
    and "fetch_actor (cx_actor X) (as_image (a_spec r)) s = Inr act" "rt_claims act = Some claims"
    and "r' = r\<lparr>a_status := Some (actor_status_of (cx_status X) (a_spec r) claims)\<rparr>"
    and "d = snd (ctl_reconcile_actor X r c)"
  shows "ctl_reconcile_actor X r' d = (Await_change, d)"
proof -
  have s: "ctx_host d = s" using assms(1,5) by (simp add: ctl_reconcile_actor_host)
  note reconcile_actor_again [OF assms(1-3)]
  then show ?thesis
    by (simp add: ctl_reconcile_actor_def assms(4) s Let_def)
qed

theorem actor_status_settles_witness:
  "\<exists>d st. d = snd (ctl_reconcile_actor (sample_ctl link_up) (echo_resource 2) sample_ctx) \<and>
     ctl_reconcile_actor (sample_ctl link_up) ((echo_resource 2)\<lparr>a_status := Some st\<rparr>) d = (Await_change, d)"
proof -
  have "hm_get (actor_keys sample_host) ''echo-default'' \<in> {None, Some ''MECHO''}"
    by (simp add: sample_host_def)
  then obtain s where "reconcile_actor echo_ext ''echo-default'' ''echo:0.3.8'' (i32_as_usize 2) sample_host =
      (Inr echo_claims, s)"
    by (rule echo_reconciles)
  then have "reconcile_actor (cx_actor (sample_ctl link_up)) (a_name (echo_resource 2))
      (as_image (a_spec (echo_resource 2))) (i32_as_usize (as_replicas (a_spec (echo_resource 2))))
      (ctx_host sample_ctx) = (Inr echo_claims, s)"
    by (simp add: echo_resource_def sample_ctx_def)
  moreover have "fetch_actor (cx_actor (sample_ctl link_up)) (as_image (a_spec (echo_resource 2))) s = Inr echo_module"
    "rt_claims echo_module = Some echo_claims"
    using echo_fetched by (simp_all add: fetched_def)
  ultimately show ?thesis
    using actor_status_settles [where act = echo_module, OF _ _ _ refl refl] by blast
qed

text \<open>
  The status of a provider does not depend on the iteration order of the hash map of its targets:
  claims that differ in that order only give the same status, so they cause no new patch.
\<close>

theorem provider_status_order_independent:
  assumes "metadata claims = Some meta"
    and "hm_wf (prov_target_hashes meta)" "hm_wf targets" "set targets = set (prov_target_hashes meta)"
    and "st = provider_status_of X claims"
  shows "provider_status_of X (claims\<lparr>metadata := Some (meta\<lparr>prov_target_hashes := targets\<rparr>)\<rparr>) = st \<and>
    sorted (pst_architecture_targets st) \<and> set (pst_architecture_targets st) = fst ` set targets"
proof -
  have "sort (hm_keys targets) = sort (hm_keys (prov_target_hashes meta))"
    using assms by (intro sorted_keys_unique) auto
  then show ?thesis
    using assms by (auto simp: provider_status_of_def status_claims_def Let_def hm_keys_def)
qed

theorem provider_status_order_independent_witness:
  "pst_architecture_targets (provider_status_of (cx_status (sample_ctl link_up)) http_claims) =
     [''aarch64-linux'', ''x86_64-linux'']"
proof -
  let ?t = "[(''aarch64-linux'', ''H2''), (''x86_64-linux'', ''H1'')]"
  obtain meta where meta: "metadata http_claims = Some meta"
    "prov_target_hashes meta = [(''x86_64-linux'', ''H1''), (''aarch64-linux'', ''H2'')]"
    by (simp add: http_claims_def)
  have wf: "hm_wf (prov_target_hashes meta)" "hm_wf ?t" "set ?t = set (prov_target_hashes meta)"
    by (auto simp: hm_wf_def meta(2))
  from provider_status_order_independent [OF meta(1) wf refl, of "cx_status (sample_ctl link_up)"]
  show ?thesis
    by (auto simp: provider_status_of_def Let_def hm_keys_def meta split: option.splits)
qed

text \<open>
  The status of the host object is refreshed after every handled event of an actor, with the state
  the event left, and only then: link and provider events never patch it, so its number of providers
  can be out of date until an actor changes.
\<close>

definition is_host_patch :: "patch \<Rightarrow> bool" where
  "is_host_patch p \<longleftrightarrow> (case p of Patch_host _ _ \<Rightarrow> True | _ \<Rightarrow> False)"

theorem host_status_refreshed_by_actors_only:
  "(as_host (a_spec r) = name (ctx_host c) \<longrightarrow> ev \<in> {Apply r, Cleanup r} \<longrightarrow>
      (\<exists>ps. ctx_patches (snd (run_actor X ev c)) = ctx_patches c @ ps @
         [Patch_host (name (ctx_host (snd (run_actor X ev c))))
            (host_status_of (cx_status X) (ctx_host (snd (run_actor X ev c))))])) \<and>
   filter is_host_patch (ctx_patches (snd (run_provider X pe c))) = filter is_host_patch (ctx_patches c) \<and>
   filter is_host_patch (ctx_patches (snd (run_link X le c))) = filter is_host_patch (ctx_patches c)"
proof (intro conjI impI)
  have actor: "\<exists>ps. ctx_patches (snd (ctl_reconcile_actor X r c)) = ctx_patches c @ ps"
    "\<exists>ps. ctx_patches (snd (ctl_delete_actor r c)) = ctx_patches c @ ps"
    by (auto simp: ctl_reconcile_actor_def ctl_delete_actor_def send_patch_def Let_def
        split: prod.split sum.split)
  show "\<exists>ps. ctx_patches (snd (run_actor X ev c)) = ctx_patches c @ ps @
         [Patch_host (name (ctx_host (snd (run_actor X ev c))))
            (host_status_of (cx_status X) (ctx_host (snd (run_actor X ev c))))]"
    if "as_host (a_spec r) = name (ctx_host c)" "ev \<in> {Apply r, Cleanup r}"
    using that actor
    by (auto simp: run_actor_def update_host_status_def send_patch_def Let_def case_prod_beta)
  show "filter is_host_patch (ctx_patches (snd (run_provider X pe c))) = filter is_host_patch (ctx_patches c)"
    by (auto simp: run_provider_def ctl_reconcile_provider_def ctl_delete_provider_def send_patch_def
        is_host_patch_def Let_def split: prod.split sum.split option.split finalizer_event.split)
  show "filter is_host_patch (ctx_patches (snd (run_link X le c))) = filter is_host_patch (ctx_patches c)"
    by (auto simp: run_link_def ctl_add_link_def ctl_delete_link_def send_patch_def
        is_host_patch_def Let_def split: prod.split sum.split option.split finalizer_event.split)
qed

theorem host_status_refreshed_by_actors_only_witness:
  "\<exists>ps. ctx_patches (snd (run_actor (sample_ctl link_up) (Cleanup (echo_resource 1)) sample_ctx)) = ps @
     [Patch_host ''default'' (host_status_of (cx_status (sample_ctl link_up)) sample_host)]"
proof -
  have "as_host (a_spec (echo_resource 1)) = name (ctx_host sample_ctx)"
    by (simp add: echo_resource_def sample_ctx_def sample_host_def)
  moreover have "ctx_host (snd (run_actor (sample_ctl link_up) (Cleanup (echo_resource 1)) sample_ctx)) = sample_host"
    by (simp add: run_actor_def ctl_delete_actor_def remove_actor_def echo_resource_def sample_ctx_def case_prod_beta)
      (simp add: sample_host_def)
  ultimately show ?thesis
    using host_status_refreshed_by_actors_only [of "echo_resource 1" sample_ctx "Cleanup (echo_resource 1)"
        "sample_ctl link_up"]
    by (auto simp: sample_ctx_def) (simp add: sample_host_def)
qed

end
