(* ===== verification/Kasm_Invocation.thy ===== *)
theory Kasm_Invocation
  imports Kasm_Handler
begin

text \<open>
  Incoming calls of an actor instance (\<^verbatim>\<open>crates/host/src/actor.rs\<close>: \<^verbatim>\<open>handle_invocation\<close>,
  \<^verbatim>\<open>handle_call\<close>, \<^verbatim>\<open>handle_message\<close>, \<^verbatim>\<open>AsyncBytesMut\<close>). The guest module and the codecs are arguments; what
  is modelled is what the host does around them.
\<close>

section \<open>The output buffer\<close>

text \<open>A buffer behind a mutex, which a panicking holder poisons.\<close>

record async_bytes =
  ab_buf :: bytes
  ab_poisoned :: bool

definition async_bytes_default :: async_bytes where
  "async_bytes_default = \<lparr>ab_buf = [], ab_poisoned = False\<rparr>"

definition poll_write :: "bytes \<Rightarrow> async_bytes \<Rightarrow> nat res \<times> async_bytes" where
  "poll_write buf b =
     (if ab_poisoned b then (Inl (Msg ''poisoned lock: another task failed inside''), b)
      else (Inr (length buf), b\<lparr>ab_buf := ab_buf b @ buf\<rparr>))"

definition bytes_try_from :: "async_bytes \<Rightarrow> bytes res" where
  "bytes_try_from b =
     (if ab_poisoned b then Inl (Wrap ''failed to lock'' (Msg ''poisoned lock: another task failed inside''))
      else Inr (ab_buf b))"

section \<open>Environment\<close>

text \<open>
  The guest: instantiating it, attaching its standard error, converting and handling an HTTP request,
  and calling an operation. A call returns its outcome and the buffers the guest wrote, in order; the
  outcome of a call is that of the host (\<open>Inl\<close>) or of the guest.
\<close>

record ('req, 'rsp) guest_ext =
  pool_instantiate :: "instance_pool \<Rightarrow> unit res"
  set_stderr :: "unit res"
  decode_http :: "bytes \<Rightarrow> 'req res"
  into_incoming_http :: "unit res"
  http_handle :: "'req \<Rightarrow> error + 'rsp"
  encode_http :: "'rsp \<Rightarrow> bytes res"
  convert_http :: "'rsp \<Rightarrow> 'rsp res"
  convert_req :: "'req \<Rightarrow> 'req res"
  guest_call :: "string \<Rightarrow> bytes \<Rightarrow> (string + unit) res \<times> bytes list"

record call_ext =
  decode_inv :: "bytes \<Rightarrow> invocation res"
  antiforgery :: "invocation \<Rightarrow> string list \<Rightarrow> unit res"
  call_threshold :: nat
  fetch_chunks :: "string \<Rightarrow> bytes res"
  chunkify_response :: "string \<Rightarrow> bytes \<Rightarrow> unit res"
  response_default :: invocation_response
  encode_resp :: "invocation_response \<Rightarrow> bytes res"
  publish_reply :: "string \<Rightarrow> bytes \<Rightarrow> unit res"

text \<open>\<^verbatim>\<open>format!("{err:#}")\<close> shows the whole chain of contexts.\<close>

fun err_alternate :: "error \<Rightarrow> string" where
  "err_alternate (Msg m) = m"
| "err_alternate (Wrap c e) = c @ '': '' @ err_alternate e"

section \<open>Handling an invocation\<close>

definition handle_http :: "('req, 'rsp) guest_ext \<Rightarrow> bytes \<Rightarrow> (string + bytes) res" where
  "handle_http G msg =
     and_then (with_context ''failed to decode HTTP request'' (decode_http G msg)) (\<lambda>req.
     and_then (with_context ''failed to convert request'' (convert_req G req)) (\<lambda>req.
     and_then (with_context ''failed to instantiate `wasi:http/incoming-handler`'' (into_incoming_http G)) (\<lambda>_.
     case http_handle G req of
       Inl err \<Rightarrow> Inr (Inl (err_alternate err))
     | Inr rsp \<Rightarrow>
         and_then (with_context ''failed to convert response'' (convert_http G rsp)) (\<lambda>rsp.
         and_then (with_context ''failed to encode response'' (encode_http G rsp)) (\<lambda>buf.
         Inr (Inr buf))))))"

definition handle_operation :: "('req, 'rsp) guest_ext \<Rightarrow> string \<Rightarrow> bytes \<Rightarrow> (string + bytes) res" where
  "handle_operation G operation msg =
     (case guest_call G operation msg of
        (r, writes) \<Rightarrow>
          let out = foldl (\<lambda>b w. snd (poll_write w b)) async_bytes_default writes
          in and_then (with_context ''failed to call actor'' r) (\<lambda>ans.
             case ans of
               Inr _ \<Rightarrow> and_then (with_context ''failed to unwrap bytes'' (bytes_try_from out))
                          (\<lambda>buf. Inr (Inr buf))
             | Inl e \<Rightarrow> Inr (Inl e)))"

definition handle_invocation ::
    "('req, 'rsp) guest_ext \<Rightarrow> actor_instance \<Rightarrow> string \<Rightarrow> string \<Rightarrow> bytes \<Rightarrow> (string + bytes) res" where
  "handle_invocation G i contract_id operation msg =
     and_then (ensure_actor_capability (metadata (hd_claims (in_handler i))) contract_id) (\<lambda>_.
     and_then (with_context ''failed to instantiate actor'' (pool_instantiate G (in_pool i))) (\<lambda>_.
     and_then (with_context ''failed to set stderr'' (set_stderr G)) (\<lambda>_.
     if contract_id = ''wasmcloud:httpserver'' \<and> operation = ''HttpServer.HandleRequest''
     then handle_http G msg
     else handle_operation G operation msg)))"

text \<open>The response to an invocation, and the chunks it needs.\<close>

definition respond ::
    "call_ext \<Rightarrow> invocation \<Rightarrow> string + bytes \<Rightarrow> (error, invocation_response) rpc" where
  "respond X ivc ans =
     (case ans of
        Inr resp_msg \<Rightarrow>
          let n = length resp_msg
          in rbind
               (if call_threshold X < n
                then (case with_context ''failed to chunk invocation response''
                             (chunkify_response X (inv_id ivc) resp_msg) of
                        Inl e \<Rightarrow> (Inl e, [])
                      | Inr _ \<Rightarrow> (Inr [], [Chunked (inv_id ivc) resp_msg]))
                else pure (Inr resp_msg))
               (\<lambda>resp_msg. pure (Inr ((response_default X)\<lparr>ir_msg := resp_msg,
                  ir_invocation_id := inv_id ivc, ir_content_length := word_of_nat n\<rparr>)))
      | Inl err \<Rightarrow>
          pure (Inr ((response_default X)\<lparr>ir_invocation_id := inv_id ivc, ir_error := Some err\<rparr>)))"

definition handle_call ::
    "('req, 'rsp) guest_ext \<Rightarrow> call_ext \<Rightarrow> actor_instance \<Rightarrow> bytes \<Rightarrow> (error, bytes) rpc" where
  "handle_call G X i payload =
     rbind (pure (with_context ''failed to decode invocation'' (decode_inv X payload))) (\<lambda>inv.
     rbind (pure (antiforgery X inv (in_valid_issuers i))) (\<lambda>_.
     rbind (pure (with_context ''failed to convert content_length to usize''
                    (usize_try_from (inv_content_length inv)))) (\<lambda>content_length.
     rbind (pure (if call_threshold X < content_length then fetch_chunks X (inv_id inv)
                  else Inr (inv_msg inv))) (\<lambda>msg.
     rbind (pure (with_context ''failed to handle invocation''
                    (handle_invocation G i (ent_contract_id (inv_origin inv)) (inv_operation inv) msg)))
       (\<lambda>ans.
     rbind (respond X inv ans) (\<lambda>resp.
     pure (with_context ''failed to encode response'' (encode_resp X resp))))))))"

text \<open>A reply is published if the message asks for one and the call succeeded; errors are logged.\<close>

definition handle_message ::
    "('req, 'rsp) guest_ext \<Rightarrow> call_ext \<Rightarrow> actor_instance \<Rightarrow> string option \<Rightarrow> bytes \<Rightarrow> event list" where
  "handle_message G X i reply payload =
     (case (reply, fst (handle_call G X i payload)) of
        (Some reply, Inr buf) \<Rightarrow>
          (case publish_reply X reply buf of Inl _ \<Rightarrow> [] | Inr _ \<Rightarrow> [Published reply buf])
      | _ \<Rightarrow> [])"

section \<open>Facts\<close>

text \<open>The buffer ends up holding exactly what was written, in order.\<close>

lemma poll_writes:
  "\<not> ab_poisoned b \<Longrightarrow> foldl (\<lambda>b w. snd (poll_write w b)) b ws = b\<lparr>ab_buf := ab_buf b @ concat ws\<rparr>"
  by (induction ws arbitrary: b) (simp_all add: poll_write_def)

lemma handle_operation_eq:
  "handle_operation G operation msg =
     and_then (with_context ''failed to call actor'' (fst (guest_call G operation msg))) (\<lambda>ans.
       Inr (case ans of Inr _ \<Rightarrow> Inr (concat (snd (guest_call G operation msg))) | Inl e \<Rightarrow> Inl e))"
  by (cases "guest_call G operation msg"; cases "fst (guest_call G operation msg)")
    (auto simp: handle_operation_def poll_writes async_bytes_default_def bytes_try_from_def
      split: sum.split)

lemma handle_invocation_allowed:
  assumes "handle_invocation G i c operation msg = Inr ans"
  shows "ensure_actor_capability (metadata (hd_claims (in_handler i))) c = Inr ()"
  using assms by (auto simp: handle_invocation_def and_then_Inr)

end
