(* ===== verification/Kasm_Wasi.thy ===== *)
theory Kasm_Wasi
  imports Kasm_Handler
begin

text \<open>
  The capabilities a handler offers to its actor (\<^verbatim>\<open>crates/host/src/handler.rs\<close>: the \<^verbatim>\<open>Blobstore\<close>,
  \<^verbatim>\<open>KeyValueAtomic\<close>, \<^verbatim>\<open>KeyValueReadWrite\<close>, \<^verbatim>\<open>Logging\<close> and \<^verbatim>\<open>Messaging\<close> implementations): each is one call
  to the linked provider, with the arguments checked and converted before it and the answer checked
  and converted after it.
\<close>

section \<open>Requests and answers\<close>

text \<open>
  The request payloads, with the fields the source sets; the others have their \<^verbatim>\<open>Default\<close> values and
  belong to the encoder.
\<close>

record chunk =
  ch_object_id :: string
  ch_container_id :: string
  ch_bytes :: bytes
  ch_offset :: "64 word"
  ch_is_last :: bool

datatype wasi_request =
    Req_name string
  | Get_object string string "64 word" "64 word"
  | Container_object string string
  | Put_object chunk
  | Remove_objects string "string list"
  | List_objects string "32 word"
  | Increment string "32 word"
  | Set_value string string "32 word"
  | Request_message string bytes "32 word"
  | Pub_message string "string option" bytes

record get_object_response =
  go_success :: bool
  go_error :: "string option"
  go_initial_chunk :: "chunk option"

record item_result =
  it_key :: string
  it_success :: bool
  it_error :: "string option"

record list_objects_response =
  lo_objects :: "string list"
  lo_is_last :: bool
  lo_continuation :: "string option"

record object_metadata =
  om_object_id :: string
  om_container_id :: string
  om_content_length :: "64 word"

record broker_message =
  bm_subject :: string
  bm_reply_to :: "string option"
  bm_body :: "bytes option"

text \<open>The codec: one encoder for requests, one decoder per type of answer.\<close>

record wasi_ext =
  enc :: "wasi_request \<Rightarrow> bytes res"
  dec_unit :: "bytes \<Rightarrow> unit res"
  dec_bool :: "bytes \<Rightarrow> bool res"
  dec_i32 :: "bytes \<Rightarrow> 32 word res"
  dec_container :: "bytes \<Rightarrow> (string \<times> int option) res"
  dec_object :: "bytes \<Rightarrow> get_object_response res"
  dec_put :: "bytes \<Rightarrow> (string option) res"
  dec_items :: "bytes \<Rightarrow> (item_result list) res"
  dec_list :: "bytes \<Rightarrow> list_objects_response res"
  dec_metadata :: "bytes \<Rightarrow> object_metadata res"
  dec_value :: "bytes \<Rightarrow> (string \<times> bool) res"
  dec_reply :: "bytes \<Rightarrow> (string \<times> string option \<times> bytes) res"

definition target_for :: "process \<Rightarrow> handler \<Rightarrow> target_interface \<Rightarrow> target_entity option" where
  "target_for s hdl iface = hm_get (target_cells s ! hd_targets hdl) iface"

text \<open>A call to the target of an interface, and what is done with its answer.\<close>

definition wasi_call ::
    "rpc_ext \<Rightarrow> wasi_ext \<Rightarrow> process \<Rightarrow> handler \<Rightarrow> target_interface \<Rightarrow> string \<Rightarrow> wasi_request \<Rightarrow>
     (bytes \<Rightarrow> 'a res) \<Rightarrow> (error, 'a) rpc" where
  "wasi_call X W s hdl iface operation req k =
     rbind (call_operation X s hdl (target_for s hdl iface) operation (enc W req)) (\<lambda>r. pure (k r))"

section \<open>Blob store\<close>

definition create_container where
  "create_container X W s hdl nm =
     wasi_call X W s hdl WasiBlobstoreBlobstore ''wasmcloud:blobstore/Blobstore.CreateContainer''
       (Req_name nm) (decode_empty_provider_response (dec_unit W))"

definition container_exists where
  "container_exists X W s hdl nm =
     wasi_call X W s hdl WasiBlobstoreBlobstore ''wasmcloud:blobstore/Blobstore.ContainerExists''
       (Req_name nm) (decode_provider_response (dec_bool W))"

definition delete_container where
  "delete_container X W s hdl nm =
     wasi_call X W s hdl WasiBlobstoreBlobstore ''wasmcloud:blobstore/Blobstore.DeleteContainer''
       (Req_name nm) (decode_empty_provider_response (dec_unit W))"

text \<open>The seconds of a timestamp are signed; a missing one counts as 0.\<close>

definition container_info where
  "container_info X W s hdl nm =
     wasi_call X W s hdl WasiBlobstoreBlobstore ''wasmcloud:blobstore/Blobstore.GetContainerInfo''
       (Req_name nm)
       (\<lambda>r. and_then (decode_provider_response (dec_container W) r) (\<lambda>(nm, created_at).
          and_then (with_context ''timestamp seconds do not fit in `u64`''
            (case created_at of
               None \<Rightarrow> Inr None | Some sec \<Rightarrow> map_sum (\<lambda>e. e) Some (u64_try_from_int sec)))
            (\<lambda>created_at. Inr (nm, case created_at of None \<Rightarrow> 0 | Some c \<Rightarrow> c))))"

definition get_data where
  "get_data X W s hdl container nm range_start range_end =
     wasi_call X W s hdl WasiBlobstoreBlobstore ''wasmcloud:blobstore/Blobstore.GetObject''
       (Get_object nm container range_start range_end)
       (\<lambda>r. and_then (decode_provider_response (dec_object W) r) (\<lambda>resp.
          case (go_success resp, go_initial_chunk resp, go_error resp) of
            (_, _, Some err) \<Rightarrow> Inl (Wrap ''failed to get object response'' (Msg err))
          | (False, _, None) \<Rightarrow> Inl (Msg ''failed to get object response'')
          | (True, None, None) \<Rightarrow> Inr ([], 0 :: 64 word)
          | (True, Some c, None) \<Rightarrow>
              and_then (ensure (ch_object_id c = nm) ''Condition failed: `object_id == name`'') (\<lambda>_.
              and_then (ensure (ch_container_id c = container)
                          ''Condition failed: `container_id == container`'') (\<lambda>_.
              and_then (with_context ''value size does not fit in `u64`''
                          (u64_try_from (length (ch_bytes c)))) (\<lambda>size.
              Inr (ch_bytes c, size))))))"

definition has_object where
  "has_object X W s hdl container nm =
     wasi_call X W s hdl WasiBlobstoreBlobstore ''wasmcloud:blobstore/Blobstore.ObjectExists''
       (Container_object container nm) (decode_provider_response (dec_bool W))"

text \<open>The value is read to its end first; \<open>val\<close> is the outcome of reading it.\<close>

definition write_data where
  "write_data X W s hdl container nm val =
     rbind (pure (with_context ''failed to read bytes'' val)) (\<lambda>buf.
     wasi_call X W s hdl WasiBlobstoreBlobstore ''wasmcloud:blobstore/Blobstore.PutObject''
       (Put_object \<lparr>ch_object_id = nm, ch_container_id = container, ch_bytes = buf,
                    ch_offset = 0, ch_is_last = True\<rparr>)
       (\<lambda>r. and_then (decode_provider_response (dec_put W) r) (\<lambda>stream_id.
          ensure (stream_id = None) ''provider returned an unexpected stream ID'')))"

fun check_items :: "item_result list \<Rightarrow> unit res" where
  "check_items [] = Inr ()"
| "check_items (it # its) =
     (case it_error it of
        Some err \<Rightarrow> Inl (Msg err)
      | None \<Rightarrow>
          and_then (ensure (it_success it) (''failed to delete object `'' @ it_key it @ ''`''))
            (\<lambda>_. check_items its))"

definition delete_objects where
  "delete_objects X W s hdl container nms =
     wasi_call X W s hdl WasiBlobstoreBlobstore ''wasmcloud:blobstore/Blobstore.RemoveObjects''
       (Remove_objects container nms)
       (\<lambda>r. and_then (decode_provider_response (dec_items W) r) check_items)"

definition list_objects where
  "list_objects X W s hdl container =
     wasi_call X W s hdl WasiBlobstoreBlobstore ''wasmcloud:blobstore/Blobstore.ListObjects''
       (List_objects container (- 1))
       (\<lambda>r. and_then (decode_provider_response (dec_list W) r) (\<lambda>resp.
          and_then (ensure (lo_is_last resp) ''Condition failed: `is_last`'') (\<lambda>_.
          and_then (ensure (lo_continuation resp = None) ''chunked responses not supported'') (\<lambda>_.
          Inr (lo_objects resp)))))"

text \<open>The request names the object only; the container is not part of it.\<close>

definition object_info where
  "object_info X W s hdl (container :: string) nm =
     wasi_call X W s hdl WasiBlobstoreBlobstore ''wasmcloud:blobstore/Blobstore.GetObjectInfo''
       (Req_name nm)
       (\<lambda>r. and_then (decode_provider_response (dec_metadata W) r) (\<lambda>m.
          Inr (om_object_id m, om_container_id m, om_content_length m, 0 :: 64 word)))"

section \<open>Key-value store\<close>

definition no_buckets :: "string \<Rightarrow> unit res" where
  "no_buckets bucket = (if bucket \<noteq> [] then Inl (Msg ''buckets not currently supported'') else Inr ())"

definition increment where
  "increment X W s hdl bucket key delta =
     rbind (pure (no_buckets bucket)) (\<lambda>_.
     rbind (pure (with_context ''delta does not fit in `i32`'' (i32_try_from_u64 delta))) (\<lambda>v.
     wasi_call X W s hdl WasiKeyvalueAtomic ''wasmcloud:keyvalue/KeyValue.Increment'' (Increment key v)
       (\<lambda>r. and_then (decode_provider_response (dec_i32 W) r) (\<lambda>new.
          with_context ''result does not fit in `u64`'' (u64_try_from_int (sint new))))))"

definition compare_and_swap :: "string \<Rightarrow> string \<Rightarrow> 64 word \<Rightarrow> 64 word \<Rightarrow> bool res" where
  "compare_and_swap bucket key old new = Inl (Msg ''not supported'')"

text \<open>The value is a text; its length is that of its bytes.\<close>

definition kv_get where
  "kv_get X W s hdl bucket key =
     rbind (pure (no_buckets bucket)) (\<lambda>_.
     wasi_call X W s hdl WasiKeyvalueReadwrite ''wasmcloud:keyvalue/KeyValue.Get'' (Req_name key)
       (\<lambda>r. and_then (decode_provider_response (dec_value W) r) (\<lambda>(val, found).
          if \<not> found then Inl (Msg ''key not found'')
          else and_then (with_context ''value size does not fit in `u64`'' (u64_try_from (length val)))
                 (\<lambda>size. Inr (val, size)))))"

definition kv_set where
  "kv_set X W s hdl bucket key val =
     rbind (pure (no_buckets bucket)) (\<lambda>_.
     rbind (pure (with_context ''failed to read value'' val)) (\<lambda>buf.
     wasi_call X W s hdl WasiKeyvalueReadwrite ''wasmcloud:keyvalue/KeyValue.Set'' (Set_value key buf 0)
       (decode_empty_provider_response (dec_unit W))))"

definition kv_delete where
  "kv_delete X W s hdl bucket key =
     rbind (pure (no_buckets bucket)) (\<lambda>_.
     wasi_call X W s hdl WasiKeyvalueReadwrite ''wasmcloud:keyvalue/KeyValue.Del'' (Req_name key)
       (\<lambda>r. and_then (decode_provider_response (dec_bool W) r) (\<lambda>deleted.
          ensure deleted ''key not found'')))"

definition kv_exists where
  "kv_exists X W s hdl bucket key =
     rbind (pure (no_buckets bucket)) (\<lambda>_.
     wasi_call X W s hdl WasiKeyvalueReadwrite ''wasmcloud:keyvalue/KeyValue.Contains'' (Req_name key)
       (decode_provider_response (dec_bool W)))"

section \<open>Logging\<close>

datatype log_level = Trace | Debug | Info | Warn | Error | Critical

text \<open>
  The event recorded for a message, with the actor it comes from; \<open>logging_cap\<close> is the constant
  \<^verbatim>\<open>wascap::caps::LOGGING\<close>. There is no level above error, so a critical message is recorded as one.
\<close>

definition tracing_level :: "log_level \<Rightarrow> log_level" where
  "tracing_level l = (case l of Critical \<Rightarrow> Error | _ \<Rightarrow> l)"

definition log_message ::
    "string \<Rightarrow> handler \<Rightarrow> log_level \<Rightarrow> string \<Rightarrow> string \<Rightarrow>
     (log_level \<times> string \<times> log_level \<times> string \<times> string) res" where
  "log_message logging_cap hdl level context message =
     and_then (ensure_actor_capability (metadata (hd_claims hdl)) logging_cap)
       (\<lambda>_. Inr (tracing_level level, subject (hd_claims hdl), level, context, message))"

section \<open>Messaging\<close>

text \<open>A duration is its number of nanoseconds; \<^verbatim>\<open>as_millis\<close> rounds down.\<close>

definition message_request where
  "message_request X W s hdl subj body timeout =
     rbind (pure (with_context ''timeout milliseconds do not fit in `u32`''
              (u32_try_from (timeout div 1000000)))) (\<lambda>timeout_ms.
     wasi_call X W s hdl WasmcloudMessagingConsumer ''wasmcloud:messaging/Messaging.Request''
       (Request_message subj (case body of None \<Rightarrow> [] | Some b \<Rightarrow> b) timeout_ms)
       (\<lambda>r. and_then (decode_provider_response (dec_reply W) r) (\<lambda>(subj, reply_to, body).
          Inr \<lparr>bm_subject = subj, bm_reply_to = reply_to, bm_body = Some body\<rparr>)))"

definition request_multi where
  "request_multi X W s hdl subj body timeout (max_results :: 32 word) =
     (if max_results \<le> 1
      then rbind (message_request X W s hdl subj body timeout) (\<lambda>msg. pure (Inr [msg]))
      else pure (Inl (Msg ''at most 1 result can be requested at the time'')))"

definition message_publish where
  "message_publish X W s hdl msg =
     wasi_call X W s hdl WasmcloudMessagingConsumer ''wasmcloud:messaging/Messaging.Publish''
       (Pub_message (bm_subject msg) (bm_reply_to msg) (case bm_body msg of None \<Rightarrow> [] | Some b \<Rightarrow> b))
       (decode_empty_provider_response (dec_unit W))"

end
