(* ===== verification/Kasm_Rpc.thy ===== *)
theory Kasm_Rpc
  imports Kasm_Invocation Kasm_Wasi Kasm_Host
begin

text \<open>
  Lemmas on calls: what must have gone well before anything is sent, what a successful call returns,
  and the link that a call goes through.
\<close>

section \<open>Resolving and checking\<close>

text \<open>The link name a target stands for, when it is not another actor.\<close>

definition via_link :: "target_entity option \<Rightarrow> string option" where
  "via_link tgt =
     (case tgt of
        None \<Rightarrow> Some ''default''
      | Some (Link l) \<Rightarrow> Some (case l of None \<Rightarrow> ''default'' | Some n \<Rightarrow> n)
      | Some (Actor _) \<Rightarrow> None)"

lemma resolve_target_link:
  assumes "via_link tgt = Some l"
  shows "resolve_target X tgt (hm_get tbl c) als = some_or ''link not found'' (table_get tbl c l)"
  using assms
  by (auto simp: resolve_target_def via_link_def table_get_def split: option.splits target_entity.splits)

lemma call_topic_link:
  "via_link tgt = Some l \<Longrightarrow>
   call_topic p tgt ent = ''wasmbus.rpc.'' @ p @ ''.'' @ ent_public_key ent @ ''.'' @ ent_link_name ent"
  by (auto simp: call_topic_def via_link_def split: option.splits target_entity.splits)

lemma ensure_actor_capability_iff:
  "ensure_actor_capability md c = Inr () \<longleftrightarrow>
     c = [] \<or> (\<exists>a caps. md = Some a \<and> act_caps a = Some caps \<and> c \<in> set caps)"
  by (auto simp: ensure_actor_capability_def list_ex_iff split: option.split)

section \<open>What is sent\<close>

lemma rbind_pure_snd:
  "snd (rbind (pure r) f) = (case r of Inl e \<Rightarrow> [] | Inr x \<Rightarrow> snd (f x))"
  by (cases r) (simp_all add: pure_def)

lemma rbind_pure_fst:
  "fst (rbind (pure r) f) = (case r of Inl e \<Rightarrow> Inl e | Inr x \<Rightarrow> fst (f x))"
  by (cases r) (simp_all add: pure_def)

text \<open>Everything a call checks has been checked before anything leaves the host.\<close>

lemma call_sent:
  assumes "ev \<in> set (snd (call_operation_with_payload X s hdl tgt op req))"
  obtains package rest ent ivc where "split_once (CHR ''/'') op = Some (package, rest)"
    "resolve_target X tgt (hm_get (link_cells s ! hd_links hdl) package) (aliases s) = Inr ent"
    "inv_new X (hd_cluster_key hdl) (hd_host_key hdl) (hd_origin hdl) ent op req (trace_context X) = Inr ivc"
    "ensure_actor_capability (metadata (hd_claims hdl)) (ent_contract_id (inv_target ivc)) = Inr ()"
    "ev = Chunked (inv_id ivc) (inv_msg ivc) \<or>
     (\<exists>p. ev = Sent (call_topic (hd_lattice_prefix hdl) tgt (inv_target ivc)) p (chunk_threshold X < length req))"
proof -
  obtain package rest where 1: "split_once (CHR ''/'') op = Some (package, rest)"
    using assms by (cases "split_once (CHR ''/'') op")
      (auto simp: call_operation_with_payload_def rbind_pure_snd)
  obtain ent where 2: "resolve_target X tgt (hm_get (link_cells s ! hd_links hdl) package) (aliases s) = Inr ent"
    using assms by (cases "resolve_target X tgt (hm_get (link_cells s ! hd_links hdl) package) (aliases s)")
      (auto simp: call_operation_with_payload_def rbind_pure_snd 1)
  obtain ivc where 3: "inv_new X (hd_cluster_key hdl) (hd_host_key hdl) (hd_origin hdl) ent op req (trace_context X) = Inr ivc"
    using assms by (cases "inv_new X (hd_cluster_key hdl) (hd_host_key hdl) (hd_origin hdl) ent op req (trace_context X)")
      (auto simp: call_operation_with_payload_def rbind_pure_snd 1 2)
  have 4: "ensure_actor_capability (metadata (hd_claims hdl)) (ent_contract_id (inv_target ivc)) = Inr ()"
    using assms by (cases "ensure_actor_capability (metadata (hd_claims hdl)) (ent_contract_id (inv_target ivc))")
      (auto simp: call_operation_with_payload_def rbind_pure_snd 1 2 3)
  have "ev = Chunked (inv_id ivc) (inv_msg ivc) \<or>
     (\<exists>p. ev = Sent (call_topic (hd_lattice_prefix hdl) tgt (inv_target ivc)) p (chunk_threshold X < length req))"
    using assms
    by (cases "chunkify X (inv_id ivc) (inv_msg ivc)")
      (auto simp: call_operation_with_payload_def rbind_pure_snd 1 2 3 4 Let_def rbind_def pure_def
        split: sum.splits prod.splits if_splits)
  with 1 2 3 4 that show ?thesis by blast
qed

text \<open>
  Whatever a call through a link lets out, the chunks of the request included, there is an entry in the caller's
  link table for the package of the operation and the link name, with a contract among the caller's
  capabilities; a message goes to that entry.
\<close>

lemma call_through_link:
  assumes "\<forall>ck hk orig ent op req tr ivc. inv_new X ck hk orig ent op req tr = Inr ivc \<longrightarrow> inv_target ivc = ent"
    and "via_link tgt = Some l" "ev \<in> set (snd (call_operation_with_payload X s hdl tgt op req))"
  obtains package rest ent where "op = package @ ''/'' @ rest"
    "table_get (link_cells s ! hd_links hdl) package l = Some ent"
    "\<And>topic p b. ev = Sent topic p b \<Longrightarrow>
       topic = ''wasmbus.rpc.'' @ hd_lattice_prefix hdl @ ''.'' @ ent_public_key ent @ ''.'' @ ent_link_name ent"
    "ent_contract_id ent = [] \<or> (\<exists>a caps. metadata (hd_claims hdl) = Some a \<and> act_caps a = Some caps \<and>
       ent_contract_id ent \<in> set caps)"
proof (rule call_sent [OF assms(3)])
  fix package rest ent ivc
  assume op: "split_once (CHR ''/'') op = Some (package, rest)"
    and ent: "resolve_target X tgt (hm_get (link_cells s ! hd_links hdl) package) (aliases s) = Inr ent"
    and ivc: "inv_new X (hd_cluster_key hdl) (hd_host_key hdl) (hd_origin hdl) ent op req (trace_context X) = Inr ivc"
    and cap: "ensure_actor_capability (metadata (hd_claims hdl)) (ent_contract_id (inv_target ivc)) = Inr ()"
    and ev: "ev = Chunked (inv_id ivc) (inv_msg ivc) \<or>
     (\<exists>p. ev = Sent (call_topic (hd_lattice_prefix hdl) tgt (inv_target ivc)) p (chunk_threshold X < length req))"
  have tgt: "inv_target ivc = ent" using assms(1) ivc by blast
  show thesis
  proof (rule that)
    show "table_get (link_cells s ! hd_links hdl) package l = Some ent"
      using ent by (simp add: resolve_target_link [OF assms(2)])
  qed (use op ev cap in \<open>auto simp: split_once_Some tgt call_topic_link [OF assms(2)] ensure_actor_capability_iff\<close>)
qed

lemma call_sends:
  assumes "split_once (CHR ''/'') op = Some (package, rest)"
    and "resolve_target X tgt (hm_get (link_cells s ! hd_links hdl) package) (aliases s) = Inr ent"
    and "inv_new X (hd_cluster_key hdl) (hd_host_key hdl) (hd_origin hdl) ent op req (trace_context X) = Inr ivc"
    and "ensure_actor_capability (metadata (hd_claims hdl)) (ent_contract_id (inv_target ivc)) = Inr ()"
    and "length req \<le> chunk_threshold X" "encode_inv X ivc = Inr p"
  shows "Sent (call_topic (hd_lattice_prefix hdl) tgt (inv_target ivc)) p False
    \<in> set (snd (call_operation_with_payload X s hdl tgt op req))"
proof -
  have sent: "Sent tp q b \<in> set (snd (rbind (r, [Sent tp q b]) f))"
    for tp q b and r :: "error + bytes" and f :: "bytes \<Rightarrow> (error, string + bytes) rpc"
    by (cases r) simp_all
  show ?thesis
    using assms by (simp add: call_operation_with_payload_def Let_def sent)
qed

section \<open>The two ends of a call\<close>

lemma unat_word_of_nat_64: "n < 2 ^ 64 \<Longrightarrow> unat (word_of_nat n :: 64 word) = n"
  by (simp add: unat_of_nat)

text \<open>The receiving side: what a decoded and authentic invocation leads to.\<close>

lemma handle_call_ok:
  assumes "decode_inv Y p = Inr ivc" "antiforgery Y ivc (in_valid_issuers i) = Inr ()"
    and "(if call_threshold Y < unat (inv_content_length ivc) then fetch_chunks Y (inv_id ivc)
          else Inr (inv_msg ivc)) = Inr msg"
    and "handle_invocation G i (ent_contract_id (inv_origin ivc)) (inv_operation ivc) msg = Inr ans"
    and "fst (respond Y ivc ans) = Inr resp" "encode_resp Y resp = Inr q"
  shows "fst (handle_call G Y i p) = Inr q"
  using assms
  by (auto simp: handle_call_def rbind_pure_fst usize_try_from_def rbind_def pure_def
      split: sum.splits prod.splits)

text \<open>A response that needs no chunks.\<close>

lemma respond_small:
  assumes "\<And>msg. ans = Inr msg \<Longrightarrow> length msg \<le> call_threshold Y"
  shows "fst (respond Y ivc ans) = Inr (case ans of
      Inr msg \<Rightarrow> (response_default Y)\<lparr>ir_msg := msg, ir_invocation_id := inv_id ivc,
        ir_content_length := word_of_nat (length msg)\<rparr>
    | Inl err \<Rightarrow> (response_default Y)\<lparr>ir_invocation_id := inv_id ivc, ir_error := Some err\<rparr>)"
  using assms by (cases ans) (auto simp: respond_def pure_def not_less)

text \<open>The calling side: what an answered request leads to.\<close>

lemma call_answered:
  assumes "split_once (CHR ''/'') op = Some (package, rest)"
    and "resolve_target X tgt (hm_get (link_cells s ! hd_links hdl) package) (aliases s) = Inr ent"
    and "inv_new X (hd_cluster_key hdl) (hd_host_key hdl) (hd_origin hdl) ent op req (trace_context X) = Inr ivc"
    and "ensure_actor_capability (metadata (hd_claims hdl)) (ent_contract_id (inv_target ivc)) = Inr ()"
    and "chunk_threshold X < length req \<Longrightarrow> chunkify X (inv_id ivc) (inv_msg ivc) = Inr ()"
    and "sent = (if chunk_threshold X < length req then ivc\<lparr>inv_msg := []\<rparr> else ivc)"
    and "encode_inv X sent = Inr p"
    and "send_request X (call_topic (hd_lattice_prefix hdl) tgt (inv_target ivc)) p
           (chunk_threshold X < length req) (injector_to_headers X) = Inr q"
    and "decode_resp X q = Inr resp" "ir_invocation_id resp = inv_id ivc"
    and "unat (ir_content_length resp) \<le> chunk_threshold X"
    and "unat (ir_content_length resp) = length (ir_msg resp)"
  shows "fst (call_operation_with_payload X s hdl tgt op req) =
    Inr (case ir_error resp of Some err \<Rightarrow> Inl err | None \<Rightarrow> Inr (ir_msg resp))"
proof (cases "chunk_threshold X < length req")
  case True
  with assms show ?thesis
    by (simp add: call_operation_with_payload_def usize_try_from_def ensure_def Let_def)
      (simp add: pure_def)
next
  case False
  with assms show ?thesis
    by (simp add: call_operation_with_payload_def usize_try_from_def ensure_def Let_def)
      (simp add: pure_def)
qed

lemma rbind_silent: "(\<And>x. snd (f x) = []) \<Longrightarrow> snd (rbind m f) = snd m"
  by (cases m; cases "fst m") simp_all

lemma snd_pure [simp]: "snd (pure r) = []"
  by (simp add: pure_def)

text \<open>What it has sent: the chunks of a large request, and one message.\<close>

lemma call_answered_sent:
  assumes "split_once (CHR ''/'') op = Some (package, rest)"
    and "resolve_target X tgt (hm_get (link_cells s ! hd_links hdl) package) (aliases s) = Inr ent"
    and "inv_new X (hd_cluster_key hdl) (hd_host_key hdl) (hd_origin hdl) ent op req (trace_context X) = Inr ivc"
    and "ensure_actor_capability (metadata (hd_claims hdl)) (ent_contract_id (inv_target ivc)) = Inr ()"
    and "chunk_threshold X < length req \<Longrightarrow> chunkify X (inv_id ivc) (inv_msg ivc) = Inr ()"
    and "encode_inv X (if chunk_threshold X < length req then ivc\<lparr>inv_msg := []\<rparr> else ivc) = Inr p"
  shows "snd (call_operation_with_payload X s hdl tgt op req) =
    (if chunk_threshold X < length req then [Chunked (inv_id ivc) (inv_msg ivc)] else []) @
    [Sent (call_topic (hd_lattice_prefix hdl) tgt (inv_target ivc)) p (chunk_threshold X < length req)]"
  using assms
  by (cases "chunk_threshold X < length req")
    (simp_all add: call_operation_with_payload_def Let_def rbind_silent)

section \<open>Both ways to call do the same\<close>

lemma str_err_simps [simp]:
  "str_err (Inl e) = Inl (err_to_string e)" "str_err (Inr x) = Inr x"
  by (simp_all add: str_err_def)

text \<open>Two steps, with errors of different types, that send the same and succeed alike.\<close>

definition agree :: "('e, 'a) rpc \<Rightarrow> ('f, 'b) rpc \<Rightarrow> ('a \<Rightarrow> 'b) \<Rightarrow> bool" where
  "agree m m' c \<longleftrightarrow> snd m = snd m' \<and> (\<forall>x. fst m = Inr x \<longleftrightarrow> fst m' = Inr (c x))"

lemma agree_bind:
  assumes "snd m = snd m'" "\<And>x. fst m = Inr x \<longleftrightarrow> fst m' = Inr x" "\<And>x. agree (f x) (g x) c"
  shows "agree (rbind m f) (rbind m' g) c"
proof (cases "fst m")
  case (Inl e)
  then obtain e' where "fst m' = Inl e'" using assms(2) by (cases "fst m'") auto
  with Inl assms(1) show ?thesis by (cases m; cases m') (simp add: agree_def)
next
  case (Inr x)
  moreover from this have "fst m' = Inr x" using assms(2) by simp
  ultimately show ?thesis
    using assms(1) assms(3) [of x] by (cases m; cases m') (simp add: agree_def)
qed

lemma str_err_Inr [simp]: "str_err r = Inr x \<longleftrightarrow> r = Inr x"
  by (cases r) simp_all

lemma agree_pure:
  "(\<And>x. r = Inr x \<longleftrightarrow> r' = Inr x) \<Longrightarrow> (\<And>x. agree (f x) (g x) c) \<Longrightarrow>
   agree (rbind (pure r) f) (rbind (pure r') g) c"
  by (rule agree_bind) (simp_all add: pure_def)

lemma agree_send:
  "(\<And>x. r = Inr x \<longleftrightarrow> r' = Inr x) \<Longrightarrow> (\<And>x. agree (f x) (g x) c) \<Longrightarrow>
   agree (rbind (r, es) f) (rbind (r', es) g) c"
  by (rule agree_bind) simp_all

lemma agree_chunk:
  "(\<And>x. r = Inr x \<longleftrightarrow> r' = Inr x) \<Longrightarrow> (\<And>x. agree (f x) (g x) c) \<Longrightarrow>
   agree (rbind (if b then (case r of Inl e \<Rightarrow> (Inl e, []) | Inr (x :: unit) \<Rightarrow> (Inr y, es)) else pure (Inr z)) f)
     (rbind (if b then (case r' of Inl e \<Rightarrow> (Inl e, []) | Inr x \<Rightarrow> (Inr y, es)) else pure (Inr z)) g) c"
  by (rule agree_bind) (cases r; cases r'; auto simp: pure_def)+

lemma call_future_agree:
  "agree (call_future X s hdl tgt op (Inr req) (\<lambda>_. Inr ())) (call_operation_with_payload X s hdl tgt op req) Inr"
  unfolding call_future_def call_operation_with_payload_def Let_def with_context_simps str_err_simps rbind_simps
    case_prod_beta
  by (intro agree_pure agree_send agree_chunk)
    (auto simp: agree_def pure_def and_then_Inr ensure_def split: option.split sum.split)

end
