(* ===== verification/Kasm_Targets.thy ===== *)
theory Kasm_Targets
  imports Kasm_Host Kasm_Wasi
begin

text \<open>
  The targets that guests choose for the interfaces they use. They are kept in a cell that is made when an
  actor is started and is shared by the handlers of all its instances. In every reachable state no two
  actors share one.
\<close>

definition cell_at :: "process \<Rightarrow> string \<Rightarrow> string \<Rightarrow> nat option" where
  "cell_at s k n = map_option (\<lambda>a. hd_targets (ac_handler a)) (actor_at s k n)"

definition cells_owned :: "process \<Rightarrow> bool" where
  "cells_owned s \<longleftrightarrow>
     (\<forall>k n k' n' c. cell_at s k n = Some c \<longrightarrow> cell_at s k' n' = Some c \<longrightarrow> k' = k \<and> n' = n)"

lemma cell_at_cong: "actors t = actors s \<Longrightarrow> cell_at t = cell_at s"
  by (simp add: cell_at_def actor_at_def fun_eq_iff)

lemma cell_at_set_actor:
  "hm_get (actors s) k = Some g \<Longrightarrow>
   cell_at (set_actor k n a s) k' n' =
     (if k' = k \<and> n' = n then Some (hd_targets (ac_handler a)) else cell_at s k' n')"
  by (simp add: cell_at_def actor_at_def set_actor_def)

lemma cell_at_bound:
  assumes "host_inv D s" and "cell_at s k n = Some c"
  shows "c < length (target_cells s)"
  using assms host_invD(5) [OF assms(1)]
  by (auto simp: cell_at_def actor_at_def actors_wf_def actor_wf_def split: option.splits)

text \<open>Reconciling makes at most one cell, a new one; removing makes none.\<close>

lemma scale_actor_cells:
  assumes c: "rt_claims act = Some claims" and g: "hm_get (actors s) (subject claims) = Some g"
  shows "cell_at (snd (scale_actor X act claims n r m g s)) k' n' = cell_at s k' n' \<or>
    k' = subject claims \<and> n' = n \<and>
    cell_at (snd (scale_actor X act claims n r m g s)) k' n' = Some (length (target_cells s))"
proof (cases "hm_get (ag_actors g) n")
  case None
  show ?thesis
    by (rule scale_absent_cases [OF c None, of m X r s])
       (simp_all add: cell_at_set_actor g, simp_all add: cell_at_def actor_at_def)
next
  case (Some a)
  then have "cell_at s (subject claims) n = Some (hd_targets (ac_handler a))"
    using g by (simp add: cell_at_def actor_at_def)
  then show ?thesis
    using g by (rule_tac scale_present_cases [OF Some, of m X act claims r s])
       (auto simp: cell_at_set_actor cell_at_cong [OF abort_calls_frames(1)], auto simp: cell_at_def actor_at_def)
qed

definition cells_grow :: "process \<Rightarrow> process \<Rightarrow> bool" where
  "cells_grow s t \<longleftrightarrow>
     (\<exists>k n. \<forall>k' n'. cell_at t k' n' \<in> {None, cell_at s k' n'} \<or>
        k' = k \<and> n' = n \<and> cell_at t k' n' = Some (length (target_cells s)))"

lemma cells_grow_same: "actors t = actors s \<Longrightarrow> cells_grow s t"
  using cell_at_cong [of t s] by (simp add: cells_grow_def)

lemma reconcile_actor_cells: "cells_grow s (snd (reconcile_actor X n r m s))"
proof (rule reconcile_actor_cases [of X n r m s])
  fix act claims g t
  assume f: "fetched X r s act claims"
    and gt: "group_entry (subject claims) (bind_name n (subject claims) s) = (g, t)"
    and eq: "reconcile_actor X n r m s = scale_actor X act claims n r m g t"
  have "target_cells t = target_cells s" and "cell_at t = cell_at s"
    using group_entry_frames(5,8) [OF gt] actor_at_cong [OF bind_name_frames(1)]
    by (simp_all add: cell_at_def fun_eq_iff)
  then show ?thesis
    using scale_actor_cells [of act claims t g X n r m] f group_entry_get [OF gt]
    unfolding eq fetched_def cells_grow_def by (metis insertCI)
qed (simp_all add: cells_grow_same)

lemma remove_actor_cells: "cells_grow s (snd (remove_actor n s))"
proof (cases "hm_get (actor_keys s) n")
  case None
  then show ?thesis
    by (simp add: remove_actor_unbound cells_grow_same)
next
  case (Some k)
  have "cell_at (snd (remove_actor n s)) k' n' = (if k' = k \<and> n' = n then None else cell_at s k' n')" for k' n'
    using actor_at_groups_without [of k n s k' n']
    by (simp add: remove_actor_bound [OF Some] cell_at_def actor_at_def)
  then show ?thesis
    by (auto simp: cells_grow_def)
qed

lemma cells_grow_owned:
  assumes "cells_grow s t" and "cells_owned s" and "host_inv D s"
  shows "cells_owned t"
  unfolding cells_owned_def
proof (intro allI impI)
  fix k n k' n' c
  assume at: "cell_at t k n = Some c" "cell_at t k' n' = Some c"
  obtain K N where grow: "\<And>k n. cell_at t k n \<in> {None, cell_at s k n} \<or>
      k = K \<and> n = N \<and> cell_at t k n = Some (length (target_cells s))"
    using assms(1) by (auto simp: cells_grow_def)
  have "cell_at s k n = Some c \<and> c < length (target_cells s) \<or> k = K \<and> n = N \<and> c = length (target_cells s)"
    if "cell_at t k n = Some c" for k n
    using grow [of k n] that cell_at_bound [OF assms(3), of k n c] by auto
  from this [OF at(1)] this [OF at(2)] show "k' = k \<and> n' = n"
    using assms(2) unfolding cells_owned_def by (metis less_irrefl)
qed

lemma host_step_cells:
  assumes "system_inv D s" and "host_step D s t"
  shows "cells_grow s t"
  using assms(2)
proof cases
  case (add_link X ld)
  then show ?thesis
    using add_linkdef_running_part [of D X ld s] by (simp add: running_part_def cells_grow_same)
next
  case (delete_link X ld)
  then show ?thesis
    using delete_linkdef_running_part [of D X ld s] by (simp add: running_part_def cells_grow_same)
next
  case (start Z l r)
  then show ?thesis
    using start_provider_actor_part [of s Z l r] assms(1)
    by (simp add: actor_part_def system_inv_def cells_grow_same)
next
  case (stop Z l k)
  then show ?thesis
    using stop_provider_actor_part [of Z l k s] by (simp add: actor_part_def cells_grow_same)
next
  case (retarget tgt ifaces hdl)
  then show ?thesis
    by (simp add: set_target_def Let_def cells_grow_same)
qed (simp_all add: reconcile_actor_cells remove_actor_cells)

interpretation cells_sys: transition_system initial_host "host_step D" "\<lambda>s. system_inv D s \<and> cells_owned s"
  for D :: digest
proof
  show "system_inv D s \<and> cells_owned s" if "initial_host s" for s
    using that host_sys.initial_inv host_new_empty(3)
    by (auto simp: initial_host_def cells_owned_def cell_at_def actor_at_def)
  show "system_inv D t \<and> cells_owned t" if "system_inv D s \<and> cells_owned s" "host_step D s t" for s t
    using that host_step_inv [of D s t] cells_grow_owned [OF host_step_cells [of D s t], of D]
    by (simp add: system_inv_def)
qed

section \<open>Choosing a target\<close>

lemma hm_get_insert_all:
  "hm_get (foldl (\<lambda>m i. hm_insert i t m) m is) j = (if j \<in> set is then Some t else hm_get m j)"
  by (induction "is" arbitrary: m) auto

lemma hm_get_remove_all:
  "hm_get (foldl (\<lambda>m i. hm_remove i m) m is) j = (if j \<in> set is then None else hm_get m j)"
  by (induction "is" arbitrary: m) auto

lemma target_for_set_target:
  assumes "hd_targets hdl < length (target_cells s)"
  shows "target_for (snd (set_target tgt ifaces hdl s)) hdl' iface =
    (if hd_targets hdl' = hd_targets hdl \<and> iface \<in> set ifaces then tgt else target_for s hdl' iface)"
  using assms
  by (cases "hd_targets hdl' = hd_targets hdl")
     (auto simp: target_for_def set_target_def Let_def hm_get_insert_all hm_get_remove_all split: option.split)

lemma instance_cell:
  assumes "host_inv D s" and "i \<in> set (instances_at s k n)"
  shows "cell_at s k n = Some (hd_targets (in_handler i))"
proof -
  obtain g a where g: "hm_get (actors s) k = Some g" "hm_get (ag_actors g) n = Some a"
    and i: "i \<in> set (ac_instances a)"
    by (rule instance_actor [OF assms(2)])
  then show ?thesis
    using actors_wfD(3) [OF host_invD(5) [OF assms(1)] g]
    by (simp add: actor_wf_def cell_at_def actor_at_def)
qed

end
