(* ===== verification/Kasm_Rpc_Props.thy ===== *)
theory Kasm_Rpc_Props
  imports Kasm_Rpc Kasm_Targets Kasm_Samples
begin

text \<open>
  Properties of calls: an actor reaches only what it is linked to and has the capability for, a call
  transports requests of any size to the guest and its answer back, the two implementations of
  calling agree, and the capability operations check and convert what they pass on.
\<close>

section \<open>Sample calls\<close>

text \<open>
  A codec that stores the values it encodes in a table would do; here the payloads are told apart by
  their first byte only, which is enough for one call at a time.
\<close>

definition sample_inv :: invocation where
  "sample_inv = \<lparr>inv_origin = no_entity\<lparr>ent_public_key := ''MOTHER''\<rparr>,
     inv_target = no_entity\<lparr>ent_public_key := ''MECHO''\<rparr>, inv_operation = ''echo/Echo.Run'',
     inv_msg = [1, 2, 3], inv_id = ''id-1'', inv_content_length = 3\<rparr>"

definition sample_handler :: handler where
  "sample_handler = \<lparr>hd_lattice_prefix = ''default'', hd_cluster_key = sample_kp Cluster,
     hd_host_key = sample_kp Server, hd_claims = echo_claims,
     hd_origin = no_entity\<lparr>ent_public_key := ''MOTHER''\<rparr>, hd_links = 0, hd_targets = 0\<rparr>"

definition sample_instance :: actor_instance where
  "sample_instance = \<lparr>in_id = 1, in_handler = sample_handler,
     in_pool = \<lparr>pool_actor = echo_module, pool_max = Some 1\<rparr>, in_valid_issuers = [''CK''], in_calls = 0\<rparr>"

definition sample_guest :: "(unit, unit) guest_ext" where
  "sample_guest = \<lparr>pool_instantiate = (\<lambda>_. Inr ()), set_stderr = Inr (), decode_http = (\<lambda>_. Inr ()),
     into_incoming_http = Inr (), http_handle = (\<lambda>_. Inr ()), encode_http = (\<lambda>_. Inr []),
     convert_http = (\<lambda>_. Inr ()), convert_req = (\<lambda>_. Inr ()),
     guest_call = (\<lambda>_ msg. (Inr (Inr ()), [[9], msg]))\<rparr>"

definition sample_resp :: invocation_response where
  "sample_resp = \<lparr>ir_invocation_id = ''id-1'', ir_msg = [9, 1, 2, 3], ir_content_length = 4, ir_error = None\<rparr>"

definition sample_call :: call_ext where
  "sample_call = \<lparr>decode_inv = (\<lambda>_. Inr sample_inv), antiforgery = (\<lambda>_ _. Inr ()), call_threshold = 900,
     fetch_chunks = (\<lambda>_. Inr []), chunkify_response = (\<lambda>_ _. Inr ()),
     response_default = \<lparr>ir_invocation_id = [], ir_msg = [], ir_content_length = 0, ir_error = None\<rparr>,
     encode_resp = (\<lambda>_. Inr [7]), publish_reply = (\<lambda>_ _. Inr ())\<rparr>"

definition sample_rpc :: rpc_ext where
  "sample_rpc = \<lparr>chunk_threshold = 900, inv_new = (\<lambda>_ _ _ _ _ _ _. Inr sample_inv),
     chunkify = (\<lambda>_ _. Inr ()), get_unchunkified = (\<lambda>_. Inr []), encode_inv = (\<lambda>_. Inr [5]),
     decode_resp = (\<lambda>_. Inr sample_resp),
     send_request = (\<lambda>_ p _ _. fst (handle_call sample_guest sample_call sample_instance p)),
     trace_context = [], header_name = Some, header_value = Some, default_entity = no_entity\<rparr>"

lemma sample_handled: "fst (handle_call sample_guest sample_call sample_instance p) = Inr [7]"
proof (rule handle_call_ok [where ivc = sample_inv and msg = "[1, 2, 3]" and ans = "Inr [9, 1, 2, 3]" and resp = sample_resp])
  show "handle_invocation sample_guest sample_instance (ent_contract_id (inv_origin sample_inv))
      (inv_operation sample_inv) [1, 2, 3] = Inr (Inr [9, 1, 2, 3])"
    by (simp add: handle_invocation_def ensure_actor_capability_def handle_operation_eq sample_guest_def
        sample_inv_def no_entity_def)
qed (simp_all add: sample_call_def sample_inv_def sample_resp_def respond_def pure_def)

lemma sample_answered:
  assumes "split_once (CHR ''/'') op = Some (package, rest)"
  shows "fst (call_operation_with_payload sample_rpc s sample_handler (Some (Actor (Key k))) op [1, 2, 3]) =
    Inr (Inr [9, 1, 2, 3])"
proof -
  have "fst (call_operation_with_payload sample_rpc s sample_handler (Some (Actor (Key k))) op [1, 2, 3]) =
    Inr (case ir_error sample_resp of Some err \<Rightarrow> Inl err | None \<Rightarrow> Inr (ir_msg sample_resp))"
    by (rule call_answered [OF assms, where ivc = sample_inv and sent = sample_inv and p = "[5]" and q = "[7]"])
      (simp_all add: sample_rpc_def sample_handled sample_resp_def resolve_target_def sample_inv_def
        ensure_actor_capability_def no_entity_def)
  then show ?thesis by (simp add: sample_resp_def)
qed

definition sample_wasi :: wasi_ext where
  "sample_wasi = \<lparr>enc = (\<lambda>_. Inr [1, 2, 3]), dec_unit = (\<lambda>_. Inr ()), dec_bool = (\<lambda>_. Inr True),
     dec_i32 = (\<lambda>_. Inr 42), dec_container = (\<lambda>_. Inr (''box'', Some 1700000000)),
     dec_object = (\<lambda>_. Inr \<lparr>go_success = True, go_error = None,
       go_initial_chunk = Some \<lparr>ch_object_id = ''a'', ch_container_id = ''box'', ch_bytes = [4, 5], ch_offset = 0,
         ch_is_last = True\<rparr>\<rparr>),
     dec_put = (\<lambda>_. Inr None), dec_items = (\<lambda>_. Inr []),
     dec_list = (\<lambda>_. Inr \<lparr>lo_objects = [], lo_is_last = True, lo_continuation = None\<rparr>),
     dec_metadata = (\<lambda>_. Inr \<lparr>om_object_id = [], om_container_id = [], om_content_length = 0\<rparr>),
     dec_value = (\<lambda>_. Inr ([], True)), dec_reply = (\<lambda>_. Inr ([], None, []))\<rparr>"

definition echo_key :: key_pair where
  "echo_key = \<lparr>key_pair_type = OtherKey, public_key = ''MECHO'', seed = Inr []\<rparr>"

definition targeted_host :: process where
  "targeted_host = sample_host\<lparr>target_cells :=
     [[(WasiKeyvalueAtomic, Actor (Key echo_key)), (WasiBlobstoreBlobstore, Actor (Key echo_key)),
       (WasmcloudMessagingConsumer, Actor (Key echo_key))]]\<rparr>"

lemma sample_targets:
  "target_for targeted_host sample_handler WasiKeyvalueAtomic = Some (Actor (Key echo_key))"
  "target_for targeted_host sample_handler WasiBlobstoreBlobstore = Some (Actor (Key echo_key))"
  "target_for targeted_host sample_handler WasmcloudMessagingConsumer = Some (Actor (Key echo_key))"
  by (simp_all add: target_for_def targeted_host_def sample_handler_def hm_get_def)

lemma sample_operation:
  assumes "split_once (CHR ''/'') op = Some (package, rest)"
  shows "fst (call_operation sample_rpc s sample_handler (Some (Actor (Key k))) op (Inr [1, 2, 3])) = Inr [9, 1, 2, 3]"
  using sample_answered [OF assms, of s k] by (simp add: call_operation_def flatten_call_def case_prod_beta)

subsection \<open>Numbers at the capability interfaces\<close>

lemma increment_exact:
  "fst (increment X W s hdl bucket key delta) = Inr new \<longleftrightarrow>
    bucket = [] \<and> unat delta < 2 ^ 31 \<and>
    (\<exists>v r i. sint v = int (unat delta) \<and>
       fst (call_operation X s hdl (target_for s hdl WasiKeyvalueAtomic)
         ''wasmcloud:keyvalue/KeyValue.Increment'' (enc W (Increment key v))) = Inr r \<and>
       decode_provider_response (dec_i32 W) r = Inr i \<and> uint new = sint i)"
proof -
  have "fst (increment X W s hdl bucket key delta) = Inr new \<longleftrightarrow>
    bucket = [] \<and> (\<exists>v r i. i32_try_from_u64 delta = Inr v \<and>
       fst (call_operation X s hdl (target_for s hdl WasiKeyvalueAtomic)
         ''wasmcloud:keyvalue/KeyValue.Increment'' (enc W (Increment key v))) = Inr r \<and>
       decode_provider_response (dec_i32 W) r = Inr i \<and> u64_try_from_int (sint i) = Inr new)"
    unfolding increment_def wasi_call_def rbind_Inr by (auto simp: pure_def and_then_Inr no_buckets_def)
  then show ?thesis by (simp add: i32_try_from_exact u64_try_from_int_exact)
qed

lemma increment_refused:
  "2 ^ 31 \<le> unat delta \<Longrightarrow> snd (increment X W s hdl bucket key delta) = []"
  by (simp add: increment_def pure_def no_buckets_def i32_try_from_u64_def out_of_range_def with_context_def)

lemma request_exact:
  "fst (message_request X W s hdl subj body timeout) = Inr m \<longleftrightarrow>
    (\<exists>ms r subj' reply' body'. unat ms = timeout div 1000000 \<and>
       fst (call_operation X s hdl (target_for s hdl WasmcloudMessagingConsumer) ''wasmcloud:messaging/Messaging.Request''
         (enc W (Request_message subj (case body of None \<Rightarrow> [] | Some b \<Rightarrow> b) ms))) = Inr r \<and>
       decode_provider_response (dec_reply W) r = Inr (subj', reply', body') \<and>
       m = \<lparr>bm_subject = subj', bm_reply_to = reply', bm_body = Some body'\<rparr>)"
  unfolding message_request_def wasi_call_def rbind_Inr
  by (auto simp: pure_def and_then_Inr u32_try_from_exact)

lemma request_refused:
  "2 ^ 32 \<le> timeout div 1000000 \<Longrightarrow> snd (message_request X W s hdl subj body timeout) = []"
  by (simp add: message_request_def pure_def u32_try_from_def out_of_range_def with_context_def)

lemma created_exact:
  "fst (container_info X W s hdl nm) = Inr (nm', created) \<longleftrightarrow>
    (\<exists>r at. fst (call_operation X s hdl (target_for s hdl WasiBlobstoreBlobstore)
         ''wasmcloud:blobstore/Blobstore.GetContainerInfo'' (enc W (Req_name nm))) = Inr r \<and>
       decode_provider_response (dec_container W) r = Inr (nm', at) \<and>
       uint created = (case at of None \<Rightarrow> 0 | Some sec \<Rightarrow> sec))"
proof -
  have sec: "(\<exists>c. (case at of None \<Rightarrow> Inr None | Some sec \<Rightarrow> map_sum (\<lambda>e. e) Some (u64_try_from_int sec)) = Inr c \<and>
      (case c of None \<Rightarrow> 0 | Some c \<Rightarrow> c) = created) \<longleftrightarrow>
    uint created = (case at of None \<Rightarrow> 0 | Some sec \<Rightarrow> sec)" for at
  proof (cases at)
    case (Some sec)
    then show ?thesis
      using u64_try_from_int_exact [of sec created] by (cases "u64_try_from_int sec") auto
  qed (auto simp: unsigned_eq_0_iff)
  have "fst (container_info X W s hdl nm) = Inr (nm', created) \<longleftrightarrow>
    (\<exists>r at. fst (call_operation X s hdl (target_for s hdl WasiBlobstoreBlobstore)
         ''wasmcloud:blobstore/Blobstore.GetContainerInfo'' (enc W (Req_name nm))) = Inr r \<and>
       decode_provider_response (dec_container W) r = Inr (nm', at) \<and>
       (\<exists>c. (case at of None \<Rightarrow> Inr None | Some sec \<Rightarrow> map_sum (\<lambda>e. e) Some (u64_try_from_int sec)) = Inr c \<and>
         (case c of None \<Rightarrow> 0 | Some c \<Rightarrow> c) = created))"
    unfolding container_info_def wasi_call_def rbind_Inr by (auto simp: pure_def and_then_Inr)
  then show ?thesis by (simp add: sec)
qed

lemma size_exact:
  assumes "fst (get_data X W s hdl container nm lo hi) = Inr (dat, sz)"
  shows "unat sz = length dat"
  using assms u64_try_from_unat unfolding get_data_def wasi_call_def rbind_Inr
  by (auto simp: pure_def and_then_Inr split: bool.splits option.splits)

text \<open>
  The first chunk is taken for the whole object: whether it is the last one, and where it starts, is not looked at
  (unlike in a listing of objects, which is refused unless it is complete).
\<close>

lemma first_chunk_taken_for_object:
  assumes "fst (call_operation X s hdl (target_for s hdl WasiBlobstoreBlobstore) ''wasmcloud:blobstore/Blobstore.GetObject''
      (enc W (Get_object nm container lo hi))) = Inr r"
    and "decode_provider_response (dec_object W) r =
      Inr \<lparr>go_success = True, go_error = None, go_initial_chunk = Some c\<rparr>"
    and "ch_object_id c = nm" "ch_container_id c = container" "length (ch_bytes c) < 2 ^ 64" "\<not> ch_is_last c"
  shows "fst (get_data X W s hdl container nm lo hi) = Inr (ch_bytes c, word_of_nat (length (ch_bytes c)))"
  using assms
  by (simp add: get_data_def wasi_call_def rbind_Inr pure_def u64_try_from_def ensure_def)

section \<open>Properties\<close>

text \<open>
  C4. Remote calls work: if the request reaches an instance of the target, the target's host accepts
  the signature and its guest answers, then the call returns that answer, be it a message or the
  guest's error, whatever the size of the request, provided that the answer is no longer than the chunk
  threshold. A request above the threshold is stored as chunks, and then one message is sent, for an
  invocation whose body is empty; a smaller one is in the message. The hypotheses are what the code relies on: that
  \<^verbatim>\<open>Invocation::new\<close> fills in its arguments, that the codecs decode what they encoded, that chunks are read
  back as they were stored, that the message reaches the target and the answer comes back.
\<close>

theorem call_roundtrip:
  assumes target: "split_once (CHR ''/'') op = Some (package, rest)"
      "resolve_target X tgt (hm_get (link_cells s ! hd_links hdl) package) (aliases s) = Inr ent"
    and new: "inv_new X (hd_cluster_key hdl) (hd_host_key hdl) (hd_origin hdl) ent op req (trace_context X) = Inr ivc"
      "inv_origin ivc = hd_origin hdl" "inv_target ivc = ent" "inv_operation ivc = op" "inv_msg ivc = req"
      "inv_content_length ivc = word_of_nat (length req)"
    and cap: "ensure_actor_capability (metadata (hd_claims hdl)) (ent_contract_id ent) = Inr ()"
    and same: "call_threshold Y = chunk_threshold X" "chunk_threshold X < 2 ^ 64" "length req < 2 ^ 64"
    and chunks: "chunk_threshold X < length req \<longrightarrow>
      chunkify X (inv_id ivc) req = Inr () \<and> fetch_chunks Y (inv_id ivc) = Inr req"
    and codec: "sent = (if chunk_threshold X < length req then ivc\<lparr>inv_msg := []\<rparr> else ivc)"
      "encode_inv X sent = Inr p" "decode_inv Y p = Inr sent"
      "encode_resp Y resp = Inr q" "decode_resp X q = Inr resp"
    and network: "\<And>h b. send_request X (call_topic (hd_lattice_prefix hdl) tgt ent) p b h = fst (handle_call G Y i p)"
    and accepts: "antiforgery Y sent (in_valid_issuers i) = Inr ()"
    and default: "response_default Y = \<lparr>ir_invocation_id = [], ir_msg = [], ir_content_length = 0, ir_error = None\<rparr>"
    and answer: "handle_invocation G i (ent_contract_id (hd_origin hdl)) op req = Inr ans"
      "\<forall>msg. ans = Inr msg \<longrightarrow> length msg \<le> chunk_threshold X"
      "fst (respond Y sent ans) = Inr resp"
  shows "call_operation_with_payload X s hdl tgt op req = (Inr ans,
    (if chunk_threshold X < length req then [Chunked (inv_id ivc) req] else []) @
    [Sent (call_topic (hd_lattice_prefix hdl) tgt ent) p (chunk_threshold X < length req)])"
proof -
  have sent: "inv_origin sent = hd_origin hdl" "inv_operation sent = op" "inv_id sent = inv_id ivc"
    "unat (inv_content_length sent) = length req"
    using new same(3) by (simp_all add: codec(1) unat_word_of_nat_64)
  have body: "(if call_threshold Y < unat (inv_content_length sent) then fetch_chunks Y (inv_id sent)
      else Inr (inv_msg sent)) = Inr req"
    unfolding sent same(1) using chunks new(5) by (simp add: codec(1))
  have q: "fst (handle_call G Y i p) = Inr q"
    by (rule handle_call_ok [OF codec(3) accepts body _ answer(3) codec(4)]) (simp add: sent answer(1))
  have resp: "resp = (case ans of
      Inr msg \<Rightarrow> (response_default Y)\<lparr>ir_msg := msg, ir_invocation_id := inv_id ivc,
        ir_content_length := word_of_nat (length msg)\<rparr>
    | Inl err \<Rightarrow> (response_default Y)\<lparr>ir_invocation_id := inv_id ivc, ir_error := Some err\<rparr>)"
    using respond_small [of ans Y sent] answer(2,3) same(1) by (cases ans) (simp_all add: sent(3))
  have ok: "ir_invocation_id resp = inv_id ivc" "unat (ir_content_length resp) = length (ir_msg resp)"
    "length (ir_msg resp) \<le> chunk_threshold X"
    "(case ir_error resp of Some err \<Rightarrow> Inl err | None \<Rightarrow> Inr (ir_msg resp)) = ans"
    using answer(2) same(2) by (cases ans; simp add: resp default unat_word_of_nat_64)+
  have "fst (call_operation_with_payload X s hdl tgt op req) = Inr ans"
    using call_answered [OF target new(1) _ _ codec(1,2) _ codec(5) ok(1)] cap chunks new network q ok
    by simp
  moreover note call_answered_sent [OF target new(1)]
  ultimately show ?thesis
    using cap chunks new(3,5) codec(1,2) by (simp add: prod_eq_iff)
qed

text \<open>
  Witnesses: a request of three bytes that is sent as it is, and, with a threshold of two bytes, one that
  travels as chunks to a guest that answers with one byte.
\<close>

definition chunked_call :: call_ext where
  "chunked_call = sample_call\<lparr>call_threshold := 2, decode_inv := (\<lambda>_. Inr (sample_inv\<lparr>inv_msg := []\<rparr>)),
     fetch_chunks := (\<lambda>_. Inr [1, 2, 3])\<rparr>"

definition brief_guest :: "(unit, unit) guest_ext" where
  "brief_guest = sample_guest\<lparr>guest_call := (\<lambda>_ _. (Inr (Inr ()), [[9]]))\<rparr>"

definition brief_resp :: invocation_response where
  "brief_resp = \<lparr>ir_invocation_id = ''id-1'', ir_msg = [9], ir_content_length = 1, ir_error = None\<rparr>"

definition chunked_rpc :: rpc_ext where
  "chunked_rpc = sample_rpc\<lparr>chunk_threshold := 2, decode_resp := (\<lambda>_. Inr brief_resp),
     send_request := (\<lambda>_ p _ _. fst (handle_call brief_guest chunked_call sample_instance p))\<rparr>"

theorem call_roundtrip_witness:
  "call_operation_with_payload sample_rpc sample_host sample_handler (Some (Actor (Key echo_key))) ''echo/Echo.Run'' [1, 2, 3] =
     (Inr (Inr [9, 1, 2, 3]), [Sent ''wasmbus.rpc.default.MECHO'' [5] False]) \<and>
   call_operation_with_payload chunked_rpc sample_host sample_handler (Some (Actor (Key echo_key))) ''echo/Echo.Run'' [1, 2, 3] =
     (Inr (Inr [9]), [Chunked ''id-1'' [1, 2, 3], Sent ''wasmbus.rpc.default.MECHO'' [5] True])"
proof -
  note defs = resolve_target_def sample_inv_def sample_handler_def sample_call_def respond_def pure_def
    no_entity_def ensure_actor_capability_def echo_key_def handle_invocation_def handle_operation_eq sample_guest_def
  let ?tgt = "Some (Actor (Key echo_key))" and ?ent = "no_entity\<lparr>ent_public_key := ''MECHO''\<rparr>"
  note trip = call_roundtrip [where package = "''echo''" and rest = "''Echo.Run''" and ivc = sample_inv and p = "[5]" and
      q = "[7]" and i = sample_instance and ent = ?ent and tgt = ?tgt and op = "''echo/Echo.Run''" and
      req = "[1, 2, 3]" and hdl = sample_handler and s = sample_host]
  have "call_operation_with_payload sample_rpc sample_host sample_handler ?tgt ''echo/Echo.Run'' [1, 2, 3] = (Inr (Inr [9, 1, 2, 3]),
      (if chunk_threshold sample_rpc < length [1, 2, 3 :: 8 word] then [Chunked (inv_id sample_inv) [1, 2, 3]] else []) @
      [Sent (call_topic (hd_lattice_prefix sample_handler) ?tgt ?ent) [5] (chunk_threshold sample_rpc < length [1, 2, 3 :: 8 word])])"
    by (rule trip [where sent = sample_inv and Y = sample_call and G = sample_guest and resp = sample_resp])
      (simp_all add: defs sample_rpc_def sample_resp_def)
  moreover have "call_operation_with_payload chunked_rpc sample_host sample_handler ?tgt ''echo/Echo.Run'' [1, 2, 3] = (Inr (Inr [9]),
      (if chunk_threshold chunked_rpc < length [1, 2, 3 :: 8 word] then [Chunked (inv_id sample_inv) [1, 2, 3]] else []) @
      [Sent (call_topic (hd_lattice_prefix sample_handler) ?tgt ?ent) [5] (chunk_threshold chunked_rpc < length [1, 2, 3 :: 8 word])])"
    by (rule trip [where sent = "sample_inv\<lparr>inv_msg := []\<rparr>" and Y = chunked_call and G = brief_guest and resp = brief_resp])
      (simp_all add: defs sample_rpc_def chunked_rpc_def chunked_call_def brief_guest_def brief_resp_def)
  ultimately show ?thesis
    by (simp add: call_topic_def sample_handler_def no_entity_def sample_inv_def chunked_rpc_def, simp add: sample_rpc_def)
qed

text \<open>
  C27. The two implementations of calling agree: the future returned by \<^verbatim>\<open>call\<close> sends exactly what the
  synchronous call sends and succeeds with a message exactly when it does.
\<close>

theorem call_future_agrees:
  "snd (call_future X s hdl tgt op (Inr req) (\<lambda>_. Inr ())) = snd (call_operation_with_payload X s hdl tgt op req) \<and>
   (fst (call_future X s hdl tgt op (Inr req) (\<lambda>_. Inr ())) = Inr msg \<longleftrightarrow>
    fst (call_operation_with_payload X s hdl tgt op req) = Inr (Inr msg))"
  using call_future_agree [of X s hdl tgt op req] by (simp add: agree_def)

text \<open>
  Nothing ever fills the table of call aliases, so in every reachable state a call to an alias
  fails before anything is sent.
\<close>

theorem alias_calls_fail:
  assumes "initial_host s" "(host_step D)\<^sup>*\<^sup>* s t"
    and "CHR ''/'' \<notin> set package"
  shows "call_operation_with_payload X t hdl (Some (Actor (Alias alias))) (package @ ''/'' @ rest) req =
    (Inl (Msg ''unknown actor call alias''), [])"
proof -
  have "aliases t = []"
    using host_sys.reachable_inv [OF assms(1,2)] by (simp add: system_inv_def)
  moreover have "split_once (CHR ''/'') (package @ ''/'' @ rest) = Some (package, rest)"
    using assms(3) by (simp add: split_once_Some)
  ultimately show ?thesis
    by (simp add: call_operation_with_payload_def resolve_target_def)
qed

theorem alias_calls_fail_witness:
  "call_operation_with_payload sample_rpc sample_host sample_handler (Some (Actor (Alias ''echo''))) ''x/Run'' [1] =
     (Inl (Msg ''unknown actor call alias''), [])"
  using alias_calls_fail [OF sample_initial rtranclp.rtrancl_refl [of "host_step sample_digest"], of "''x''"
      sample_rpc sample_handler "''echo''" "''Run''" "[1]"] by simp

text \<open>
  C26. A target that a guest chooses for some interfaces is the target of all running instances of its
  actor resource from then on, for exactly these interfaces, and of no instance of another one, not even of
  a resource that runs the same module.
\<close>

theorem set_target_scope:
  assumes reach: "initial_host s" "(host_step D)\<^sup>*\<^sup>* s t"
    and i: "i \<in> set (instances_at t k n)" and j: "j \<in> set (instances_at t k' n')"
  shows "target_for (snd (set_target tgt ifaces (in_handler i) t)) (in_handler j) iface =
    (if k' = k \<and> n' = n \<and> iface \<in> set ifaces then tgt else target_for t (in_handler j) iface)"
proof -
  have inv: "host_inv D t" and own: "cells_owned t"
    using cells_sys.reachable_inv [OF reach] by (auto simp: system_inv_def)
  note cells = instance_cell [OF inv i] instance_cell [OF inv j]
  have "hd_targets (in_handler j) = hd_targets (in_handler i) \<longleftrightarrow> k' = k \<and> n' = n"
    using cells own by (auto simp: cells_owned_def)
  then show ?thesis
    using target_for_set_target [OF cell_at_bound [OF inv cells(1)]] by simp
qed

theorem set_target_scope_witness:
  "\<exists>t i. (host_step sample_digest)\<^sup>*\<^sup>* sample_host t \<and> i \<in> set (instances_at t ''MECHO'' ''echo-default'') \<and>
     target_for (snd (set_target (Some (Link (Some ''test''))) [WasiBlobstoreBlobstore] (in_handler i) t))
       (in_handler i) WasiBlobstoreBlobstore = Some (Link (Some ''test''))"
proof (rule sample_linked_instance)
  fix t i
  assume t: "(host_step sample_digest)\<^sup>*\<^sup>* sample_host t" "i \<in> set (instances_at t ''MECHO'' ''echo-default'')"
  then show ?thesis
    using set_target_scope [OF sample_initial t t(2)] by (intro exI [of _ t] exI [of _ i]) simp
qed

text \<open>
  C21. A reply is published only for an invocation that decodes, carries a valid signature of a known
  issuer, and whose origin's contract the actor has the capability for; when handling fails on the
  host's side nothing is published at all.
\<close>

theorem replies_are_authentic:
  assumes "Published topic buf \<in> set (handle_message G Y i reply payload)"
  shows "reply = Some topic \<and> fst (handle_call G Y i payload) = Inr buf \<and>
    (\<exists>ivc. decode_inv Y payload = Inr ivc \<and> antiforgery Y ivc (in_valid_issuers i) = Inr () \<and>
       (ent_contract_id (inv_origin ivc) = [] \<or>
        (\<exists>a caps. metadata (hd_claims (in_handler i)) = Some a \<and> act_caps a = Some caps \<and>
           ent_contract_id (inv_origin ivc) \<in> set caps)))"
proof -
  have ok: "reply = Some topic" "fst (handle_call G Y i payload) = Inr buf"
    using assms by (auto simp: handle_message_def split: option.splits sum.splits)
  then obtain ivc msg ans where "decode_inv Y payload = Inr ivc" "antiforgery Y ivc (in_valid_issuers i) = Inr ()"
    "handle_invocation G i (ent_contract_id (inv_origin ivc)) (inv_operation ivc) msg = Inr ans"
    unfolding handle_call_def rbind_Inr by (auto simp: pure_def)
  then show ?thesis
    using ok handle_invocation_allowed by (metis ensure_actor_capability_iff)
qed

theorem replies_are_authentic_witness:
  "\<exists>ivc. decode_inv sample_call [5] = Inr ivc \<and> antiforgery sample_call ivc [''CK''] = Inr () \<and>
     Published ''_INBOX.1'' [7] \<in> set (handle_message sample_guest sample_call sample_instance (Some ''_INBOX.1'') [5])"
proof -
  have "fst (handle_call sample_guest sample_call sample_instance [5]) = Inr [7]"
    by (rule sample_handled)
  then have "Published ''_INBOX.1'' [7] \<in> set (handle_message sample_guest sample_call sample_instance (Some ''_INBOX.1'') [5])"
    by (simp add: handle_message_def) (simp add: sample_call_def)
  from replies_are_authentic [OF this] this show ?thesis by (auto simp: sample_instance_def)
qed

text \<open>
  C28. Numbers cross the capability interfaces unchanged. An increment succeeds exactly when the delta fits in 31
  bits, the call with this very delta is answered and the number in the answer is not negative, which is then what
  it returns; a request on a subject succeeds exactly when its timeout in whole milliseconds fits in 32 bits and the
  call that carries it is answered; the information on a container is the one in the answer to its own call, with the time of
  creation that the answer gives, or 0, and an error if it does not fit in 64 bits; the size of an object is that of
  the data. A delta or a timeout that does not fit is refused before anything is sent.
\<close>

theorem numbers_cross_exactly:
  "(fst (increment X W s hdl bucket key delta) = Inr new \<longleftrightarrow>
      bucket = [] \<and> unat delta < 2 ^ 31 \<and>
      (\<exists>v r i. sint v = int (unat delta) \<and>
         fst (call_operation X s hdl (target_for s hdl WasiKeyvalueAtomic)
           ''wasmcloud:keyvalue/KeyValue.Increment'' (enc W (Increment key v))) = Inr r \<and>
         decode_provider_response (dec_i32 W) r = Inr i \<and> uint new = sint i)) \<and>
   (fst (message_request X W s hdl subj body timeout) = Inr m \<longleftrightarrow>
      (\<exists>ms r subj' reply' body'. unat ms = timeout div 1000000 \<and>
         fst (call_operation X s hdl (target_for s hdl WasmcloudMessagingConsumer)
           ''wasmcloud:messaging/Messaging.Request''
           (enc W (Request_message subj (case body of None \<Rightarrow> [] | Some b \<Rightarrow> b) ms))) = Inr r \<and>
         decode_provider_response (dec_reply W) r = Inr (subj', reply', body') \<and>
         m = \<lparr>bm_subject = subj', bm_reply_to = reply', bm_body = Some body'\<rparr>)) \<and>
   (fst (container_info X W s hdl nm) = Inr (nm', created) \<longleftrightarrow>
      (\<exists>r at. fst (call_operation X s hdl (target_for s hdl WasiBlobstoreBlobstore)
           ''wasmcloud:blobstore/Blobstore.GetContainerInfo'' (enc W (Req_name nm))) = Inr r \<and>
         decode_provider_response (dec_container W) r = Inr (nm', at) \<and>
         uint created = (case at of None \<Rightarrow> 0 | Some sec \<Rightarrow> sec))) \<and>
   (fst (get_data X W s hdl container nm lo hi) = Inr (dat, sz) \<longrightarrow> unat sz = length dat) \<and>
   (2 ^ 31 \<le> unat delta \<longrightarrow> snd (increment X W s hdl bucket key delta) = []) \<and>
   (2 ^ 32 \<le> timeout div 1000000 \<longrightarrow> snd (message_request X W s hdl subj body timeout) = [])"
  by (intro conjI impI increment_exact request_exact created_exact; rule size_exact increment_refused request_refused)

theorem numbers_cross_exactly_witness:
  "(\<exists>v r. sint (v :: 32 word) = 5 \<and>
      fst (call_operation sample_rpc targeted_host sample_handler
        (target_for targeted_host sample_handler WasiKeyvalueAtomic)
        ''wasmcloud:keyvalue/KeyValue.Increment'' (enc sample_wasi (Increment ''hits'' v))) = Inr r) \<and>
   (\<exists>ms r. unat (ms :: 32 word) = 1500 \<and>
      fst (call_operation sample_rpc targeted_host sample_handler
        (target_for targeted_host sample_handler WasmcloudMessagingConsumer)
        ''wasmcloud:messaging/Messaging.Request'' (enc sample_wasi (Request_message ''jobs'' [1] ms))) = Inr r) \<and>
   fst (container_info sample_rpc sample_wasi targeted_host sample_handler ''box'') = Inr (''box'', 1700000000) \<and>
   fst (get_data sample_rpc sample_wasi targeted_host sample_handler ''box'' ''a'' 0 1) = Inr ([4, 5], 2) \<and>
   snd (message_request sample_rpc sample_wasi targeted_host sample_handler ''jobs'' (Some [1]) (2 ^ 52)) = []"
proof -
  note run = wasi_call_def rbind_Inr decode_provider_response_def pure_def sample_targets sample_wasi_def
  note op = sample_operation [of _ _ _ targeted_host echo_key]
  have a: "fst (increment sample_rpc sample_wasi targeted_host sample_handler [] ''hits'' 5) = Inr 42"
    using op [of "''wasmcloud:keyvalue/KeyValue.Increment''" "''wasmcloud:keyvalue''" "''KeyValue.Increment''"]
    by (simp add: increment_def no_buckets_def i32_try_from_u64_def u64_try_from_int_def run)
  have b: "fst (message_request sample_rpc sample_wasi targeted_host sample_handler ''jobs'' (Some [1]) 1500000000) =
      Inr \<lparr>bm_subject = [], bm_reply_to = None, bm_body = Some []\<rparr>"
    using op [of "''wasmcloud:messaging/Messaging.Request''" "''wasmcloud:messaging''" "''Messaging.Request''"]
    by (simp add: message_request_def u32_try_from_def run)
  have c: "fst (container_info sample_rpc sample_wasi targeted_host sample_handler ''box'') = Inr (''box'', 1700000000)"
    using op [of "''wasmcloud:blobstore/Blobstore.GetContainerInfo''" "''wasmcloud:blobstore''" "''Blobstore.GetContainerInfo''"]
    by (simp add: container_info_def u64_try_from_int_def run)
  have d: "fst (get_data sample_rpc sample_wasi targeted_host sample_handler ''box'' ''a'' 0 1) = Inr ([4, 5], 2)"
    using op [of "''wasmcloud:blobstore/Blobstore.GetObject''" "''wasmcloud:blobstore''" "''Blobstore.GetObject''"]
    by (simp add: get_data_def u64_try_from_def ensure_def run)
  note all = numbers_cross_exactly [where X = sample_rpc and W = sample_wasi and s = targeted_host and hdl = sample_handler]
  note 1 = all [THEN conjunct1, THEN iffD1, OF a]
  note 2 = all [THEN conjunct2, THEN conjunct1, THEN iffD1, OF b]
  note 3 = all [THEN conjunct2, THEN conjunct2, THEN conjunct2, THEN conjunct2, THEN conjunct2, rule_format,
      of "2 ^ 52" "''jobs''" "Some [1]"]
  from 1 2 3 c d show ?thesis by auto
qed

text \<open>
  Deleting objects succeeds exactly when the provider reports success, without an error, for every
  one of them.
\<close>

theorem delete_objects_all_or_error:
  "fst (delete_objects X W s hdl container nms) = Inr () \<longleftrightarrow>
    (\<exists>r items. fst (call_operation X s hdl (target_for s hdl WasiBlobstoreBlobstore)
         ''wasmcloud:blobstore/Blobstore.RemoveObjects'' (enc W (Remove_objects container nms))) = Inr r \<and>
       decode_provider_response (dec_items W) r = Inr items \<and>
       (\<forall>it \<in> set items. it_success it \<and> it_error it = None))"
proof -
  have "check_items items = Inr () \<longleftrightarrow> (\<forall>it \<in> set items. it_success it \<and> it_error it = None)" for items
    by (induction items) (auto simp: and_then_Inr ensure_def split: option.split)
  then show ?thesis
    unfolding delete_objects_def wasi_call_def rbind_Inr by (auto simp: pure_def and_then_Inr)
qed

theorem delete_objects_all_or_error_witness:
  "fst (delete_objects sample_rpc sample_wasi targeted_host sample_handler ''box'' [''a'']) = Inr ()"
proof -
  have "fst (call_operation sample_rpc targeted_host sample_handler (Some (Actor (Key echo_key)))
      ''wasmcloud:blobstore/Blobstore.RemoveObjects'' (Inr [1, 2, 3])) = Inr [9, 1, 2, 3]"
    by (rule sample_operation [of _ "''wasmcloud:blobstore''" "''Blobstore.RemoveObjects''"]) simp
  then show ?thesis
    unfolding delete_objects_all_or_error
    by (simp add: sample_targets sample_wasi_def decode_provider_response_def)
qed

end
