(* ===== verification/Kasm_Interleaving.thy ===== *)
theory Kasm_Interleaving
  imports Kasm_Host
begin

text \<open>
  The operations of the host, one lock region at a time. The controllers run every reconciliation as a
  task of its own on a multi-threaded runtime, so that the operations of \<^verbatim>\<open>crates/host/src/lib.rs\<close>
  interleave at the points where they hold none of the host's locks. An \<open>activity\<close> is an operation
  with its local variables at such a point; \<open>advance\<close> executes the region up to the next one. What a
  region reads and writes is protected by the locks it holds, so that a region is one step.

  A reconciliation keeps a pointer to the group of its actor from one region to the next. Groups are
  identified by their key and link table (\<open>ag_links\<close>), which no two groups share. A group that has left the
  host's map is empty at that moment; what is written to it later, through such a pointer, is kept in
  \<open>sh_detached\<close>.
\<close>

section \<open>Activities\<close>

record shared =
  sh_host :: process
  sh_detached :: "(string \<times> nat, actor_group) hmap"

datatype outcome =
    Actor_outcome "actor_claims res"
  | Provider_outcome "provider_claims res"
  | Unit_outcome "unit res"

datatype activity =
    Rec_fetch actor_ext string string nat
  | Rec_check actor_ext string string nat rt_actor actor_claims
  | Rec_bind actor_ext string string nat rt_actor actor_claims
  | Rec_group actor_ext string string nat rt_actor actor_claims
  | Rec_scale actor_ext string string nat rt_actor actor_claims nat
  | Rem_lookup string
  | Rem_group string string
  | Rem_unbind string
  | Put_link link_ext link_definition
  | Put_table link_ext link_definition
  | Put_publish link_ext link_definition
  | Del_link link_ext link_definition
  | Del_table link_ext link_definition
  | Del_publish link_ext link_definition
  | Start_provider provider_ext string string
  | Stop_provider provider_ext string string
  | Finished outcome

section \<open>Regions\<close>

text \<open>The group a pointer refers to, if the host still has it.\<close>

definition attached :: "string \<Rightarrow> nat \<Rightarrow> process \<Rightarrow> actor_group option" where
  "attached key gid s =
     (case hm_get (actors s) key of
        None \<Rightarrow> None
      | Some g \<Rightarrow> if ag_links g = gid then Some g else None)"

definition detached :: "string \<Rightarrow> nat \<Rightarrow> shared \<Rightarrow> actor_group" where
  "detached key gid sh =
     hm_get_or \<lparr>ag_public_key = key, ag_actors = [], ag_links = gid\<rparr> (sh_detached sh) (key, gid)"

text \<open>
  Scaling an actor of the group behind the pointer \<open>gid\<close>. The code is the same for a group the host
  has forgotten; then the host's map is not what it writes to.
\<close>

definition scale_through ::
    "actor_ext \<Rightarrow> rt_actor \<Rightarrow> actor_claims \<Rightarrow> string \<Rightarrow> string \<Rightarrow> nat \<Rightarrow> nat \<Rightarrow> shared \<Rightarrow>
     actor_claims res \<times> shared" where
  "scale_through X act claims n r m gid sh =
     (let s = sh_host sh; key = subject claims
      in case attached key gid s of
           Some g \<Rightarrow>
             let (q, t) = scale_actor X act claims n r m g s
             in (q, sh\<lparr>sh_host := t\<rparr>)
         | None \<Rightarrow>
             let g = detached key gid sh;
                 (q, t) = scale_actor X act claims n r m g (s\<lparr>actors := hm_insert key g (actors s)\<rparr>);
                 g = (case hm_get (actors t) key of None \<Rightarrow> g | Some g' \<Rightarrow> g')
             in (q, \<lparr>sh_host = t\<lparr>actors := actors s\<rparr>,
                     sh_detached = hm_insert (key, gid) g (sh_detached sh)\<rparr>))"

text \<open>The second region of \<^verbatim>\<open>remove_actor\<close>, under the write lock of the host's map of groups.\<close>

definition leave_group :: "string \<Rightarrow> string \<Rightarrow> process \<Rightarrow> process" where
  "leave_group n pk s =
     (case hm_get (actors s) pk of
        None \<Rightarrow> s
      | Some grp \<Rightarrow>
          let (grp, s) =
                (case hm_get (ag_actors grp) n of
                   None \<Rightarrow> (grp, s)
                 | Some a \<Rightarrow>
                     let grp = grp\<lparr>ag_actors := hm_remove n (ag_actors grp)\<rparr>
                     in (grp, abort_calls (ac_instances a)
                           (s\<lparr>actors := hm_insert pk grp (actors s)\<rparr>)))
          in if ag_actors grp = [] then s\<lparr>actors := hm_remove pk (actors s)\<rparr> else s)"

text \<open>Announcing a link definition on the topic for \<open>verb\<close>.\<close>

definition announce ::
    "link_ext \<Rightarrow> link_definition \<Rightarrow> string \<Rightarrow> string \<Rightarrow> process \<Rightarrow> unit res \<times> process" where
  "announce X ld verb failure s =
     (case with_context ''failed to encode link definition'' (encode_ld X ld) of
        Inl e \<Rightarrow> (Inl e, s)
      | Inr msgp \<Rightarrow>
          let (r, s) = publish X (linkdefs_topic s ld verb) msgp s
          in (with_context failure r, s))"

definition on_host :: "shared \<Rightarrow> (process \<Rightarrow> process) \<Rightarrow> shared" where
  "on_host sh f = sh\<lparr>sh_host := f (sh_host sh)\<rparr>"

fun advance :: "digest \<Rightarrow> activity \<Rightarrow> shared \<Rightarrow> activity \<times> shared" where
  "advance D (Rec_fetch X n r m) sh =
     ((case fetch_actor X r (sh_host sh) of
         Inl e \<Rightarrow> Finished (Actor_outcome (Inl e))
       | Inr act \<Rightarrow>
           (case some_or ''claims missing'' (rt_claims act) of
              Inl e \<Rightarrow> Finished (Actor_outcome (Inl e))
            | Inr claims \<Rightarrow> Rec_check X n r m act claims)), sh)"
| "advance D (Rec_check X n r m act claims) sh =
     (if (case hm_get (actor_keys (sh_host sh)) n of
            Some pk \<Rightarrow> pk \<noteq> subject claims | None \<Rightarrow> False)
      then Finished (Actor_outcome (Inl (Msg ''actor public key is change'')))
      else Rec_bind X n r m act claims, sh)"
| "advance D (Rec_bind X n r m act claims) sh =
     (Rec_group X n r m act claims,
      on_host sh (\<lambda>s. case hm_get (actor_keys s) n of
         None \<Rightarrow> s\<lparr>actor_keys := hm_insert n (subject claims) (actor_keys s)\<rparr> | Some _ \<Rightarrow> s))"
| "advance D (Rec_group X n r m act claims) sh =
     (let (grp, s) = group_entry (subject claims) (sh_host sh)
      in (Rec_scale X n r m act claims (ag_links grp), sh\<lparr>sh_host := s\<rparr>))"
| "advance D (Rec_scale X n r m act claims gid) sh =
     (let (q, sh) = scale_through X act claims n r m gid sh
      in (Finished (Actor_outcome q), sh))"
| "advance D (Rem_lookup n) sh =
     (case hm_get (actor_keys (sh_host sh)) n of
        None \<Rightarrow> Finished (Unit_outcome (Inr ()))
      | Some pk \<Rightarrow> Rem_group n pk, sh)"
| "advance D (Rem_group n pk) sh = (Rem_unbind n, on_host sh (leave_group n pk))"
| "advance D (Rem_unbind n) sh =
     (Finished (Unit_outcome (Inr ())),
      on_host sh (\<lambda>s. s\<lparr>actor_keys := hm_remove n (actor_keys s)\<rparr>))"
| "advance D (Put_link X ld) sh =
     (let id = linkdef_hash D (ld_actor_id ld) (ld_contract_id ld) (ld_link_name ld)
      in case hm_get (links (sh_host sh)) id of
           Some _ \<Rightarrow> (Finished (Unit_outcome (Inr ())), sh)
         | None \<Rightarrow> (Put_table X ld, on_host sh (\<lambda>s. s\<lparr>links := hm_insert id ld (links s)\<rparr>)))"
| "advance D (Put_table X ld) sh =
     (Put_publish X ld, on_host sh (update_table (ld_actor_id ld) (\<lambda>t. put_link t ld)))"
| "advance D (Put_publish X ld) sh =
     (let (r, s) = announce X ld ''put'' ''failed to publish link deinition'' (sh_host sh)
      in (Finished (Unit_outcome r), sh\<lparr>sh_host := s\<rparr>))"
| "advance D (Del_link X ld) sh =
     (let id = linkdef_hash D (ld_actor_id ld) (ld_contract_id ld) (ld_link_name ld)
      in case hm_get (links (sh_host sh)) id of
           None \<Rightarrow> (Finished (Unit_outcome (Inl (Msg ''attempt to remove a non-exitent link''))), sh)
         | Some ld \<Rightarrow> (Del_table X ld, on_host sh (\<lambda>s. s\<lparr>links := hm_remove id (links s)\<rparr>)))"
| "advance D (Del_table X ld) sh =
     (Del_publish X ld,
      on_host sh (update_table (ld_actor_id ld) (table_del (ld_contract_id ld) (ld_link_name ld))))"
| "advance D (Del_publish X ld) sh =
     (let (r, s) = announce X ld ''del'' ''failed to publish link definition deletion'' (sh_host sh)
      in (Finished (Unit_outcome r), sh\<lparr>sh_host := s\<rparr>))"
| "advance D (Start_provider X l r) sh =
     (let (q, s) = start_provider X l r (sh_host sh)
      in (Finished (Provider_outcome q), sh\<lparr>sh_host := s\<rparr>))"
| "advance D (Stop_provider X l k) sh =
     (let (q, s) = stop_provider X l k (sh_host sh)
      in (Finished (Unit_outcome q), sh\<lparr>sh_host := s\<rparr>))"
| "advance D (Finished q) sh = (Finished q, sh)"

section \<open>Who may run beside whom\<close>

text \<open>
  The controllers hold the write lock of \<^verbatim>\<open>Ctx.links\<close> throughout \<^verbatim>\<open>add_linkdef\<close> and \<^verbatim>\<open>delete_linkdef\<close>, and
  the runtime never reconciles one object twice at the same time. Everything else may overlap.
\<close>

fun is_link_op :: "activity \<Rightarrow> bool" where
  "is_link_op (Put_link X ld) = True"
| "is_link_op (Put_table X ld) = True"
| "is_link_op (Put_publish X ld) = True"
| "is_link_op (Del_link X ld) = True"
| "is_link_op (Del_table X ld) = True"
| "is_link_op (Del_publish X ld) = True"
| "is_link_op _ = False"

fun resource :: "activity \<Rightarrow> string option" where
  "resource (Rec_fetch X n r m) = Some n"
| "resource (Rec_check X n r m act claims) = Some n"
| "resource (Rec_bind X n r m act claims) = Some n"
| "resource (Rec_group X n r m act claims) = Some n"
| "resource (Rec_scale X n r m act claims gid) = Some n"
| "resource (Rem_lookup n) = Some n"
| "resource (Rem_group n pk) = Some n"
| "resource (Rem_unbind n) = Some n"
| "resource _ = None"

definition clash :: "activity \<Rightarrow> activity \<Rightarrow> bool" where
  "clash a b \<longleftrightarrow> is_link_op a \<and> is_link_op b \<or> resource a \<noteq> None \<and> resource a = resource b"

fun starting :: "activity \<Rightarrow> bool" where
  "starting (Rec_fetch X n r m) = True"
| "starting (Rem_lookup n) = True"
| "starting (Put_link X ld) = True"
| "starting (Del_link X ld) = True"
| "starting (Start_provider X l r) = True"
| "starting (Stop_provider X l k) = True"
| "starting _ = False"

fun finished :: "activity \<Rightarrow> bool" where
  "finished (Finished q) = True"
| "finished _ = False"

record world =
  wd_shared :: shared
  wd_acts :: "activity list"

abbreviation wd_host :: "world \<Rightarrow> process" where
  "wd_host w \<equiv> sh_host (wd_shared w)"

inductive conc_move :: "digest \<Rightarrow> world \<Rightarrow> world \<Rightarrow> bool" for D :: digest where
  move: "i < length (wd_acts w) \<Longrightarrow> \<not> finished (wd_acts w ! i) \<Longrightarrow>
    advance D (wd_acts w ! i) (wd_shared w) = (a, sh) \<Longrightarrow>
    conc_move D w \<lparr>wd_shared = sh, wd_acts = (wd_acts w)[i := a]\<rparr>"

inductive conc_step :: "digest \<Rightarrow> world \<Rightarrow> world \<Rightarrow> bool" for D :: digest where
  arrive: "starting a \<Longrightarrow> \<forall>b \<in> set (wd_acts w). \<not> clash a b \<Longrightarrow>
    conc_step D w (w\<lparr>wd_acts := wd_acts w @ [a]\<rparr>)"
| advance: "conc_move D w v \<Longrightarrow> conc_step D w v"

definition initial_world :: "world \<Rightarrow> bool" where
  "initial_world w \<longleftrightarrow>
     initial_host (wd_host w) \<and> sh_detached (wd_shared w) = [] \<and> wd_acts w = []"

section \<open>What other activities leave alone\<close>

text \<open>
  The part of the state that belongs to the resource \<open>n\<close>: its key, and its actor in every group the
  host has or had.
\<close>

definition slot where
  "slot n sh =
     (hm_get (actor_keys (sh_host sh)) n, (\<lambda>k. actor_at (sh_host sh) k n),
      (\<lambda>k gid. hm_get (ag_actors (detached k gid sh)) n))"

lemma slot_cong:
  assumes "actor_keys (sh_host sh') = actor_keys (sh_host sh)" "actors (sh_host sh') = actors (sh_host sh)"
    and "sh_detached sh' = sh_detached sh"
  shows "slot n sh' = slot n sh"
  using assms actor_at_cong [of "sh_host sh'" "sh_host sh"] by (simp add: slot_def detached_def)

lemma leave_group_eq:
  "leave_group n pk s = abort_calls (instances_at s pk n) (s\<lparr>actors := groups_without pk n s\<rparr>)"
proof (cases "hm_get (actors s) pk")
  case None
  then show ?thesis
    by (simp add: leave_group_def instances_at_def actor_at_def groups_without_def)
next
  case (Some g)
  show ?thesis
  proof (cases "hm_get (ag_actors g) n")
    case None
    then have "g\<lparr>ag_actors := hm_remove n (ag_actors g)\<rparr> = g"
      by (simp add: hm_remove_absent)
    with None Some show ?thesis
      by (simp add: leave_group_def instances_at_def actor_at_def groups_without_def hm_insert_self)
  next
    case a: (Some a)
    with Some show ?thesis
      by (simp add: leave_group_def instances_at_def actor_at_def groups_without_def Let_def
          abort_calls_actors)
  qed
qed

lemma leave_group_actor_at:
  "actor_at (leave_group n pk s) k n' = (if k = pk \<and> n' = n then None else actor_at s k n')"
  using actor_at_groups_without [of pk n s k n'] actor_at_cong [OF abort_calls_frames(1)]
  by (simp add: leave_group_eq)

lemma leave_group_frames [simp]:
  "actor_keys (leave_group n pk s) = actor_keys s"
  "links (leave_group n pk s) = links s"
  "link_cells (leave_group n pk s) = link_cells s"
  by (simp_all add: leave_group_eq) (simp add: abort_calls_def emit_def)

lemma announce_state: "\<exists>es. snd (announce X ld verb f s) = emit es s"
  by (auto simp: announce_def publish_def Let_def intro: exI [of _ "[]"] split: sum.split)

lemma scale_actor_groups:
  assumes c: "rt_claims act = Some claims" and g: "hm_get (actors s) (subject claims) = Some g"
  obtains (same) "actors (snd (scale_actor X act claims n r m g s)) = actors s"
  | (set) a where "actors (snd (scale_actor X act claims n r m g s)) =
      hm_insert (subject claims) (g\<lparr>ag_actors := hm_insert n a (ag_actors g)\<rparr>) (actors s)"
proof (cases "hm_get (ag_actors g) n")
  case None
  show ?thesis
    by (rule scale_absent_cases [OF c None, of m X r s]; rule same set)
      (simp_all add: set_actor_def g)
next
  case (Some a)
  show ?thesis
    by (rule scale_present_cases [OF Some, of m X act claims r s]; rule same set)
      (simp_all add: set_actor_def g)
qed

text \<open>Scaling through a pointer: either the host's group is written, or a group of its own.\<close>

abbreviation swapped_in :: "string \<Rightarrow> nat \<Rightarrow> shared \<Rightarrow> process" where
  "swapped_in k gid sh \<equiv> (sh_host sh)\<lparr>actors := hm_insert k (detached k gid sh) (actors (sh_host sh))\<rparr>"

lemma scale_through_attached:
  assumes "attached (subject claims) gid (sh_host sh) = Some g"
  shows "scale_through X act claims n r m gid sh =
    (fst (scale_actor X act claims n r m g (sh_host sh)),
     sh\<lparr>sh_host := snd (scale_actor X act claims n r m g (sh_host sh))\<rparr>)"
  using assms by (simp add: scale_through_def case_prod_beta Let_def)

lemma scale_through_detached:
  assumes c: "rt_claims act = Some claims" and d: "attached (subject claims) gid (sh_host sh) = None"
  obtains g where
    "scale_through X act claims n r m gid sh =
      (fst (scale_actor X act claims n r m (detached (subject claims) gid sh) (swapped_in (subject claims) gid sh)),
       \<lparr>sh_host = (snd (scale_actor X act claims n r m (detached (subject claims) gid sh)
                    (swapped_in (subject claims) gid sh)))\<lparr>actors := actors (sh_host sh)\<rparr>,
        sh_detached = hm_insert (subject claims, gid) g (sh_detached sh)\<rparr>)"
    "hm_get (actors (snd (scale_actor X act claims n r m (detached (subject claims) gid sh)
        (swapped_in (subject claims) gid sh)))) (subject claims) = Some g"
    "\<And>n'. n' \<noteq> n \<Longrightarrow> hm_get (ag_actors g) n' = hm_get (ag_actors (detached (subject claims) gid sh)) n'"
proof -
  let ?k = "subject claims" and ?g = "detached (subject claims) gid sh"
  let ?t = "snd (scale_actor X act claims n r m ?g (swapped_in ?k gid sh))"
  have g: "hm_get (actors (swapped_in ?k gid sh)) ?k = Some ?g" by simp
  obtain g' where g': "hm_get (actors ?t) ?k = Some g'"
    and oth: "\<And>n'. n' \<noteq> n \<Longrightarrow> hm_get (ag_actors g') n' = hm_get (ag_actors ?g) n'"
    by (rule scale_actor_groups [OF c g, of X n r m]) auto
  with d show ?thesis
    by (intro that [of g']) (simp_all add: scale_through_def case_prod_beta Let_def)
qed

lemma detached_insert [simp]:
  "detached k' gid' \<lparr>sh_host = s, sh_detached = hm_insert (k, gid) g (sh_detached sh)\<rparr> =
     (if k' = k \<and> gid' = gid then g else detached k' gid' sh)"
  by (simp add: detached_def hm_get_or_def)

lemma detached_cong: "sh_detached sh' = sh_detached sh \<Longrightarrow> detached k gid sh' = detached k gid sh"
  by (simp add: detached_def)

lemma attached_SomeD: "attached k gid s = Some g \<Longrightarrow> hm_get (actors s) k = Some g \<and> ag_links g = gid"
  by (auto simp: attached_def split: option.splits if_splits)

lemma scale_through_slot:
  assumes c: "rt_claims act = Some claims" and n: "n' \<noteq> n"
  shows "slot n' (snd (scale_through X act claims n r m gid sh)) = slot n' sh"
proof (cases "attached (subject claims) gid (sh_host sh)")
  case (Some g)
  have g: "hm_get (actors (sh_host sh)) (subject claims) = Some g"
    using attached_SomeD [OF Some] by simp
  have "actor_at (snd (scale_actor X act claims n r m g (sh_host sh))) k n' = actor_at (sh_host sh) k n'" for k
    using n by (rule_tac scale_actor_groups [OF c g, of X n r m]) (auto simp: actor_at_def g)
  then show ?thesis
    using scale_actor_frames [OF c, of X n r m g "sh_host sh"]
    by (simp add: scale_through_attached [OF Some] slot_def detached_def)
next
  case None
  show ?thesis
  proof (rule scale_through_detached [OF c None, of X n r m])
    fix g
    assume eq: "scale_through X act claims n r m gid sh =
      (fst (scale_actor X act claims n r m (detached (subject claims) gid sh) (swapped_in (subject claims) gid sh)),
       \<lparr>sh_host = (snd (scale_actor X act claims n r m (detached (subject claims) gid sh)
                    (swapped_in (subject claims) gid sh)))\<lparr>actors := actors (sh_host sh)\<rparr>,
        sh_detached = hm_insert (subject claims, gid) g (sh_detached sh)\<rparr>)"
      and "\<And>n'. n' \<noteq> n \<Longrightarrow> hm_get (ag_actors g) n' = hm_get (ag_actors (detached (subject claims) gid sh)) n'"
    then have g: "hm_get (ag_actors g) n' = hm_get (ag_actors (detached (subject claims) gid sh)) n'"
      using n by simp
    show ?thesis
      using scale_actor_frames [OF c, of X n r m "detached (subject claims) gid sh" "swapped_in (subject claims) gid sh"]
      by (auto simp: eq g slot_def actor_at_def fun_eq_iff)
  qed
qed

section \<open>The invariant\<close>

text \<open>The place in the link tables that a link operation has still to write.\<close>

definition place :: "link_definition \<Rightarrow> string \<times> string \<times> string" where
  "place ld = (ld_actor_id ld, ld_contract_id ld, ld_link_name ld)"

fun pending :: "activity \<Rightarrow> (string \<times> string \<times> string) set" where
  "pending (Put_table X ld) = {place ld}"
| "pending (Del_table X ld) = {place ld}"
| "pending _ = {}"

text \<open>What an activity relies on in the middle of its operation.\<close>

fun act_ok :: "digest \<Rightarrow> shared \<Rightarrow> activity \<Rightarrow> bool" where
  "act_ok D sh (Rec_check X n r m act claims) \<longleftrightarrow> rt_claims act = Some claims"
| "act_ok D sh (Rec_bind X n r m act claims) \<longleftrightarrow> rt_claims act = Some claims \<and>
     hm_get (actor_keys (sh_host sh)) n \<in> {None, Some (subject claims)}"
| "act_ok D sh (Rec_group X n r m act claims) \<longleftrightarrow> rt_claims act = Some claims \<and>
     hm_get (actor_keys (sh_host sh)) n = Some (subject claims)"
| "act_ok D sh (Rec_scale X n r m act claims gid) \<longleftrightarrow> rt_claims act = Some claims \<and>
     hm_get (actor_keys (sh_host sh)) n = Some (subject claims) \<and>
     hm_get (ag_actors (detached (subject claims) gid sh)) n = None \<and>
     gid < length (link_cells (sh_host sh))"
| "act_ok D sh (Rem_group n pk) \<longleftrightarrow> hm_get (actor_keys (sh_host sh)) n = Some pk"
| "act_ok D sh (Rem_unbind n) \<longleftrightarrow> (\<forall>k. actor_at (sh_host sh) k n = None)"
| "act_ok D sh (Put_table X ld) \<longleftrightarrow> hm_get (links (sh_host sh)) (ld_hash D ld) = Some ld"
| "act_ok D sh (Del_table X ld) \<longleftrightarrow> hm_get (links (sh_host sh)) (ld_hash D ld) = None"
| "act_ok D sh _ \<longleftrightarrow> True"

text \<open>
  The state between two regions: the invariant of a host, except for the place a link operation is
  about to write; and a group the host has was never written to as a detached one.
\<close>

definition shared_inv :: "(string \<times> string \<times> string) set \<Rightarrow> digest \<Rightarrow> shared \<Rightarrow> bool" where
  "shared_inv P D sh \<longleftrightarrow>
     host_inv_upto P D (sh_host sh) \<and> providers_inv (sh_host sh) \<and> aliases (sh_host sh) = [] \<and>
     (\<forall>k g. hm_get (actors (sh_host sh)) k = Some g \<longrightarrow> hm_get (sh_detached sh) (k, ag_links g) = None) \<and>
     (\<forall>k gid g. hm_get (sh_detached sh) (k, gid) = Some g \<longrightarrow> gid < length (link_cells (sh_host sh)))"

definition conc_inv :: "digest \<Rightarrow> world \<Rightarrow> bool" where
  "conc_inv D w \<longleftrightarrow>
     shared_inv (\<Union> (pending ` set (wd_acts w))) D (wd_shared w) \<and>
     (\<forall>a \<in> set (wd_acts w). act_ok D (wd_shared w) a) \<and>
     (\<forall>i < length (wd_acts w). \<forall>j < length (wd_acts w). i \<noteq> j \<longrightarrow> \<not> clash (wd_acts w ! i) (wd_acts w ! j))"

lemma shared_invD:
  assumes "shared_inv P D sh"
  shows "host_inv_upto P D (sh_host sh)" "providers_inv (sh_host sh)" "aliases (sh_host sh) = []"
    "hm_get (actors (sh_host sh)) k = Some g \<Longrightarrow> hm_get (sh_detached sh) (k, ag_links g) = None"
    "hm_get (sh_detached sh) (k, gid) = Some g \<Longrightarrow> gid < length (link_cells (sh_host sh))"
  using assms unfolding shared_inv_def by blast+

lemma on_host_simps [simp]:
  "sh_host (on_host sh f) = f (sh_host sh)"
  "sh_detached (on_host sh f) = sh_detached sh"
  by (simp_all add: on_host_def)

subsection \<open>Interference\<close>

lemma detached_frames [simp]:
  "detached k gid (sh\<lparr>sh_host := s\<rparr>) = detached k gid sh"
  "detached k gid (on_host sh f) = detached k gid sh"
  by (simp_all add: detached_def)

lemma group_entry_slot:
  "slot n (sh\<lparr>sh_host := snd (group_entry k (sh_host sh))\<rparr>) = slot n sh"
  using group_entry_frames [of k "sh_host sh"] by (cases "group_entry k (sh_host sh)") (auto simp: slot_def)

lemma announce_slot: "slot n (sh\<lparr>sh_host := snd (announce X ld verb f (sh_host sh))\<rparr>) = slot n sh"
  using announce_state [of X ld verb f "sh_host sh"] by (auto intro!: slot_cong)

lemma provider_slot:
  "actor_part t = actor_part (sh_host sh) \<Longrightarrow> slot n (sh\<lparr>sh_host := t\<rparr>) = slot n sh"
  by (rule slot_cong) (simp_all add: actor_part_def)

lemma advance_slot:
  assumes "shared_inv P D sh" "act_ok D sh b" "resource b \<noteq> Some n"
  shows "slot n (snd (advance D b sh)) = slot n sh"
proof (cases b)
  case (Rec_scale X n' r m act claims gid)
  with assms show ?thesis by (simp add: case_prod_beta scale_through_slot)
next
  case (Rem_group n' pk)
  with assms show ?thesis by (simp add: slot_def leave_group_actor_at)
next
  case (Start_provider X l r)
  with start_provider_actor_part [OF shared_invD(2) [OF assms(1)], of X l r] show ?thesis
    by (simp add: case_prod_beta provider_slot)
next
  case (Stop_provider X l r)
  then show ?thesis
    by (simp add: case_prod_beta provider_slot stop_provider_actor_part)
next
  case (Rec_bind X n' r m act claims)
  with assms show ?thesis by (auto simp: slot_def actor_at_def split: option.split)
next
  case (Rem_unbind n')
  with assms show ?thesis by (auto simp: slot_def actor_at_def)
qed (auto simp: case_prod_beta group_entry_slot announce_slot Let_def intro!: slot_cong split: option.split)

lemma scale_through_frames:
  assumes c: "rt_claims act = Some claims"
  shows "links (sh_host (snd (scale_through X act claims n r m gid sh))) = links (sh_host sh)"
    and "link_cells (sh_host (snd (scale_through X act claims n r m gid sh))) = link_cells (sh_host sh)"
    and "actor_keys (sh_host (snd (scale_through X act claims n r m gid sh))) = actor_keys (sh_host sh)"
  using scale_actor_frames [OF c]
  by (auto simp: scale_through_def case_prod_beta Let_def split: option.split)

lemma group_entry_cells: "length (link_cells s) \<le> length (link_cells (snd (group_entry k s)))"
  by (simp add: group_entry_def Let_def split: option.split)

lemma group_entry_links: "links (snd (group_entry k s)) = links s"
  by (simp add: group_entry_def Let_def split: option.split)

lemma advance_links:
  assumes "shared_inv P D sh" "act_ok D sh b" "\<not> is_link_op b"
  shows "links (sh_host (snd (advance D b sh))) = links (sh_host sh)"
proof (cases b)
  case (Start_provider X l r)
  with start_provider_actor_part [OF shared_invD(2) [OF assms(1)], of X l r] show ?thesis
    by (simp add: case_prod_beta actor_part_def)
next
  case (Stop_provider X l k)
  with stop_provider_actor_part [of X l k "sh_host sh"] show ?thesis
    by (simp add: case_prod_beta actor_part_def)
qed (use assms in \<open>auto simp: case_prod_beta scale_through_frames group_entry_links split: option.split\<close>)

lemma advance_cells:
  assumes "shared_inv P D sh" "act_ok D sh b"
  shows "length (link_cells (sh_host sh)) \<le> length (link_cells (sh_host (snd (advance D b sh))))"
proof (cases b)
  case (Start_provider X l r)
  with start_provider_actor_part [OF shared_invD(2) [OF assms(1)], of X l r] show ?thesis
    by (simp add: case_prod_beta actor_part_def)
next
  case (Stop_provider X l k)
  with stop_provider_actor_part [of X l k "sh_host sh"] show ?thesis
    by (simp add: case_prod_beta actor_part_def)
next
  case (Put_publish X ld)
  with announce_state [of X ld "''put''" "''failed to publish link deinition''" "sh_host sh"] show ?thesis
    by (auto simp: case_prod_beta)
next
  case (Del_publish X ld)
  with announce_state [of X ld "''del''" "''failed to publish link definition deletion''" "sh_host sh"]
  show ?thesis by (auto simp: case_prod_beta)
qed (use assms in \<open>auto simp: case_prod_beta scale_through_frames group_entry_cells Let_def split: option.split\<close>)

text \<open>So an activity that does not clash with the one that moves keeps what it relies on.\<close>

lemma act_ok_stable:
  assumes inv: "shared_inv P D sh" and b: "act_ok D sh b" and a: "act_ok D sh a" and nc: "\<not> clash a b"
  shows "act_ok D (snd (advance D b sh)) a"
proof -
  have res: "slot n (snd (advance D b sh)) = slot n sh" if "resource a = Some n" for n
    using advance_slot [OF inv b, of n] nc that by (auto simp: clash_def)
  have lnk: "links (sh_host (snd (advance D b sh))) = links (sh_host sh)" if "is_link_op a"
    using advance_links [OF inv b] nc that by (auto simp: clash_def)
  show ?thesis
    using a res lnk advance_cells [OF inv b] by (cases a) (auto simp: slot_def fun_eq_iff)
qed

subsection \<open>Own steps\<close>

text \<open>A link operation is exact again once it has written the table.\<close>

lemma links_write_upto:
  assumes inv: "links_inv D s" and wf: "links_wf D (s\<lparr>links := ls\<rparr>)"
    and oth: "\<And>k c l. (k, c, l) \<noteq> p \<Longrightarrow> linked (s\<lparr>links := ls\<rparr>) k c l = linked s k c l"
  shows "links_inv_upto {p} D (s\<lparr>links := ls\<rparr>)"
  using assms by (auto simp: links_inv_upto_def groups_wf_def tables_agree_upto_def)

lemma put_link_upto:
  assumes inv: "links_inv D s" and vac: "hm_get (links s) (ld_hash D ld) = None"
  shows "links_inv_upto {place ld} D (s\<lparr>links := hm_insert (ld_hash D ld) ld (links s)\<rparr>)"
proof (rule links_write_upto [OF inv])
  have wf: "links_wf D s" using inv by (simp add: links_inv_def)
  show "links_wf D (s\<lparr>links := hm_insert (ld_hash D ld) ld (links s)\<rparr>)"
    using wf by (auto simp: links_wf_def split: if_splits)
  show "linked (s\<lparr>links := hm_insert (ld_hash D ld) ld (links s)\<rparr>) k c l = linked s k c l"
    if "(k, c, l) \<noteq> place ld" for k c l
    using that by (auto simp: linked_insert [OF wf vac] link_matches_def place_def)
qed

lemma del_link_upto:
  assumes inv: "links_inv D s" and occ: "hm_get (links s) i = Some ld"
  shows "links_inv_upto {place ld} D (s\<lparr>links := hm_remove i (links s)\<rparr>)"
proof (rule links_write_upto [OF inv])
  have wf: "links_wf D s" using inv by (simp add: links_inv_def)
  show "links_wf D (s\<lparr>links := hm_remove i (links s)\<rparr>)"
    using wf by (auto simp: links_wf_def split: if_splits)
  show "linked (s\<lparr>links := hm_remove i (links s)\<rparr>) k c l = linked s k c l"
    if "(k, c, l) \<noteq> place ld" for k c l
    using that by (auto simp: linked_remove [OF wf occ] link_matches_def place_def)
qed

lemma put_table_exact:
  assumes inv: "links_inv_upto {place ld} D s" and occ: "hm_get (links s) (ld_hash D ld) = Some ld"
  shows "links_inv D (update_table (ld_actor_id ld) (\<lambda>t. put_link t ld) s)"
proof -
  have wf: "links_wf D s" "groups_wf s" and ag: "tables_agree_upto {place ld} s"
    using inv by (auto simp: links_inv_upto_def)
  have "linked s (ld_actor_id ld) (ld_contract_id ld) (ld_link_name ld) = Some (entity_of ld)"
    using occ by (simp add: linked_lookup [OF wf(1)] flip: ld_hash_def)
  with ag show ?thesis
    by (intro links_inv_update_table [OF wf])
      (auto simp: tables_agree_upto_def place_def table_get_put_link)
qed

lemma del_table_exact:
  assumes inv: "links_inv_upto {place ld} D s" and vac: "hm_get (links s) (ld_hash D ld) = None"
  shows "links_inv D (update_table (ld_actor_id ld) (table_del (ld_contract_id ld) (ld_link_name ld)) s)"
proof -
  have wf: "links_wf D s" "groups_wf s" and ag: "tables_agree_upto {place ld} s"
    using inv by (auto simp: links_inv_upto_def)
  have "linked s (ld_actor_id ld) (ld_contract_id ld) (ld_link_name ld) = None"
    using vac by (simp add: linked_lookup [OF wf(1)] flip: ld_hash_def)
  with ag show ?thesis
    by (intro links_inv_update_table [OF wf]) (auto simp: tables_agree_upto_def place_def)
qed

lemma shared_inv_links:
  assumes "shared_inv P D sh" "running_part t = running_part (sh_host sh)"
    and "provider_part t = provider_part (sh_host sh)" "length (link_cells t) = length (link_cells (sh_host sh))"
    and "links_inv_upto Q D t"
  shows "shared_inv Q D (sh\<lparr>sh_host := t\<rparr>)"
  using assms host_inv_running_part [of t "sh_host sh" Q D P] providers_inv_part [of t "sh_host sh"]
  by (auto simp: shared_inv_def running_part_def provider_part_def)

lemma on_host_eq: "on_host sh f = sh\<lparr>sh_host := f (sh_host sh)\<rparr>"
  by (simp add: on_host_def)

lemma shared_inv_linksD: "shared_inv P D sh \<Longrightarrow> links_inv_upto P D (sh_host sh)"
  by (simp add: shared_inv_def host_inv_upto_def)

lemma announce_inv:
  "shared_inv P D sh \<Longrightarrow> shared_inv P D (sh\<lparr>sh_host := snd (announce X ld verb f (sh_host sh))\<rparr>)"
  using announce_state [of X ld verb f "sh_host sh"]
  by (auto intro!: shared_inv_links simp: running_part_def shared_inv_linksD)

lemma link_op_inv:
  assumes inv: "shared_inv (pending b) D sh" and ok: "act_ok D sh b" and op: "is_link_op b"
  shows "shared_inv (pending (fst (advance D b sh))) D (snd (advance D b sh)) \<and>
    act_ok D (snd (advance D b sh)) (fst (advance D b sh))"
  using op
proof (cases b)
  case (Put_link X ld)
  show ?thesis
  proof (cases "hm_get (links (sh_host sh)) (ld_hash D ld)")
    case None
    with Put_link inv show ?thesis
      by (auto simp: on_host_eq running_part_def simp flip: ld_hash_def
          intro!: shared_inv_links put_link_upto dest: shared_inv_linksD)
  qed (use Put_link inv in \<open>simp flip: ld_hash_def\<close>)
next
  case (Put_table X ld)
  with inv ok show ?thesis
    by (auto simp: on_host_eq running_part_def
        intro!: shared_inv_links put_table_exact dest: shared_inv_linksD)
next
  case (Del_link X ld)
  show ?thesis
  proof (cases "hm_get (links (sh_host sh)) (ld_hash D ld)")
    case (Some ld')
    with Del_link inv have "ld_hash D ld' = ld_hash D ld"
      by (auto dest: links_wfD host_inv_uptoD(2) shared_invD(1))
    with Some Del_link inv show ?thesis
      by (auto simp: on_host_eq running_part_def simp flip: ld_hash_def
          intro!: shared_inv_links del_link_upto dest: shared_inv_linksD)
  qed (use Del_link inv in \<open>simp flip: ld_hash_def\<close>)
next
  case (Del_table X ld)
  with inv ok show ?thesis
    by (auto simp: on_host_eq running_part_def
        intro!: shared_inv_links del_table_exact dest: shared_inv_linksD)
qed (use inv in \<open>auto simp: case_prod_beta intro: announce_inv\<close>)

lemma provider_op_inv:
  assumes "shared_inv P D sh" "actor_part t = actor_part (sh_host sh)" "providers_inv t"
  shows "shared_inv P D (sh\<lparr>sh_host := t\<rparr>)"
  using assms host_inv_part [of t "sh_host sh" P D] by (auto simp: shared_inv_def actor_part_def)

text \<open>
  The regions of actors. They leave providers alone; the groups they leave in the map were in the map
  before, or are new and have a link table of their own.
\<close>

lemma actor_op_inv:
  assumes "shared_inv P D sh" "host_inv_upto P D t" "provider_part t = provider_part (sh_host sh)"
    and "length (link_cells (sh_host sh)) \<le> length (link_cells t)"
    and "\<And>k g. hm_get (actors t) k = Some g \<Longrightarrow>
      ag_links g = length (link_cells (sh_host sh)) \<or>
      (\<exists>h. hm_get (actors (sh_host sh)) k = Some h \<and> ag_links h = ag_links g)"
  shows "shared_inv P D (sh\<lparr>sh_host := t\<rparr>)"
proof -
  have "hm_get (sh_detached sh) (k, ag_links g) = None" if "hm_get (actors t) k = Some g" for k g
    using assms(5) [OF that]
  proof
    assume "ag_links g = length (link_cells (sh_host sh))"
    then show ?thesis
      using shared_invD(5) [OF assms(1), of k "ag_links g"] by (cases "hm_get (sh_detached sh) (k, ag_links g)") auto
  next
    assume "\<exists>h. hm_get (actors (sh_host sh)) k = Some h \<and> ag_links h = ag_links g"
    then show ?thesis using shared_invD(4) [OF assms(1), of k] by auto
  qed
  moreover have "gid < length (link_cells t)" if "hm_get (sh_detached sh) (k, gid) = Some g" for k gid g
    using shared_invD(5) [OF assms(1) that] assms(4) by simp
  ultimately show ?thesis
    using assms(2,3) shared_invD(2,3) [OF assms(1)] providers_inv_part [OF assms(3)]
    by (auto simp: shared_inv_def provider_part_def)
qed

lemma actors_restored:
  "(set_actor k n a s)\<lparr>actors := gs\<rparr> = s\<lparr>actors := gs\<rparr>"
  "(spawn_tasks tp j s)\<lparr>actors := gs\<rparr> = spawn_tasks tp j (s\<lparr>actors := gs\<rparr>)"
  "(with_targets s)\<lparr>actors := gs\<rparr> = with_targets (s\<lparr>actors := gs\<rparr>)"
  "(s :: process)\<lparr>actors := actors s\<rparr> = s"
  by (simp_all add: set_actor_def spawn_tasks_def emit_def with_targets_def split: option.split)

lemma scale_detached_inv:
  assumes inv: "shared_inv P D sh" and c: "rt_claims act = Some claims"
    and det: "attached (subject claims) gid (sh_host sh) = None"
    and n: "hm_get (ag_actors (detached (subject claims) gid sh)) n = None"
    and gid: "gid < length (link_cells (sh_host sh))"
  shows "shared_inv P D (snd (scale_through X act claims n r m gid sh))"
proof -
  let ?g = "detached (subject claims) gid sh" and ?s = "sh_host sh"
  let ?t = "(snd (scale_actor X act claims n r m ?g (swapped_in (subject claims) gid sh)))\<lparr>actors := actors ?s\<rparr>"
  have new: "host_inv_upto P D (with_targets ?s)"
    unfolding with_targets_def by (rule new_targets_inv [OF shared_invD(1) [OF inv]])
  have T: "actor_topic (swapped_in (subject claims) gid sh) = actor_topic ?s"
    by (rule actor_topic_cong) simp
  consider "?t = ?s" | j where "?t = spawn_tasks (actor_topic ?s (subject claims)) j (with_targets ?s)"
    by (rule scale_absent_cases [OF c n, of m X r "swapped_in (subject claims) gid sh"])
      (simp_all add: T actors_restored)
  then have "host_inv_upto P D ?t \<and> provider_part ?t = provider_part ?s"
    using shared_invD(1) [OF inv] spawn_tasks_inv [OF new] by cases auto
  moreover obtain g where
    "snd (scale_through X act claims n r m gid sh) =
      \<lparr>sh_host = ?t, sh_detached = hm_insert (subject claims, gid) g (sh_detached sh)\<rparr>"
    by (rule scale_through_detached [OF c det, of X n r m]) auto
  moreover have "link_cells ?t = link_cells ?s"
    using scale_actor_frames [OF c] by simp
  moreover have "ag_links h \<noteq> gid" if "hm_get (actors ?s) (subject claims) = Some h" for h
    using det that by (auto simp: attached_def split: if_splits)
  ultimately show ?thesis
    unfolding shared_inv_def using shared_invD [OF inv] gid providers_inv_part [of ?t ?s]
    by (simp add: provider_part_def) blast
qed

lemma scale_attached_inv:
  assumes inv: "shared_inv P D sh" and c: "rt_claims act = Some claims"
    and att: "attached (subject claims) gid (sh_host sh) = Some g"
    and n: "hm_get (actor_keys (sh_host sh)) n = Some (subject claims)"
  shows "shared_inv P D (snd (scale_through X act claims n r m gid sh))"
proof -
  let ?t = "snd (scale_actor X act claims n r m g (sh_host sh))"
  have g: "hm_get (actors (sh_host sh)) (subject claims) = Some g"
    using attached_SomeD [OF att] by simp
  have "\<exists>h. hm_get (actors (sh_host sh)) k = Some h \<and> ag_links h = ag_links g'"
    if "hm_get (actors ?t) k = Some g'" for k g'
    by (rule scale_actor_groups [OF c g, of X n r m]) (use that g in \<open>auto split: if_splits\<close>)
  then have "shared_inv P D (sh\<lparr>sh_host := ?t\<rparr>)"
    using scale_actor_inv [OF shared_invD(1) [OF inv] c g n] scale_actor_frames [OF c]
    by (intro actor_op_inv [OF inv]) (auto simp: scale_actor_provider_part [OF c])
  then show ?thesis by (simp add: scale_through_attached [OF att])
qed

lemma group_entry_shared_inv:
  assumes inv: "shared_inv P D sh"
  shows "shared_inv P D (sh\<lparr>sh_host := snd (group_entry k (sh_host sh))\<rparr>)"
proof (rule actor_op_inv [OF inv])
  obtain g t where gt: "group_entry k (sh_host sh) = (g, t)" by fastforce
  show "host_inv_upto P D (snd (group_entry k (sh_host sh)))"
    using group_entry_inv [OF shared_invD(1) [OF inv] gt] by (simp add: gt)
  show "provider_part (snd (group_entry k (sh_host sh))) = provider_part (sh_host sh)"
    using group_entry_provider_part [OF gt] by (simp add: gt)
  show "ag_links g = length (link_cells (sh_host sh)) \<or>
      (\<exists>h. hm_get (actors (sh_host sh)) k' = Some h \<and> ag_links h = ag_links g)"
    if "hm_get (actors (snd (group_entry k (sh_host sh)))) k' = Some g" for k' g
    using that by (auto simp: group_entry_def Let_def split: option.splits if_splits)
qed (rule group_entry_cells)

lemma group_entry_pointer:
  assumes inv: "shared_inv P D sh" and gt: "group_entry k (sh_host sh) = (g, t)"
  shows "hm_get (ag_actors (detached k (ag_links g) sh)) n = None" "ag_links g < length (link_cells t)"
proof -
  have "shared_inv P D (sh\<lparr>sh_host := t\<rparr>)"
    using group_entry_shared_inv [OF inv, of k] by (simp add: gt)
  from shared_invD(1,4) [OF this] group_entry_get [OF gt]
  show "hm_get (ag_actors (detached k (ag_links g) sh)) n = None" "ag_links g < length (link_cells t)"
    by (auto simp: detached_def hm_get_or_def hm.get_emp dest: groups_wfD(3) [OF host_inv_uptoD(3)])
qed

lemma leave_group_shared_inv:
  assumes inv: "shared_inv P D sh"
  shows "shared_inv P D (sh\<lparr>sh_host := leave_group n pk (sh_host sh)\<rparr>)"
proof (rule actor_op_inv [OF inv])
  show "host_inv_upto P D (leave_group n pk (sh_host sh))"
    unfolding leave_group_eq by (rule groups_without_inv [OF shared_invD(1) [OF inv]])
  show "provider_part (leave_group n pk (sh_host sh)) = provider_part (sh_host sh)"
    by (simp add: leave_group_eq) (simp add: provider_part_def)
  show "ag_links g = length (link_cells (sh_host sh)) \<or>
      (\<exists>h. hm_get (actors (sh_host sh)) k' = Some h \<and> ag_links h = ag_links g)"
    if "hm_get (actors (leave_group n pk (sh_host sh))) k' = Some g" for k' g
    using that by (auto simp: leave_group_eq groups_without_def Let_def split: option.splits if_splits)
qed simp

lemma leave_group_free:
  assumes "shared_inv P D sh" "hm_get (actor_keys (sh_host sh)) n = Some pk"
  shows "actor_at (leave_group n pk (sh_host sh)) k n = None"
  using actors_wf_actor_at [OF host_inv_uptoD(5) [OF shared_invD(1) [OF assms(1)]], of k n] assms(2)
  by (cases "actor_at (sh_host sh) k n") (auto simp: leave_group_actor_at)

lemma keys_shared_inv:
  assumes "shared_inv P D sh" "host_inv_upto P D ((sh_host sh)\<lparr>actor_keys := ks\<rparr>)"
  shows "shared_inv P D (sh\<lparr>sh_host := (sh_host sh)\<lparr>actor_keys := ks\<rparr>\<rparr>)"
  by (rule actor_op_inv [OF assms]) (auto simp: provider_part_def)

lemma actor_regions_inv:
  assumes inv: "shared_inv P D sh" and ok: "act_ok D sh b" and op: "resource b \<noteq> None"
  shows "shared_inv P D (snd (advance D b sh)) \<and> act_ok D (snd (advance D b sh)) (fst (advance D b sh))"
  using op
proof (cases b)
  case (Rec_fetch X n r m)
  with inv show ?thesis by (auto simp: some_or_def split: sum.split option.split)
next
  case (Rec_check X n r m act claims)
  with inv ok show ?thesis by (auto split: option.split)
next
  case (Rec_bind X n r m act claims)
  with inv ok show ?thesis
    by (auto simp: on_host_eq intro!: keys_shared_inv bind_name_inv dest: shared_invD(1))
next
  case (Rec_group X n r m act claims)
  obtain g t where gt: "group_entry (subject claims) (sh_host sh) = (g, t)" by fastforce
  with Rec_group ok group_entry_shared_inv [OF inv, of "subject claims"] group_entry_pointer [OF inv gt]
    group_entry_frames(1) [OF gt] show ?thesis by simp
next
  case (Rec_scale X n r m act claims gid)
  with ok inv show ?thesis
    by (cases "attached (subject claims) gid (sh_host sh)")
      (auto simp: case_prod_beta intro: scale_attached_inv scale_detached_inv)
next
  case (Rem_lookup n)
  with inv show ?thesis by (auto split: option.split)
next
  case (Rem_group n pk)
  with inv ok show ?thesis
    by (auto simp: on_host_eq leave_group_free intro: leave_group_shared_inv)
next
  case (Rem_unbind n)
  with inv ok show ?thesis
    by (auto simp: on_host_eq intro!: keys_shared_inv unbind_inv dest: shared_invD(1))
qed simp_all

lemma advance_inv:
  assumes inv: "shared_inv P D sh" and ok: "act_ok D sh b" and P: "is_link_op b \<Longrightarrow> P = pending b"
    and fin: "\<not> finished b"
  shows "shared_inv (if is_link_op b then pending (fst (advance D b sh)) else P) D (snd (advance D b sh))"
    and "act_ok D (snd (advance D b sh)) (fst (advance D b sh))"
proof -
  consider "is_link_op b" | "resource b \<noteq> None" "\<not> is_link_op b"
    | X l r where "b = Start_provider X l r" | X l k where "b = Stop_provider X l k"
    using fin by (cases b) auto
  then have "shared_inv (if is_link_op b then pending (fst (advance D b sh)) else P) D (snd (advance D b sh)) \<and>
    act_ok D (snd (advance D b sh)) (fst (advance D b sh))"
  proof cases
    case 1
    with link_op_inv [of b D sh] inv ok P show ?thesis by simp
  next
    case 2
    with actor_regions_inv [OF inv ok] show ?thesis by simp
  next
    case (3 X l r)
    with inv show ?thesis
      by (auto simp: case_prod_beta intro!: provider_op_inv start_provider_actor_part start_provider_inv
          dest: shared_invD(2))
  next
    case (4 X l k)
    with inv show ?thesis
      by (auto simp: case_prod_beta intro!: provider_op_inv stop_provider_actor_part stop_provider_inv
          dest: shared_invD(2))
  qed
  then show "shared_inv (if is_link_op b then pending (fst (advance D b sh)) else P) D (snd (advance D b sh))"
    and "act_ok D (snd (advance D b sh)) (fst (advance D b sh))" by simp_all
qed

subsection \<open>All activities\<close>

lemma advance_link_op: "is_link_op (fst (advance D b sh)) \<Longrightarrow> is_link_op b"
  by (cases b) (simp_all add: Let_def case_prod_beta split: sum.splits option.splits if_splits)

lemma advance_resource: "resource (fst (advance D b sh)) \<in> {None, resource b}"
  by (cases b) (simp_all add: Let_def case_prod_beta split: sum.split option.split)

lemma pending_link_op: "pending a \<noteq> {} \<Longrightarrow> is_link_op a"
  by (cases a) auto

lemma union_all: "\<Union> (f ` set xs) = (\<Union>j < length xs. f (xs ! j))"
  by (simp add: set_conv_nth) blast

lemma clash_sym: "clash a b \<longleftrightarrow> clash b a"
  by (auto simp: clash_def)

lemma clash_advance: "clash a (fst (advance D b sh)) \<Longrightarrow> clash a b"
  using advance_link_op [of D b sh] advance_resource [of D b sh] by (auto simp: clash_def)

text \<open>What only link operations have, at most one activity at a time has.\<close>

lemma link_op_update:
  assumes f: "\<And>a. f a \<noteq> {} \<Longrightarrow> is_link_op a" and i: "i < length xs" and nc: "\<And>j. j < length xs \<Longrightarrow> j \<noteq> i \<Longrightarrow> \<not> clash (xs ! j) (xs ! i)"
    and a: "is_link_op a \<Longrightarrow> is_link_op (xs ! i)"
  shows "\<Union> (f ` set (xs[i := a])) =
      (if is_link_op (xs ! i) then f a else \<Union> (f ` set xs))"
    and "is_link_op (xs ! i) \<Longrightarrow> \<Union> (f ` set xs) = f (xs ! i)"
proof -
  have oth: "f (xs ! j) = {}" if "is_link_op (xs ! i)" "j < length xs" "j \<noteq> i" for j
    using that nc [of j] f [of "xs ! j"] by (auto simp: clash_def)
  then show "\<Union> (f ` set xs) = f (xs ! i)" if "is_link_op (xs ! i)"
    using that i unfolding union_all by (intro set_eqI) (use oth in \<open>fastforce\<close>)
  have none: "f (xs ! i) = {}" "f a = {}" if "\<not> is_link_op (xs ! i)"
    using that a f by auto
  show "\<Union> (f ` set (xs[i := a])) =
      (if is_link_op (xs ! i) then f a else \<Union> (f ` set xs))"
  proof (cases "is_link_op (xs ! i)")
    case True
    then have "x \<in> f a" if "x \<in> f (xs[i := a] ! j)" "j < length xs" for x j
      using that oth [OF True, of j] by (cases "j = i") auto
    with True i show ?thesis unfolding union_all by force
  next
    case False
    have "f (xs[i := a] ! j) = f (xs ! j)" if "j < length xs" for j
      using none [OF False] i by (cases "j = i") simp_all
    with False show ?thesis unfolding union_all by simp
  qed
qed

lemma conc_move_inv:
  assumes inv: "conc_inv D w" and mv: "conc_move D w v"
  shows "conc_inv D v"
  using mv
proof cases
  case (move i a sh)
  let ?xs = "wd_acts w" and ?b = "wd_acts w ! i" and ?sh = "wd_shared w"
  have nc: "\<not> clash (?xs ! j) (?xs ! k)" if "j < length ?xs" "k < length ?xs" "j \<noteq> k" for j k
    using inv that by (simp add: conc_inv_def)
  have ok: "act_ok D ?sh (?xs ! j)" if "j < length ?xs" for j
    using inv that by (simp add: conc_inv_def)
  have sinv: "shared_inv (\<Union> (pending ` set ?xs)) D ?sh"
    using inv by (simp add: conc_inv_def)
  have a: "a = fst (advance D ?b ?sh)" "sh = snd (advance D ?b ?sh)"
    using move(4) by simp_all
  note pu = link_op_update [where f = pending, OF pending_link_op move(2) nc [OF _ move(2)], of a]
  note adv = advance_inv [OF sinv ok [OF move(2)] _ move(3)]
  have lop: "is_link_op a \<Longrightarrow> is_link_op ?b" using advance_link_op [of D ?b ?sh] by (simp add: a)
  have "shared_inv (\<Union> (pending ` set (?xs[i := a]))) D sh"
    unfolding pu(1) [OF _ _ _ lop, simplified] using adv(1) pu(2) lop by (simp add: a split: if_splits)
  moreover have "act_ok D sh (?xs[i := a] ! j)" if "j < length ?xs" for j
    using adv(2) pu(2) lop
      act_ok_stable [OF sinv ok [OF move(2)] ok [OF that]] nc [OF that move(2)] that
    by (cases "j = i") (simp_all add: a)
  moreover have "\<not> clash (?xs[i := a] ! j) (?xs[i := a] ! k)"
    if "j < length ?xs" "k < length ?xs" "j \<noteq> k" for j k
    using that nc [OF that] nc [OF that(1) move(2)] nc [OF that(2) move(2)] move(2) clash_sym [of a "?xs ! k"]
      clash_advance [of "?xs ! j" D ?b ?sh] clash_advance [of "?xs ! k" D ?b ?sh]
    by (cases "j = i"; cases "k = i") (auto simp: a)
  ultimately show ?thesis
    by (simp add: move(1) conc_inv_def) (simp add: all_set_conv_all_nth)
qed

lemma starting_ok: "starting a \<Longrightarrow> act_ok D sh a \<and> pending a = {}"
  by (cases a) auto

lemma conc_step_inv:
  assumes inv: "conc_inv D w" and st: "conc_step D w v"
  shows "conc_inv D v"
  using st
proof cases
  case (arrive a)
  then have "\<not> clash ((wd_acts w @ [a]) ! i) ((wd_acts w @ [a]) ! j)"
    if "i < Suc (length (wd_acts w))" "j < Suc (length (wd_acts w))" "i \<noteq> j" for i j
    using inv that clash_sym [of a] by (auto simp: nth_append conc_inv_def less_Suc_eq)
  with arrive inv starting_ok [of a D "wd_shared w"] show ?thesis
    by (simp add: conc_inv_def)
next
  case advance
  with inv show ?thesis by (rule conc_move_inv)
qed

interpretation conc_sys: transition_system initial_world "conc_step D" "conc_inv D" for D :: digest
proof
  show "conc_inv D w" if "initial_world w" for w
    using that host_sys.initial_inv [of "wd_host w" D]
    by (auto simp: initial_world_def conc_inv_def shared_inv_def system_inv_def hm.get_emp initial_host_def
        dest: host_new_empty(3))
  show "conc_inv D v" if "conc_inv D w" "conc_step D w v" for w v
    using that by (rule conc_step_inv)
qed

section \<open>Running several regions\<close>

fun advance_n :: "digest \<Rightarrow> nat \<Rightarrow> activity \<times> shared \<Rightarrow> activity \<times> shared" where
  "advance_n D 0 p = p"
| "advance_n D (Suc k) p = advance_n D k (advance D (fst p) (snd p))"

lemma advance_n_finished [simp]: "advance_n D k (Finished q, sh) = (Finished q, sh)"
  by (induction k) simp_all

lemma finished_iff: "finished a \<longleftrightarrow> (\<exists>q. a = Finished q)"
  by (cases a) auto

lemma moves:
  assumes "i < length acts"
  shows "(conc_move D)\<^sup>*\<^sup>* \<lparr>wd_shared = sh, wd_acts = acts\<rparr>
    \<lparr>wd_shared = snd (advance_n D k (acts ! i, sh)), wd_acts = acts[i := fst (advance_n D k (acts ! i, sh))]\<rparr>"
  using assms
proof (induction k arbitrary: acts sh)
  case (Suc k)
  obtain a t where at: "advance D (acts ! i) sh = (a, t)" by fastforce
  show ?case
  proof (cases "finished (acts ! i)")
    case True
    then obtain q where "acts ! i = Finished q" by (auto simp: finished_iff)
    then show ?thesis by (metis advance_n_finished fst_conv list_update_id rtranclp.rtrancl_refl snd_conv)
  next
    case False
    then have "conc_move D \<lparr>wd_shared = sh, wd_acts = acts\<rparr> \<lparr>wd_shared = t, wd_acts = acts[i := a]\<rparr>"
      using conc_move.move [of i "\<lparr>wd_shared = sh, wd_acts = acts\<rparr>" D a t] Suc.prems at by simp
    with Suc.IH [of "acts[i := a]" t] Suc.prems at show ?thesis
      by (simp add: converse_rtranclp_into_rtranclp)
  qed
qed simp

lemma moves_steps: "(conc_move D)\<^sup>*\<^sup>* w v \<Longrightarrow> (conc_step D)\<^sup>*\<^sup>* w v"
  by (rule mono_rtranclp [rule_format, of "conc_move D"]) (rule conc_step.advance)

text \<open>An operation that arrives and makes \<open>k\<close> moves.\<close>

lemma arrive_and_move:
  assumes "starting a" "\<forall>b \<in> set acts. \<not> clash a b" "advance_n D k (a, sh) = (a', sh')"
  shows "(conc_step D)\<^sup>*\<^sup>* \<lparr>wd_shared = sh, wd_acts = acts\<rparr> \<lparr>wd_shared = sh', wd_acts = acts @ [a']\<rparr>"
proof -
  have "conc_step D \<lparr>wd_shared = sh, wd_acts = acts\<rparr> \<lparr>wd_shared = sh, wd_acts = acts @ [a]\<rparr>"
    using conc_step.arrive [of a "\<lparr>wd_shared = sh, wd_acts = acts\<rparr>" D] assms(1,2) by simp
  moreover have "(conc_step D)\<^sup>*\<^sup>* \<lparr>wd_shared = sh, wd_acts = acts @ [a]\<rparr>
      \<lparr>wd_shared = sh', wd_acts = acts @ [a']\<rparr>"
    using moves [of "length acts" "acts @ [a]" D sh k] assms(3) by (intro moves_steps) simp
  ultimately show ?thesis by (rule converse_rtranclp_into_rtranclp)
qed

section \<open>Operations that nobody interrupts\<close>

lemma reconcile_alone:
  "advance_n D 5 (Rec_fetch X n r m, sh) =
     (Finished (Actor_outcome (fst (reconcile_actor X n r m (sh_host sh)))),
      sh\<lparr>sh_host := snd (reconcile_actor X n r m (sh_host sh))\<rparr>)"
proof (cases "fetch_actor X r (sh_host sh)")
  case (Inl e)
  then show ?thesis by (simp add: reconcile_actor_def eval_nat_numeral)
next
  case (Inr act)
  show ?thesis
  proof (cases "rt_claims act")
    case None
    with Inr show ?thesis by (simp add: reconcile_actor_def eval_nat_numeral)
  next
    case (Some claims)
    let ?s = "sh_host sh" and ?k = "subject claims"
    show ?thesis
    proof (cases "hm_get (actor_keys ?s) n \<in> {None, Some ?k}")
      case False
      with Inr Some show ?thesis by (auto simp: reconcile_actor_def eval_nat_numeral)
    next
      case True
      obtain g t where gt: "group_entry ?k (bind_name n ?k ?s) = (g, t)" by fastforce
      have b: "on_host sh (\<lambda>s. case hm_get (actor_keys s) n of
          None \<Rightarrow> s\<lparr>actor_keys := hm_insert n ?k (actor_keys s)\<rparr> | Some _ \<Rightarrow> s) =
          sh\<lparr>sh_host := bind_name n ?k ?s\<rparr>"
        by (simp add: on_host_def bind_name_def)
      have "attached ?k (ag_links g) t = Some g"
        using group_entry_get [OF gt] by (simp add: attached_def)
      moreover have "reconcile_actor X n r m ?s = scale_actor X act claims n r m g t"
        using Inr Some True gt by (auto simp: reconcile_actor_def bind_name_def)
      ultimately show ?thesis
        using Inr Some True gt
        by (auto simp: eval_nat_numeral b scale_through_attached)
    qed
  qed
qed

lemma remove_alone:
  "advance_n D 5 (Rem_lookup n, sh) =
     (Finished (Unit_outcome (fst (remove_actor n (sh_host sh)))), sh\<lparr>sh_host := snd (remove_actor n (sh_host sh))\<rparr>)"
  by (cases "hm_get (actor_keys (sh_host sh)) n")
    (simp_all add: eval_nat_numeral on_host_eq remove_actor_unbound remove_actor_bound leave_group_eq abort_calls_actors)

lemma put_alone:
  "advance_n D 5 (Put_link X ld, sh) =
     (Finished (Unit_outcome (fst (add_linkdef D X ld (sh_host sh)))),
      sh\<lparr>sh_host := snd (add_linkdef D X ld (sh_host sh))\<rparr>)"
  by (cases "hm_get (links (sh_host sh)) (linkdef_hash D (ld_actor_id ld) (ld_contract_id ld) (ld_link_name ld))")
    (simp_all add: eval_nat_numeral on_host_eq add_linkdef_def announce_def Let_def case_prod_beta split: sum.split)

lemma del_alone:
  "advance_n D 5 (Del_link X ld, sh) =
     (Finished (Unit_outcome (fst (delete_linkdef D X ld (sh_host sh)))),
      sh\<lparr>sh_host := snd (delete_linkdef D X ld (sh_host sh))\<rparr>)"
  by (cases "hm_get (links (sh_host sh)) (linkdef_hash D (ld_actor_id ld) (ld_contract_id ld) (ld_link_name ld))")
    (simp_all add: eval_nat_numeral on_host_eq delete_linkdef_def announce_def Let_def case_prod_beta split: sum.split)

lemma start_alone:
  "advance_n D 5 (Start_provider Y l r, sh) =
     (Finished (Provider_outcome (fst (start_provider Y l r (sh_host sh)))),
      sh\<lparr>sh_host := snd (start_provider Y l r (sh_host sh))\<rparr>)"
  by (simp add: eval_nat_numeral case_prod_beta)

lemma stop_alone:
  "advance_n D 5 (Stop_provider Y l k, sh) =
     (Finished (Unit_outcome (fst (stop_provider Y l k (sh_host sh)))),
      sh\<lparr>sh_host := snd (stop_provider Y l k (sh_host sh))\<rparr>)"
  by (simp add: eval_nat_numeral case_prod_beta)

lemmas alone = reconcile_alone remove_alone put_alone del_alone start_alone stop_alone

section \<open>Operations come to an end\<close>

text \<open>An upper bound on the regions an activity has before it.\<close>

fun remaining :: "activity \<Rightarrow> nat" where
  "remaining (Rec_fetch X n r m) = 5"
| "remaining (Rec_check X n r m act claims) = 4"
| "remaining (Rec_bind X n r m act claims) = 3"
| "remaining (Rec_group X n r m act claims) = 2"
| "remaining (Rem_lookup n) = 3"
| "remaining (Rem_group n pk) = 2"
| "remaining (Put_link X ld) = 3"
| "remaining (Put_table X ld) = 2"
| "remaining (Del_link X ld) = 3"
| "remaining (Del_table X ld) = 2"
| "remaining (Finished q) = 0"
| "remaining _ = 1"

lemma remaining_le: "remaining a \<le> 5"
  by (cases a) simp_all

lemma advance_remaining: "\<not> finished a \<Longrightarrow> remaining (fst (advance D a sh)) < remaining a"
  by (cases a) (simp_all add: Let_def case_prod_beta split: sum.split option.split)

definition work :: "world \<Rightarrow> nat" where
  "work w = sum_list (map remaining (wd_acts w))"

lemma work_le: "work w \<le> 5 * length (wd_acts w)"
proof -
  have "sum_list (map remaining xs) \<le> 5 * length xs" for xs
    by (induction xs) (use remaining_le in \<open>auto intro: add_mono\<close>)
  then show ?thesis by (simp add: work_def)
qed

lemma conc_move_work:
  assumes "conc_move D w v"
  shows "work v < work w"
  using assms
proof cases
  case (move i a sh)
  then have "remaining a < remaining (wd_acts w ! i)"
    using advance_remaining [of "wd_acts w ! i" D "wd_shared w"] by simp
  moreover have "remaining (wd_acts w ! i) \<le> sum_list (map remaining (wd_acts w))"
    using move(2) by (intro member_le_sum_list) auto
  ultimately show ?thesis
    using move(2) by (simp add: move(1) work_def map_update sum_list_update)
qed

lemma conc_moves_bounded: "(conc_move D ^^ k) w v \<Longrightarrow> k + work v \<le> work w"
proof (induction k arbitrary: v)
  case (Suc k)
  then obtain u where "(conc_move D ^^ k) w u" "conc_move D u v" by auto
  with Suc.IH [of u] conc_move_work [of D u v] show ?case by simp
qed simp

lemma all_finish: "\<exists>v. (conc_move D)\<^sup>*\<^sup>* w v \<and> (\<forall>a \<in> set (wd_acts v). finished a)"
proof (induction "work w" arbitrary: w rule: less_induct)
  case less
  show ?case
  proof (cases "\<forall>a \<in> set (wd_acts w). finished a")
    case True
    then show ?thesis by blast
  next
    case False
    then obtain i where "i < length (wd_acts w)" "\<not> finished (wd_acts w ! i)"
      by (auto simp: in_set_conv_nth)
    moreover obtain a sh where "advance D (wd_acts w ! i) (wd_shared w) = (a, sh)" by fastforce
    ultimately obtain v where "conc_move D w v" using conc_move.move by blast
    with less [of v] conc_move_work [of D w v] show ?thesis
      by (meson converse_rtranclp_into_rtranclp)
  qed
qed

end
