(* ===== verification/Kasm_Interleaving_Props.thy ===== *)
theory Kasm_Interleaving_Props
  imports Kasm_Interleaving Kasm_Actor_Props
begin

text \<open>
  Properties of interleaved operations: uninterrupted, they are the operations of the atomic model;
  link tables and tasks are right in every interleaving; operations come to an end; and the race between
  the removal of the last actor of a group and the start of another.
\<close>

section \<open>Lemmas\<close>

lemma conc_reachable:
  assumes "initial_world w" "(conc_step D)\<^sup>*\<^sup>* w v"
  shows "host_inv_upto (\<Union> (pending ` set (wd_acts v))) D (wd_host v)"
  using conc_sys.reachable_inv [OF assms] by (simp add: conc_inv_def shared_inv_def)

lemma quiet_system_inv:
  assumes "conc_inv D w" "\<forall>a \<in> set (wd_acts w). finished a"
  shows "system_inv D (wd_host w)"
proof -
  have "pending a = {}" if "finished a" for a using that by (cases a) auto
  with assms(2) have "\<Union> (pending ` set (wd_acts w)) = {}" by auto
  with assms(1) show ?thesis by (simp add: conc_inv_def shared_inv_def system_inv_def)
qed

lemma conc_inv_idle: "system_inv D s \<Longrightarrow> conc_inv D \<lparr>wd_shared = \<lparr>sh_host = s, sh_detached = []\<rparr>, wd_acts = []\<rparr>"
  by (simp add: conc_inv_def shared_inv_def system_inv_def hm.get_emp)

abbreviation idle :: "process \<Rightarrow> world" where
  "idle s \<equiv> \<lparr>wd_shared = \<lparr>sh_host = s, sh_detached = []\<rparr>, wd_acts = []\<rparr>"

text \<open>A reconciliation up to the point where it has the pointer to an existing group.\<close>

lemma reconcile_to_group:
  assumes f: "fetched X r (sh_host sh) act claims"
    and k: "hm_get (actor_keys (sh_host sh)) n \<in> {None, Some (subject claims)}"
    and g: "hm_get (actors (sh_host sh)) (subject claims) = Some g"
  shows "advance_n D 4 (Rec_fetch X n r m, sh) =
    (Rec_scale X n r m act claims (ag_links g), sh\<lparr>sh_host := bind_name n (subject claims) (sh_host sh)\<rparr>)"
  using f k g
  by (auto simp: eval_nat_numeral fetched_def on_host_eq bind_name_def group_entry_def split: option.split)

text \<open>A removal of the last actor of a group takes the group away.\<close>

lemma remove_last:
  assumes "hm_get (actors s) k = Some g" "hm_keys (ag_actors g) = [n]" "hm_get (actor_keys s) n = Some k"
  shows "hm_get (actors (snd (remove_actor n s))) k = None"
proof -
  have "hm_remove n (ag_actors g) = []"
    using assms(2) by (auto simp: hm_keys_def hm_remove_def filter_empty_conv)
  then show ?thesis
    using assms(1) by (simp add: remove_actor_bound [OF assms(3)] groups_without_def Let_def)
qed

lemma fetched_cong:
  "config t = config s \<Longrightarrow> registry_settings t = registry_settings s \<Longrightarrow> fetched X r t = fetched X r s"
  by (simp add: fetched_def fetch_actor_def fun_eq_iff)

text \<open>Starting an actor in a group the host has forgotten.\<close>

lemma scale_forgotten:
  assumes c: "rt_claims act = Some claims" and d: "hm_get (actors (sh_host sh)) (subject claims) = None"
    and e: "sh_detached sh = []" and m: "0 < m"
    and sub: "\<And>j. is_ok (queue_subscribe X j (actor_topic (sh_host sh) (subject claims)))"
  obtains ds where "scale_through X act claims n r m gid sh =
    (Inr claims, \<lparr>sh_host = spawn_tasks (actor_topic (sh_host sh) (subject claims)) m (with_targets (sh_host sh)),
       sh_detached = ds\<rparr>)"
proof -
  have att: "attached (subject claims) gid (sh_host sh) = None" using d by (simp add: attached_def)
  have n: "hm_get (ag_actors (detached (subject claims) gid sh)) n = None"
    by (simp add: detached_def e hm_get_or_def hm.get_emp)
  have T: "actor_topic (swapped_in (subject claims) gid sh) = actor_topic (sh_host sh)"
    by (rule actor_topic_cong) simp
  have "fst (scale_actor X act claims n r m (detached (subject claims) gid sh) (swapped_in (subject claims) gid sh)) =
      Inr claims \<and>
    (snd (scale_actor X act claims n r m (detached (subject claims) gid sh) (swapped_in (subject claims) gid sh)))
      \<lparr>actors := actors (sh_host sh)\<rparr> =
      spawn_tasks (actor_topic (sh_host sh) (subject claims)) m (with_targets (sh_host sh))"
    using m subscribed_all [OF sub]
    by (rule_tac scale_absent_cases [OF c n, of m X r "swapped_in (subject claims) gid sh"])
      (simp_all add: T actors_restored)
  then show ?thesis
    by (rule_tac scale_through_detached [OF c att, of X n r m]) (simp add: that)
qed

lemma race_run:
  assumes inv: "system_inv D s" and g: "hm_get (actors s) (subject claims) = Some g"
    and last: "hm_keys (ag_actors g) = [n]" and free: "hm_get (actor_keys s) n' = None"
    and f: "fetched X r s act claims" and m: "0 < m"
    and sub: "\<And>j. is_ok (queue_subscribe X j (actor_topic s (subject claims)))"
  obtains ds t where
    "(conc_step D)\<^sup>*\<^sup>* (idle s)
       \<lparr>wd_shared = \<lparr>sh_host = spawn_tasks (actor_topic s (subject claims)) m (with_targets t), sh_detached = ds\<rparr>,
        wd_acts = [Finished (Actor_outcome (Inr claims)), Finished (Unit_outcome (Inr ()))]\<rparr>"
    "t = snd (remove_actor n (bind_name n' (subject claims) s))" "hm_get (actors t) (subject claims) = None"
proof -
  let ?k = "subject claims" and ?s1 = "bind_name n' (subject claims) s"
  let ?t = "snd (remove_actor n ?s1)" and ?rec = "Rec_scale X n' r m act claims (ag_links g)"
  have "n \<in> set (hm_keys (ag_actors g))" using last by simp
  then have n: "hm_get (actor_keys s) n = Some ?k"
    using inv actors_wfD(2) [OF host_invD(5) g] by (auto simp: system_inv_def hm.keys_iff)
  with free have nn: "n \<noteq> n'" "hm_get (actor_keys ?s1) n = Some ?k" by (auto simp: bind_name_def)
  have gone: "hm_get (actors ?t) ?k = None"
    using remove_last [of ?s1 ?k g n] g last nn(2) by simp
  have T: "actor_topic ?t = actor_topic s"
    by (rule actor_topic_cong) (simp add: remove_actor_bound [OF nn(2)])
  have one: "(conc_step D)\<^sup>*\<^sup>* (idle s) \<lparr>wd_shared = \<lparr>sh_host = ?s1, sh_detached = []\<rparr>, wd_acts = [?rec]\<rparr>"
    using arrive_and_move [of "Rec_fetch X n' r m" "[]" D 4 "\<lparr>sh_host = s, sh_detached = []\<rparr>"]
      reconcile_to_group [of X r "\<lparr>sh_host = s, sh_detached = []\<rparr>" act claims n' g D m] f free g by simp
  have "fst (remove_actor n ?s1) = Inr ()" by (simp add: remove_actor_bound [OF nn(2)])
  then have two: "(conc_step D)\<^sup>*\<^sup>* \<lparr>wd_shared = \<lparr>sh_host = ?s1, sh_detached = []\<rparr>, wd_acts = [?rec]\<rparr>
      \<lparr>wd_shared = \<lparr>sh_host = ?t, sh_detached = []\<rparr>, wd_acts = [?rec, Finished (Unit_outcome (Inr ()))]\<rparr>"
    using arrive_and_move [OF _ _ remove_alone, of n "[?rec]" D "\<lparr>sh_host = ?s1, sh_detached = []\<rparr>"] nn(1)
    by (simp add: clash_def)
  obtain ds where "scale_through X act claims n' r m (ag_links g) \<lparr>sh_host = ?t, sh_detached = []\<rparr> =
      (Inr claims, \<lparr>sh_host = spawn_tasks (actor_topic s ?k) m (with_targets ?t), sh_detached = ds\<rparr>)"
    using scale_forgotten [of act claims "\<lparr>sh_host = ?t, sh_detached = []\<rparr>" m X n' r "ag_links g"] f gone m sub T
    by (auto simp: fetched_def)
  then have "(conc_step D)\<^sup>*\<^sup>* \<lparr>wd_shared = \<lparr>sh_host = ?t, sh_detached = []\<rparr>, wd_acts = [?rec, Finished (Unit_outcome (Inr ()))]\<rparr>
      \<lparr>wd_shared = \<lparr>sh_host = spawn_tasks (actor_topic s ?k) m (with_targets ?t), sh_detached = ds\<rparr>,
       wd_acts = [Finished (Actor_outcome (Inr claims)), Finished (Unit_outcome (Inr ()))]\<rparr>"
    using moves [of 0 "[?rec, Finished (Unit_outcome (Inr ()))]" D "\<lparr>sh_host = ?t, sh_detached = []\<rparr>" 1]
    by (intro moves_steps) simp
  with one two gone show ?thesis by (intro that) (auto intro: rtranclp_trans)
qed

text \<open>
  A link is registered while the actor it belongs to is being started: the registry is written, then the
  group is created, then the link operation goes on.
\<close>

lemma sample_idle: "initial_world (idle sample_host)"
  by (simp add: initial_world_def sample_initial)

lemma sample_interleaving:
  obtains v i where "(conc_step sample_digest)\<^sup>*\<^sup>* (idle sample_host) v"
    "i \<in> set (instances_at (wd_host v) ''MECHO'' ''echo-default'')" "\<forall>a \<in> set (wd_acts v). finished a"
    "linked (wd_host v) ''MECHO'' ''wasmcloud:httpserver'' ''test'' = Some (entity_of echo_ld)"
    "hd_claims (in_handler i) = echo_claims"
proof -
  let ?D = sample_digest and ?put = "Put_table link_up echo_ld"
  let ?s = "sample_host\<lparr>links := [(ld_hash sample_digest echo_ld, echo_ld)]\<rparr>"
  have "hm_get (actor_keys ?s) ''echo-default'' \<in> {None, Some ''MECHO''}" by (simp add: sample_host_def)
  then obtain t where t: "reconcile_actor echo_ext ''echo-default'' ''echo:0.3.8'' 1 ?s = (Inr echo_claims, t)"
    by (rule echo_reconciles)
  let ?ok = "Finished (Actor_outcome (Inr echo_claims))"
  let ?u = "update_table ''MECHO'' (\<lambda>t. put_link t echo_ld) t"
  let ?v = "snd (announce link_up echo_ld ''put'' ''failed to publish link deinition'' ?u)"
  have ld: "ld_actor_id echo_ld = ''MECHO''" by (simp add: echo_ld_def)
  have vac: "links sample_host = []" by (simp add: sample_host_def)
  have one: "(conc_step ?D)\<^sup>*\<^sup>* (idle sample_host) \<lparr>wd_shared = \<lparr>sh_host = ?s, sh_detached = []\<rparr>, wd_acts = [?put]\<rparr>"
    using arrive_and_move [of "Put_link link_up echo_ld" "[]" ?D 1 "\<lparr>sh_host = sample_host, sh_detached = []\<rparr>"] vac
    by (simp add: on_host_eq Let_def ld_hash_def)
  have two: "(conc_step ?D)\<^sup>*\<^sup>* \<lparr>wd_shared = \<lparr>sh_host = ?s, sh_detached = []\<rparr>, wd_acts = [?put]\<rparr>
      \<lparr>wd_shared = \<lparr>sh_host = t, sh_detached = []\<rparr>, wd_acts = [?put, ?ok]\<rparr>"
    using arrive_and_move [OF _ _ reconcile_alone, of echo_ext "''echo-default''" "''echo:0.3.8''" 1 "[?put]" ?D
      "\<lparr>sh_host = ?s, sh_detached = []\<rparr>"] t by (simp add: clash_def)
  have three: "(conc_step ?D)\<^sup>*\<^sup>* \<lparr>wd_shared = \<lparr>sh_host = t, sh_detached = []\<rparr>, wd_acts = [?put, ?ok]\<rparr>
      \<lparr>wd_shared = \<lparr>sh_host = ?v, sh_detached = []\<rparr>,
       wd_acts = [Finished (Unit_outcome (fst (announce link_up echo_ld ''put'' ''failed to publish link deinition'' ?u))), ?ok]\<rparr>"
    using moves [of 0 "[?put, ?ok]" ?D "\<lparr>sh_host = t, sh_detached = []\<rparr>" 2]
    by (intro moves_steps) (simp add: eval_nat_numeral on_host_eq case_prod_beta ld)
  obtain es where v: "?v = emit es ?u" using announce_state by blast
  have "actors ?v = actors t" by (simp add: v)
  then have at: "instances_at ?v = instances_at t"
    using actor_at_cong [of ?v t] by (simp add: instances_at_def fun_eq_iff)
  obtain i where i: "i \<in> set (instances_at t ''MECHO'' ''echo-default'')"
    using reconcile_actor_count [OF t] by (cases "instances_at t ''MECHO'' ''echo-default''") (auto simp: echo_subject)
  have "actors ?s = []" by (simp add: sample_host_def)
  then have hc: "hd_claims (in_handler i) = echo_claims"
    using reconcile_actor_claims [OF t, of i] i by (simp add: actor_at_def echo_subject)
  have "links ?v = links ?s"
    using reconcile_actor_links [of echo_ext "''echo-default''" "''echo:0.3.8''" 1 ?s] t by (simp add: v)
  then have "linked ?v ''MECHO'' ''wasmcloud:httpserver'' ''test'' = Some (entity_of echo_ld)"
    by (simp add: linked_def hm_values_def link_matches_def) (simp add: echo_ld_def)
  with one two three i hc show ?thesis
    by (intro that [OF rtranclp_trans [OF one rtranclp_trans [OF two three]]]) (auto simp: at)
qed

text \<open>The link table that an instance reads, in the middle of any number of operations.\<close>

lemma instance_table:
  assumes inv: "host_inv_upto P D s" and i: "i \<in> set (instances_at s k n)" and p: "(k, c, l) \<notin> P"
  shows "table_get (link_cells s ! hd_links (in_handler i)) c l = linked s k c l"
proof -
  obtain g a where g: "hm_get (actors s) k = Some g" "hm_get (ag_actors g) n = Some a"
    and i: "i \<in> set (ac_instances a)"
    by (rule instance_actor [OF i])
  have "hd_links (in_handler i) = ag_links g"
    using actors_wfD(3) [OF host_inv_uptoD(5) [OF inv] g] i by (simp add: actor_wf_def)
  then show ?thesis
    using host_inv_uptoD(4) [OF inv] g(1) p by (simp add: tables_agree_upto_def)
qed

lemma interleaved_table:
  assumes "initial_world w" "(conc_step D)\<^sup>*\<^sup>* w v" "i \<in> set (instances_at (wd_host v) k n)"
    and "(k, c, l) \<notin> \<Union> (pending ` set (wd_acts v))"
  shows "table_get (link_cells (wd_host v) ! hd_links (in_handler i)) c l = linked (wd_host v) k c l"
  by (rule instance_table [OF conc_reachable [OF assms(1,2)] assms(3,4)])

section \<open>Properties\<close>

text \<open>
  An operation of the host whose regions run without interruption is the operation of the atomic
  model: it returns the same and leaves the same state, on every path.
\<close>

lemma uninterrupted_is_atomic:
  "advance_n D 5 (Rec_fetch X n r m, sh) =
     (Finished (Actor_outcome (fst (reconcile_actor X n r m (sh_host sh)))),
      sh\<lparr>sh_host := snd (reconcile_actor X n r m (sh_host sh))\<rparr>) \<and>
   advance_n D 5 (Rem_lookup n, sh) =
     (Finished (Unit_outcome (fst (remove_actor n (sh_host sh)))),
      sh\<lparr>sh_host := snd (remove_actor n (sh_host sh))\<rparr>) \<and>
   advance_n D 5 (Put_link Y ld, sh) =
     (Finished (Unit_outcome (fst (add_linkdef D Y ld (sh_host sh)))),
      sh\<lparr>sh_host := snd (add_linkdef D Y ld (sh_host sh))\<rparr>) \<and>
   advance_n D 5 (Del_link Y ld, sh) =
     (Finished (Unit_outcome (fst (delete_linkdef D Y ld (sh_host sh)))),
      sh\<lparr>sh_host := snd (delete_linkdef D Y ld (sh_host sh))\<rparr>)"
  by (simp only: alone simp_thms)

text \<open>
  C2. In every interleaving of the host's operations that the controllers can produce, each running
  instance resolves a contract and link name to exactly the provider registered for its actor; only the
  one place that a link operation is about to write may be behind.
\<close>

theorem interleaved_instances_see_registry:
  assumes "initial_world w" "(conc_step D)\<^sup>*\<^sup>* w v" "i \<in> set (instances_at (wd_host v) k n)"
    and "(k, c, l) \<notin> \<Union> (pending ` set (wd_acts v))"
  shows "table_get (link_cells (wd_host v) ! hd_links (in_handler i)) c l = linked (wd_host v) k c l"
  by (rule interleaved_table [OF assms])

theorem interleaved_instances_see_registry_witness:
  "\<exists>v i. (conc_step sample_digest)\<^sup>*\<^sup>* (idle sample_host) v \<and>
     i \<in> set (instances_at (wd_host v) ''MECHO'' ''echo-default'') \<and>
     table_get (link_cells (wd_host v) ! hd_links (in_handler i)) ''wasmcloud:httpserver'' ''test'' =
       Some (entity_of echo_ld)"
proof -
  obtain v i where v: "(conc_step sample_digest)\<^sup>*\<^sup>* (idle sample_host) v"
    "i \<in> set (instances_at (wd_host v) ''MECHO'' ''echo-default'')" and fin: "\<forall>a \<in> set (wd_acts v). finished a"
    and l: "linked (wd_host v) ''MECHO'' ''wasmcloud:httpserver'' ''test'' = Some (entity_of echo_ld)"
    by (rule sample_interleaving)
  have "(''MECHO'', ''wasmcloud:httpserver'', ''test'') \<notin> \<Union> (pending ` set (wd_acts v))"
    using fin by (auto simp: finished_iff)
  from interleaved_instances_see_registry [OF sample_idle v this] v l show ?thesis by auto
qed

text \<open>
  C9. In every interleaving, each running instance is served by its own live task on the topic of its
  actor's key, and a resource name runs under one key only.
\<close>

theorem interleaved_instances_served:
  assumes "initial_world w" "(conc_step D)\<^sup>*\<^sup>* w v"
  shows "distinct (calls_at (wd_host v) k n) \<and>
    (\<forall>h \<in> set (calls_at (wd_host v) k n). (h, actor_topic (wd_host v) k) \<in> set (tasks (wd_host v))) \<and>
    (\<forall>k' n'. (k', n') \<noteq> (k, n) \<longrightarrow> set (calls_at (wd_host v) k n) \<inter> set (calls_at (wd_host v) k' n') = {}) \<and>
    (\<forall>k'. instances_at (wd_host v) k n \<noteq> [] \<longrightarrow> instances_at (wd_host v) k' n \<noteq> [] \<longrightarrow> k' = k)"
proof -
  note inv = conc_reachable [OF assms]
  note tw = tasks_wfD [OF host_inv_uptoD(6) [OF inv]]
  have "\<forall>k'. instances_at (wd_host v) k n \<noteq> [] \<longrightarrow> instances_at (wd_host v) k' n \<noteq> [] \<longrightarrow> k' = k"
    using instances_at_bound [OF host_inv_uptoD(5) [OF inv]] by (metis option.inject)
  moreover have "\<forall>k' n'. (k', n') \<noteq> (k, n) \<longrightarrow> set (calls_at (wd_host v) k n) \<inter> set (calls_at (wd_host v) k' n') = {}"
    using tw(3) by metis
  ultimately show ?thesis using tw(2,4) by simp
qed

theorem interleaved_instances_served_witness:
  "\<exists>v. (conc_step sample_digest)\<^sup>*\<^sup>* (idle sample_host) v \<and> calls_at (wd_host v) ''MECHO'' ''echo-default'' \<noteq> [] \<and>
     (\<forall>h \<in> set (calls_at (wd_host v) ''MECHO'' ''echo-default'').
        (h, actor_topic (wd_host v) ''MECHO'') \<in> set (tasks (wd_host v)))"
proof -
  obtain v i where v: "(conc_step sample_digest)\<^sup>*\<^sup>* (idle sample_host) v"
    and i: "i \<in> set (instances_at (wd_host v) ''MECHO'' ''echo-default'')"
    by (rule sample_interleaving)
  from interleaved_instances_served [OF sample_idle v, of "''MECHO''" "''echo-default''"] v i show ?thesis
    by (auto simp: calls_at_def)
qed

text \<open>
  Operations come to an end: whatever the schedule, \<open>n\<close> operations in progress make at most
  \<open>5 * n\<close> moves altogether, and they can always be run until all have returned.
\<close>

lemma operations_terminate:
  "(\<forall>j v. (conc_move D ^^ j) w v \<longrightarrow> j \<le> 5 * length (wd_acts w)) \<and>
   (\<exists>v. (conc_move D)\<^sup>*\<^sup>* w v \<and> (\<forall>a \<in> set (wd_acts v). finished a))"
  using conc_moves_bounded [of _ D w] work_le [of w] all_finish [of D w] by force

text \<open>
  C31. The group of an actor is looked up before it is locked. If the last actor of the group is removed
  in between, the reconciliation reports success, but the new actor is in no group of the host: its
  instances serve calls, and no operation of the host ever ends their tasks.
\<close>

theorem removal_race_orphans:
  assumes "system_inv D s" "hm_get (actors s) (subject claims) = Some g" "hm_keys (ag_actors g) = [n]"
    and "hm_get (actor_keys s) n' = None" "fetched X r s act claims" "0 < m"
    and "\<And>j. is_ok (queue_subscribe X j (actor_topic s (subject claims)))"
  shows "\<exists>v. (conc_step D)\<^sup>*\<^sup>* (idle s) v \<and>
    wd_acts v = [Finished (Actor_outcome (Inr claims)), Finished (Unit_outcome (Inr ()))] \<and>
    hm_get (actors (wd_host v)) (subject claims) = None \<and>
    (\<forall>t. (host_step D)\<^sup>*\<^sup>* (wd_host v) t \<longrightarrow>
      (\<forall>h \<in> {next_task s..<next_task s + m}.
         (h, actor_topic s (subject claims)) \<in> set (tasks t) \<and> (\<forall>k n. h \<notin> set (calls_at t k n))))"
proof -
  let ?T = "actor_topic s (subject claims)" and ?s1 = "bind_name n' (subject claims) s"
  obtain ds t where run: "(conc_step D)\<^sup>*\<^sup>* (idle s)
       \<lparr>wd_shared = \<lparr>sh_host = spawn_tasks ?T m (with_targets t), sh_detached = ds\<rparr>,
        wd_acts = [Finished (Actor_outcome (Inr claims)), Finished (Unit_outcome (Inr ()))]\<rparr>"
    and t: "t = snd (remove_actor n ?s1)" and gone: "hm_get (actors t) (subject claims) = None"
    by (rule race_run [OF assms])
  let ?v = "\<lparr>wd_shared = \<lparr>sh_host = spawn_tasks ?T m (with_targets t), sh_detached = ds\<rparr>,
        wd_acts = [Finished (Actor_outcome (Inr claims)), Finished (Unit_outcome (Inr ()))]\<rparr>"
  have "conc_inv D ?v" by (rule conc_sys.steps_inv [OF run conc_inv_idle [OF assms(1)]])
  then have inv: "system_inv D (wd_host ?v)" by (rule quiet_system_inv) simp
  have "host_inv D t"
    unfolding t using assms(1) by (intro remove_actor_inv bind_name_host_inv) (simp add: system_inv_def)
  then have wf: "tasks_wf t" by (rule host_invD(6))
  have nt: "next_task t = next_task s"
    unfolding t by (cases "hm_get (actor_keys ?s1) n") (simp_all add: remove_actor_unbound remove_actor_bound)
  have "orphan (wd_host ?v) h ?T" if "h \<in> {next_task s..<next_task s + m}" for h
    using that nt calls_bound [OF wf, of h] calls_at_cong [of "spawn_tasks ?T m (with_targets t)" "with_targets t"]
    by (auto simp: orphan_def)
  then have "orphan u h ?T" if "h \<in> {next_task s..<next_task s + m}" "(host_step D)\<^sup>*\<^sup>* (wd_host ?v) u" for h u
    using orphan_steps [OF that(2) inv] that(1) by blast
  with run gone show ?thesis
    by (intro exI [of _ ?v]) (auto simp: orphan_def)
qed

theorem removal_race_orphans_witness:
  "\<exists>v. (conc_step sample_digest)\<^sup>*\<^sup>* (idle (running_host 1)) v \<and>
     wd_acts v = [Finished (Actor_outcome (Inr echo_claims)), Finished (Unit_outcome (Inr ()))] \<and>
     hm_get (actors (wd_host v)) ''MECHO'' = None"
proof -
  have "host_step sample_digest sample_host (running_host 1)"
    unfolding running_host_def by (rule host_step.reconcile)
  then have inv: "system_inv sample_digest (running_host 1)"
    by (rule host_step_inv [OF sample_system_inv])
  obtain g where "hm_get (actors (running_host 1)) ''MECHO'' = Some g" "hm_keys (ag_actors g) = [''echo-default'']"
    and "hm_get (actor_keys (running_host 1)) ''echo-two'' = None"
    by (simp add: running_host_def reconcile_actor_def fetch_actor_def group_entry_def scale_actor_def start_actor_def
        instantiate_actor_def sample_defs Let_def nonzero_def get_actor_links_def hm_values_def emit_def
        set_actor_def hm_get_def hm_keys_def)
  with removal_race_orphans [OF inv, of echo_claims g "''echo-default''" "''echo-two''" echo_ext
      "''echo:0.3.8''" echo_module 1] echo_fetched echo_subscribes echo_subject
  show ?thesis by auto
qed

end
