(* ===== verification/Kasm_Sample_Codec.thy ===== *)
theory Kasm_Sample_Codec
  imports Kasm_Samples
begin

text \<open>
  A concrete codec for link definitions, to see that the hypotheses on codecs can hold: a list is its
  elements, each after a byte 1, and a final byte 0; a string is the list of its characters; a record is
  the sequence of its fields.
\<close>

section \<open>Lists\<close>

fun enc_list :: "('a \<Rightarrow> bytes) \<Rightarrow> 'a list \<Rightarrow> bytes" where
  "enc_list f [] = [0]"
| "enc_list f (x # xs) = 1 # f x @ enc_list f xs"

text \<open>Reading takes as many elements as there are bytes at most.\<close>

fun dec_list :: "nat \<Rightarrow> (bytes \<Rightarrow> ('a \<times> bytes) option) \<Rightarrow> bytes \<Rightarrow> ('a list \<times> bytes) option" where
  "dec_list n g [] = None"
| "dec_list 0 g (b # bs) = (if b = 0 then Some ([], bs) else None)"
| "dec_list (Suc n) g (b # bs) =
     (if b = 0 then Some ([], bs)
      else if b = 1
      then (case g bs of
              None \<Rightarrow> None
            | Some (x, bs) \<Rightarrow> map_option (\<lambda>(xs, bs). (x # xs, bs)) (dec_list n g bs))
      else None)"

lemma dec_enc_list:
  assumes "\<And>x bs. g (f x @ bs) = Some (x, bs)" and "length xs \<le> n"
  shows "dec_list n g (enc_list f xs @ bs) = Some (xs, bs)"
  using assms(2)
proof (induction xs arbitrary: n)
  case Nil
  then show ?case by (cases n) simp_all
next
  case (Cons x xs)
  then show ?case by (cases n) (simp_all add: assms(1))
qed

lemma enc_list_length: "length xs \<le> length (enc_list f xs)"
  by (induction xs) simp_all

definition dec_all :: "(bytes \<Rightarrow> ('a \<times> bytes) option) \<Rightarrow> bytes \<Rightarrow> ('a list \<times> bytes) option" where
  "dec_all g bs = dec_list (length bs) g bs"

lemma dec_enc_all:
  assumes "\<And>x bs. g (f x @ bs) = Some (x, bs)"
  shows "dec_all g (enc_list f xs @ bs) = Some (xs, bs)"
  using enc_list_length [of xs f] unfolding dec_all_def by (intro dec_enc_list assms) simp

section \<open>Strings and link definitions\<close>

definition enc_char :: "char \<Rightarrow> bytes" where
  "enc_char c = [word_of_nat (of_char c)]"

fun dec_char :: "bytes \<Rightarrow> (char \<times> bytes) option" where
  "dec_char [] = None"
| "dec_char (b # bs) = Some (char_of (unat b), bs)"

lemma dec_enc_char: "dec_char (enc_char c @ bs) = Some (c, bs)"
  by (simp add: enc_char_def unat_of_nat)

abbreviation enc_str :: "string \<Rightarrow> bytes" where
  "enc_str \<equiv> enc_list enc_char"

abbreviation dec_str :: "bytes \<Rightarrow> (string \<times> bytes) option" where
  "dec_str \<equiv> dec_all dec_char"

lemma dec_enc_str: "dec_str (enc_str s @ bs) = Some (s, bs)"
  by (rule dec_enc_all) (rule dec_enc_char)

definition enc_pair :: "string \<times> string \<Rightarrow> bytes" where
  "enc_pair p = enc_str (fst p) @ enc_str (snd p)"

definition dec_pair :: "bytes \<Rightarrow> ((string \<times> string) \<times> bytes) option" where
  "dec_pair bs =
     (case dec_str bs of
        None \<Rightarrow> None
      | Some (x, bs) \<Rightarrow> map_option (\<lambda>(y, bs). ((x, y), bs)) (dec_str bs))"

lemma dec_enc_pair: "dec_pair (enc_pair p @ bs) = Some (p, bs)"
  by (simp add: dec_pair_def enc_pair_def dec_enc_str)

definition enc_link :: "link_definition \<Rightarrow> bytes" where
  "enc_link ld = enc_list enc_str [ld_actor_id ld, ld_provider_id ld, ld_link_name ld, ld_contract_id ld] @
     enc_list enc_pair (ld_values ld)"

definition dec_link :: "bytes \<Rightarrow> (link_definition \<times> bytes) option" where
  "dec_link bs =
     (case dec_all dec_str bs of
        Some ([a, p, l, c], bs) \<Rightarrow>
          map_option (\<lambda>(vs, bs). (\<lparr>ld_actor_id = a, ld_provider_id = p, ld_link_name = l, ld_contract_id = c,
            ld_values = vs\<rparr>, bs)) (dec_all dec_pair bs)
      | _ \<Rightarrow> None)"

lemma dec_enc_link: "dec_link (enc_link ld @ bs) = Some (ld, bs)"
  using dec_enc_all [OF dec_enc_str,
      of "[ld_actor_id ld, ld_provider_id ld, ld_link_name ld, ld_contract_id ld]" "enc_list enc_pair (ld_values ld) @ bs"]
    dec_enc_all [OF dec_enc_pair, of "ld_values ld" bs]
  by (simp add: dec_link_def enc_link_def del: enc_list.simps)

end
