(* ===== verification/Kasm_Provider_View.thy ===== *)
theory Kasm_Provider_View
  imports Kasm_Interleaving Kasm_Provider_Props Kasm_Sample_Codec
begin

text \<open>
  What the host tells a provider process about its links: the host data on the standard input when the
  process starts, and then the announcements on the topics of its key and link name. The operations
  interleave; the theory keeps track of what each process has been told, and compares it with the
  registry of the host.
\<close>

section \<open>What a process has been told\<close>

text \<open>How the reader of the messages takes them: the first line of the input, and an announced link.\<close>

record reader =
  read_data :: "bytes \<Rightarrow> link_definition list option"
  read_ld :: "bytes \<Rightarrow> link_definition option"

definition topic_of :: "string \<Rightarrow> string \<Rightarrow> string \<Rightarrow> string \<Rightarrow> string" where
  "topic_of prefix k l verb =
     ''wasmbus.rpc.'' @ prefix @ ''.'' @ k @ ''.'' @ l @ ''.linkdefs.'' @ verb"

fun learn :: "reader \<Rightarrow> (string \<Rightarrow> string) \<Rightarrow> nat \<Rightarrow> event \<Rightarrow> link_definition set \<Rightarrow> link_definition set" where
  "learn R topic c (Spawned c' path) S = (if c' = c then {} else S)"
| "learn R topic c (Stdin c' bs) S =
     (if c' = c then (case read_data R bs of None \<Rightarrow> S | Some lds \<Rightarrow> set lds) else S)"
| "learn R topic c (Published t m) S =
     (case read_ld R m of
        None \<Rightarrow> S
      | Some ld \<Rightarrow>
          if t = topic ''put'' then insert ld S else if t = topic ''del'' then S - {ld} else S)"
| "learn R topic c _ S = S"

text \<open>The links that the child \<open>c\<close>, which serves the link name \<open>l\<close> of \<open>k\<close>, has been told of and not told to drop.\<close>

definition told :: "reader \<Rightarrow> process \<Rightarrow> string \<Rightarrow> string \<Rightarrow> nat \<Rightarrow> link_definition set" where
  "told R s k l c = fold (learn R (topic_of (hc_lattice_prefix (config s)) k l) c) (events s) {}"

definition registered :: "digest \<Rightarrow> process \<Rightarrow> link_definition \<Rightarrow> bool" where
  "registered D s ld \<longleftrightarrow> hm_get (links s) (ld_hash D ld) = Some ld"

text \<open>The link that an activity has changed in the registry and not yet announced.\<close>

fun unannounced :: "activity \<Rightarrow> link_definition set" where
  "unannounced (Put_table X ld) = {ld}"
| "unannounced (Put_publish X ld) = {ld}"
| "unannounced (Del_table X ld) = {ld}"
| "unannounced (Del_publish X ld) = {ld}"
| "unannounced _ = {}"

text \<open>
  The reader understands what an activity sends, and the network takes it: the codecs round-trip, the
  newline after the data is not taken for data, and publishing succeeds.
\<close>

definition readable_link :: "reader \<Rightarrow> link_ext \<Rightarrow> bool" where
  "readable_link R X \<longleftrightarrow>
     (\<forall>ld. \<exists>m. encode_ld X ld = Inr m \<and> read_ld R m = Some ld) \<and> (\<forall>t m. is_ok (nats_publish X t m))"

definition readable_data :: "reader \<Rightarrow> provider_ext \<Rightarrow> bool" where
  "readable_data R X \<longleftrightarrow> read_data R [13, 10] = None \<and>
     (\<forall>dat p. encode_host_data X dat = Inr p \<longrightarrow>
        read_data R (base64_encode X p) = Some (dt_link_definitions dat))"

fun readable :: "reader \<Rightarrow> activity \<Rightarrow> bool" where
  "readable R (Put_link X ld) = readable_link R X"
| "readable R (Put_table X ld) = readable_link R X"
| "readable R (Put_publish X ld) = readable_link R X"
| "readable R (Del_link X ld) = readable_link R X"
| "readable R (Del_table X ld) = readable_link R X"
| "readable R (Del_publish X ld) = readable_link R X"
| "readable R (Start_provider X l r) = readable_data R X"
| "readable R _ = True"

section \<open>What the operations add to the trace\<close>

text \<open>Events that tell a provider nothing, and those that concern one child.\<close>

fun silent :: "event \<Rightarrow> bool" where
  "silent (Subscribed h t) = True"
| "silent (Aborted h) = True"
| "silent (Requested t m) = True"
| "silent (Killed c) = True"
| "silent _ = False"

fun of_child :: "nat \<Rightarrow> event \<Rightarrow> bool" where
  "of_child c (Spawned c' path) = (c' = c)"
| "of_child c (Stdin c' bs) = (c' = c)"
| "of_child c e = silent e"

definition adds :: "(event \<Rightarrow> bool) \<Rightarrow> process \<Rightarrow> process \<Rightarrow> bool" where
  "adds P s t \<longleftrightarrow> config t = config s \<and> (\<exists>es. events t = events s @ es \<and> (\<forall>e \<in> set es. P e))"

lemma adds_same: "config t = config s \<Longrightarrow> events t = events s \<Longrightarrow> adds P s t"
  by (auto simp: adds_def)

lemma adds_trans: "adds P s t \<Longrightarrow> adds P t u \<Longrightarrow> adds P s u"
  unfolding adds_def by (metis Un_iff append.assoc set_append)

lemma adds_emit: "(\<And>e. e \<in> set es \<Longrightarrow> P e) \<Longrightarrow> adds P s (emit es s)"
  by (auto simp: adds_def emit_def)

lemma adds_mono: "adds P s t \<Longrightarrow> (\<And>e. P e \<Longrightarrow> Q e) \<Longrightarrow> adds Q s t"
  unfolding adds_def by blast

lemma learn_silent: "silent e \<Longrightarrow> learn R topic c e S = S"
  by (cases e) simp_all

lemma learn_of_child: "of_child c' e \<Longrightarrow> c' \<noteq> c \<Longrightarrow> learn R topic c e S = S"
  by (cases e) simp_all

lemma fold_unchanged: "(\<And>e S. e \<in> set es \<Longrightarrow> f e S = S) \<Longrightarrow> fold f es S = S"
  by (induction es arbitrary: S) auto

lemma told_adds:
  assumes "adds P s t" and "\<And>e topic S. P e \<Longrightarrow> learn R topic c e S = S"
  shows "told R t k l c = told R s k l c"
  using assms unfolding adds_def told_def by (auto simp: fold_unchanged)

lemma spawn_tasks_adds: "adds silent s (spawn_tasks topic m s)"
  by (auto simp: adds_def spawn_tasks_def emit_def)

lemma set_actor_adds: "adds silent s (set_actor k n a s)"
  by (simp add: set_actor_def adds_same split: option.split)

lemma abort_calls_adds: "adds silent s (abort_calls xs s)"
  by (auto simp: adds_def abort_calls_def emit_def)

lemma with_targets_adds: "adds silent s (with_targets s)"
  by (simp add: with_targets_def adds_same)

lemma scale_actor_adds:
  assumes c: "rt_claims act = Some claims"
  shows "adds silent s (snd (scale_actor X act claims n r m g s))"
proof (cases "hm_get (ag_actors g) n")
  case None
  show ?thesis
    by (rule scale_absent_cases [OF c None, of m X r s])
       (use adds_trans [OF with_targets_adds spawn_tasks_adds] in
         \<open>auto intro: adds_same adds_trans [OF _ set_actor_adds]\<close>)
next
  case (Some a)
  show ?thesis
    by (rule scale_present_cases [OF Some, of m X act claims r s])
       (auto intro: adds_same spawn_tasks_adds adds_trans [OF spawn_tasks_adds set_actor_adds]
          adds_trans [OF set_actor_adds abort_calls_adds])
qed

lemma scale_through_adds:
  assumes c: "rt_claims act = Some claims"
  shows "adds silent (sh_host sh) (sh_host (snd (scale_through X act claims n r m gid sh)))"
proof (cases "attached (subject claims) gid (sh_host sh)")
  case (Some g)
  then show ?thesis
    by (simp add: scale_through_attached scale_actor_adds [OF c])
next
  case None
  show ?thesis
    by (rule scale_through_detached [OF c None, of X n r m])
       (use scale_actor_adds [OF c, of "swapped_in (subject claims) gid sh"] in \<open>auto simp: adds_def\<close>)
qed

lemma group_entry_adds: "adds silent s (snd (group_entry k s))"
  by (simp add: group_entry_def Let_def adds_same split: option.split)

lemma leave_group_adds: "adds silent s (leave_group n pk s)"
proof -
  have "adds silent s (s\<lparr>actors := groups_without pk n s\<rparr>)"
    by (simp add: adds_same)
  from adds_trans [OF this abort_calls_adds] show ?thesis
    by (simp add: leave_group_eq)
qed

lemma stop_provider_adds: "adds silent s (snd (stop_provider X l k s))"
  by (auto simp: stop_provider_eq adds_def drop_child_def request_shutdown_def emit_def
        split: option.split sum.split)

lemma launch_adds: "adds (of_child (next_child s)) s (snd (launch X path dat s))"
proof (cases "is_ok (encode_host_data X dat) \<and> is_ok (spawn_command X path)")
  case True
  then obtain p where p: "encode_host_data X dat = Inr p" "spawn_command X path = Inr ()"
    by (auto simp: is_ok_def split: sum.splits)
  show ?thesis
    unfolding launch_spawned [OF p]
    by (auto simp: adds_def emit_def drop_child_def stdin_events_def split: sum.split)
next
  case False
  then show ?thesis
    using launch_not_spawned [of X dat path s] by (auto intro: adds_same)
qed

lemma start_provider_adds: "adds (of_child (next_child s)) s (snd (start_provider X l r s))"
proof (cases "fetch_provider X r l (hc_allow_file_load (config s)) (registry_settings s)")
  case (Inl e)
  then show ?thesis by (simp add: start_provider_def adds_same)
next
  case (Inr pc)
  obtain path claims where pc: "pc = (path, claims)" by (cases pc)
  obtain p t where pt: "provider_entry claims r s = (p, t)" by fastforce
  note fr = provider_entry_frames [OF pt]
  have st: "adds (of_child (next_child s)) s t" by (simp add: adds_same fr)
  have "adds (of_child (next_child s)) s (snd (launch X path dat t))" for dat
    using adds_trans [OF st] launch_adds [of t X path dat] by (simp add: fr)
  then show ?thesis
    unfolding start_provider_fetched [OF Inr [unfolded pc] pt] using st
    by (auto simp: adds_def split: option.split sum.split prod.split) (metis snd_conv)+
qed

lemma child_bound: "providers_inv s \<Longrightarrow> child_at s k l = Some c \<Longrightarrow> c < next_child s"
  using providers_invD(4,6) [of s] by blast

lemma start_provider_told:
  assumes inv: "providers_inv s" and rd: "readable_data R X" and st: "start_provider X l r s = (q, t)"
    and at: "child_at t k' l' = Some c"
  shows "child_at s k' l' = Some c \<or> c = next_child s \<and> told R t k' l' c = set (provider_links k' l' s)"
proof (rule start_provider_cases [OF providers_invD(4) [OF inv], of X l r])
  fix claims :: provider_claims and p u e es i
  assume "provider_entry claims r s = (p, u)" and "start_provider X l r s = (Inl e, emit es (u\<lparr>next_child := i\<rparr>))"
  then have "child_at t = child_at s"
    using st provider_entry_frames(7) [of claims r s p u] child_at_cong [of t u] by simp
  then show ?thesis using at by simp
next
  fix claims :: provider_claims and p u es
  let ?k = "subject claims"
  assume pu: "provider_entry claims r s = (p, u)" and none: "hm_get (pr_instances p) l = None"
    and eq: "start_provider X l r s = (Inr claims,
         (emit es (u\<lparr>children := children s @ [next_child s], next_child := Suc (next_child s)\<rparr>))
           \<lparr>providers := hm_insert ?k
              (p\<lparr>pr_instances := hm_insert l \<lparr>pi_child = next_child s, pi_id = ulid_new X\<rparr>
                 (pr_instances p)\<rparr>) (providers u)\<rparr>)"
  have child: "child_at t k' l' = (if k' = ?k \<and> l' = l then Some (next_child s) else child_at s k' l')"
    using eq st child_at_put [OF provider_entry_get [OF pu]] provider_entry_frames(7) [OF pu] by simp
  have "child_at s ?k l = None"
    using provider_entry_frames(7) [OF pu] provider_entry_get [OF pu] none
    by (metis child_at_def option.simps(5,8))
  moreover have "start_provider X l r s = (Inr claims, t)" using eq st by simp
  ultimately obtain dat b path where d: "build_host_data X l claims s = Inr dat" "encode_host_data X dat = Inr b"
      "events t = events s @ [Spawned (next_child s) path, Stdin (next_child s) (base64_encode X b),
        Stdin (next_child s) [13, 10]]"
    by (metis start_provider_ok)
  then have "told R t ?k l (next_child s) = set (provider_links ?k l s)"
    using rd build_host_data_links(1) [OF d(1)] by (simp add: told_def readable_data_def)
  then show ?thesis using at child by (auto split: if_splits)
qed (use st at in auto)

section \<open>The invariant\<close>

lemma provider_links_registered:
  assumes "links_wf D s"
  shows "ld \<in> set (provider_links k l s) \<longleftrightarrow> ld_provider_id ld = k \<and> ld_link_name ld = l \<and> registered D s ld"
proof -
  have "(\<exists>i. hm_get (links s) i = Some ld) \<longleftrightarrow> registered D s ld"
    using assms by (auto simp: links_wf_def registered_def)
  then show ?thesis
    using assms provider_links_iff [of s ld k l] by (simp add: links_wf_def)
qed

text \<open>Outside \<open>U\<close>, every child has been told exactly of the links registered for it.\<close>

definition told_upto :: "reader \<Rightarrow> digest \<Rightarrow> link_definition set \<Rightarrow> process \<Rightarrow> bool" where
  "told_upto R D U s \<longleftrightarrow>
     (\<forall>k l c ld. child_at s k l = Some c \<longrightarrow> ld_provider_id ld = k \<longrightarrow> ld_link_name ld = l \<longrightarrow> ld \<notin> U \<longrightarrow>
        (ld \<in> told R s k l c \<longleftrightarrow> registered D s ld))"

fun announce_ok :: "digest \<Rightarrow> process \<Rightarrow> activity \<Rightarrow> bool" where
  "announce_ok D s (Put_table X ld) \<longleftrightarrow> registered D s ld"
| "announce_ok D s (Put_publish X ld) \<longleftrightarrow> registered D s ld"
| "announce_ok D s (Del_table X ld) \<longleftrightarrow> \<not> registered D s ld"
| "announce_ok D s (Del_publish X ld) \<longleftrightarrow> \<not> registered D s ld"
| "announce_ok D s _ \<longleftrightarrow> True"

lemma told_upto_frame:
  assumes "told_upto R D U s" and "links t = links s" and "adds silent s t"
    and "\<And>k l c. child_at t k l = Some c \<Longrightarrow> child_at s k l = Some c"
  shows "told_upto R D U t"
  using assms(1,2,4) told_adds [OF assms(3) learn_silent] by (simp add: told_upto_def registered_def)

text \<open>Operations on actors, and stopping a provider, tell nobody anything.\<close>

lemma advance_actor_quiet:
  assumes "act_ok D sh b" and "resource b \<noteq> None"
  shows "adds silent (sh_host sh) (sh_host (snd (advance D b sh)))"
    and "providers (sh_host (snd (advance D b sh))) = providers (sh_host sh)"
proof -
  have "providers (snd (scale_actor X act claims n r m g s)) = providers s"
    if "rt_claims act = Some claims" for X act claims n r m g s
    using scale_actor_provider_part [OF that] by (simp add: provider_part_def)
  then have "providers (sh_host (snd (scale_through X act claims n r m gid sh))) = providers (sh_host sh)"
    if "rt_claims act = Some claims" for X act claims n r m gid
    using that by (auto simp: scale_through_def case_prod_beta Let_def split: option.split)
  moreover have "providers (leave_group n pk s) = providers s" for n pk s
    by (simp add: leave_group_eq abort_calls_def)
  moreover have "providers (snd (group_entry k s)) = providers s" for k s
    by (simp add: group_entry_def Let_def split: option.split)
  ultimately show "providers (sh_host (snd (advance D b sh))) = providers (sh_host sh)"
    using assms by (cases b) (auto simp: case_prod_beta split: option.split)
  show "adds silent (sh_host sh) (sh_host (snd (advance D b sh)))"
    using assms
    by (cases b) (auto simp: case_prod_beta scale_through_adds group_entry_adds leave_group_adds
          intro: adds_same split: option.split)
qed

lemma advance_actor_view:
  assumes inv: "shared_inv P D sh" and ok: "act_ok D sh b" and b: "resource b \<noteq> None"
    and view: "told_upto R D U (sh_host sh)"
  shows "told_upto R D U (sh_host (snd (advance D b sh)))"
proof (rule told_upto_frame [OF view _ advance_actor_quiet(1) [OF ok b]])
  show "links (sh_host (snd (advance D b sh))) = links (sh_host sh)"
    using b by (intro advance_links [OF inv ok]) (cases b, auto)
  show "child_at (sh_host sh) k l = Some c" if "child_at (sh_host (snd (advance D b sh))) k l = Some c" for k l c
    using that child_at_cong [OF advance_actor_quiet(2) [OF ok b]] by simp
qed

lemma stop_provider_view:
  assumes view: "told_upto R D U s"
  shows "told_upto R D U (snd (stop_provider X l k s))"
proof (rule told_upto_frame [OF view _ stop_provider_adds])
  show "links (snd (stop_provider X l k s)) = links s"
    using stop_provider_actor_part [of X l k s] by (simp add: actor_part_def)
  show "child_at s k' l' = Some c" if "child_at (snd (stop_provider X l k s)) k' l' = Some c" for k' l' c
    using that by (simp add: stop_provider_eq child_at_without split: if_splits)
qed

text \<open>A provider that starts is told of the registered links, whoever is about to announce one.\<close>

lemma start_provider_view:
  assumes inv: "shared_inv P D sh" and rd: "readable_data R X" and view: "told_upto R D U (sh_host sh)"
  shows "told_upto R D U (snd (start_provider X l r (sh_host sh)))"
  unfolding told_upto_def
proof (intro allI impI)
  fix k' l' c ld
  let ?s = "sh_host sh" and ?t = "snd (start_provider X l r (sh_host sh))"
  assume at: "child_at ?t k' l' = Some c" and ld: "ld_provider_id ld = k'" "ld_link_name ld = l'" "ld \<notin> U"
  note pinv = shared_invD(2) [OF inv]
  have reg: "registered D ?t ld \<longleftrightarrow> registered D ?s ld"
    using start_provider_actor_part [OF pinv, of X l r] by (simp add: actor_part_def registered_def)
  obtain q where st: "start_provider X l r ?s = (q, ?t)"
    by (metis prod.collapse)
  consider "child_at ?s k' l' = Some c" | "told R ?t k' l' c = set (provider_links k' l' ?s)"
    using start_provider_told [OF pinv rd st at] by blast
  then show "ld \<in> told R ?t k' l' c \<longleftrightarrow> registered D ?t ld"
  proof cases
    case 1
    then have "told R ?t k' l' c = told R ?s k' l' c"
      using child_bound [OF pinv 1] by (intro told_adds [OF start_provider_adds] learn_of_child) auto
    then show ?thesis
      using view 1 ld reg by (simp add: told_upto_def)
  next
    case 2
    then show ?thesis
      using provider_links_registered [of D ?s ld k' l'] host_inv_uptoD(2) [OF shared_invD(1) [OF inv]] ld reg by simp
  qed
qed

text \<open>A link operation leaves its link unannounced until it has published it.\<close>

lemma links_frames:
  "told R (s\<lparr>links := ls\<rparr>) = told R s" "child_at (s\<lparr>links := ls\<rparr>) = child_at s"
  by (simp_all add: told_def child_at_def fun_eq_iff)

lemma put_link_view:
  assumes "told_upto R D U s" and "hm_get (links s) (ld_hash D ld) = None"
  shows "told_upto R D (insert ld U) (s\<lparr>links := hm_insert (ld_hash D ld) ld (links s)\<rparr>)"
proof -
  have "registered D (s\<lparr>links := hm_insert (ld_hash D ld) ld (links s)\<rparr>) ld' \<longleftrightarrow> registered D s ld'"
    if "ld' \<noteq> ld" for ld'
    using that assms(2) by (auto simp: registered_def)
  then show ?thesis
    using assms(1) by (simp add: told_upto_def links_frames)
qed

lemma del_link_view:
  assumes "told_upto R D U s" and "hm_get (links s) (ld_hash D ld) = Some ld"
  shows "told_upto R D (insert ld U) (s\<lparr>links := hm_remove (ld_hash D ld) (links s)\<rparr>)"
proof -
  have "registered D (s\<lparr>links := hm_remove (ld_hash D ld) (links s)\<rparr>) ld' \<longleftrightarrow> registered D s ld'"
    if "ld' \<noteq> ld" for ld'
    using that assms(2) by (auto simp: registered_def)
  then show ?thesis
    using assms(1) by (simp add: told_upto_def links_frames)
qed

lemma topic_of_verb: "topic_of p k l ''put'' \<noteq> topic_of p' k' l' ''del''"
proof
  assume "topic_of p k l ''put'' = topic_of p' k' l' ''del''"
  then have "last (topic_of p k l ''put'') = last (topic_of p' k' l' ''del'')"
    by simp
  then show False
    by (simp add: topic_of_def)
qed

lemma announce_emits:
  assumes "readable_link R X"
  obtains m where "read_ld R m = Some ld"
    "snd (announce X ld verb f s) =
       emit [Published (topic_of (hc_lattice_prefix (config s)) (ld_provider_id ld) (ld_link_name ld) verb) m] s"
proof -
  obtain m where m: "encode_ld X ld = Inr m" "read_ld R m = Some ld"
    using assms unfolding readable_link_def by blast
  moreover obtain u where "nats_publish X (linkdefs_topic s ld verb) m = Inr u"
    using assms unfolding readable_link_def is_ok_def by (metis isl_def old.sum.exhaust sum.case(1))
  ultimately show ?thesis
    by (intro that [of m]) (simp_all add: announce_def publish_def linkdefs_topic_def topic_of_def)
qed

lemma announce_view:
  assumes rd: "readable_link R X" and view: "told_upto R D (insert ld U) s"
    and verb: "verb = (if registered D s ld then ''put'' else ''del'')"
  shows "told_upto R D U (snd (announce X ld verb f s))"
  unfolding told_upto_def
proof (intro allI impI)
  fix k l c ld'
  let ?t = "snd (announce X ld verb f s)" and ?p = "hc_lattice_prefix (config s)"
  assume at: "child_at ?t k l = Some c" and ld': "ld_provider_id ld' = k" "ld_link_name ld' = l" "ld' \<notin> U"
  obtain m where m: "read_ld R m = Some ld"
    and t: "?t = emit [Published (topic_of ?p (ld_provider_id ld) (ld_link_name ld) verb) m] s"
    by (rule announce_emits [OF rd])
  have "told R ?t k l c = learn R (topic_of ?p k l) c
      (Published (topic_of ?p (ld_provider_id ld) (ld_link_name ld) verb) m) (told R s k l c)"
    by (simp add: t told_def emit_def)
  then have "ld' \<in> told R ?t k l c \<longleftrightarrow> (if ld' = ld then registered D s ld else ld' \<in> told R s k l c)"
    using m verb ld' topic_of_verb [of ?p] topic_of_verb [of ?p, symmetric] by auto
  moreover have "child_at s k l = Some c" and "registered D ?t ld' \<longleftrightarrow> registered D s ld'"
    using at child_at_cong [of ?t s] by (simp_all add: t registered_def emit_def)
  ultimately show "ld' \<in> told R ?t k l c \<longleftrightarrow> registered D ?t ld'"
    using view ld' by (auto simp: told_upto_def)
qed

section \<open>All activities\<close>

lemma update_table_view: "told_upto R D U s \<Longrightarrow> told_upto R D U (update_table k f s)"
  by (rule told_upto_frame) (auto simp: child_at_def intro: adds_same)

lemma advance_link_view:
  assumes inv: "shared_inv P D sh" and b: "is_link_op b" "readable R b" "announce_ok D (sh_host sh) b"
    and view: "told_upto R D (unannounced b) (sh_host sh)"
  shows "told_upto R D (unannounced (fst (advance D b sh))) (sh_host (snd (advance D b sh))) \<and>
    announce_ok D (sh_host (snd (advance D b sh))) (fst (advance D b sh))"
proof (cases b)
  case (Put_link X ld)
  then show ?thesis
    using view put_link_view [of R D "{}" "sh_host sh" ld]
    by (auto simp: Let_def registered_def ld_hash_def split: option.split)
next
  case (Del_link X ld)
  let ?i = "linkdef_hash D (ld_actor_id ld) (ld_contract_id ld) (ld_link_name ld)"
  have "?i = ld_hash D ld'" if "hm_get (links (sh_host sh)) ?i = Some ld'" for ld'
    using host_inv_uptoD(2) [OF shared_invD(1) [OF inv]] that by (simp add: links_wf_def)
  then show ?thesis
    using view Del_link del_link_view [of R D "{}" "sh_host sh"]
    by (auto simp: Let_def registered_def split: option.split)
next
  case (Put_publish X ld)
  then show ?thesis
    using announce_view [of R X D ld "{}" "sh_host sh" "''put''"] b view by (simp add: case_prod_beta)
next
  case (Del_publish X ld)
  then show ?thesis
    using announce_view [of R X D ld "{}" "sh_host sh" "''del''"] b view by (simp add: case_prod_beta)
qed (use b view in \<open>auto simp: registered_def update_table_view\<close>)

lemma unannounced_link_op: "unannounced a \<noteq> {} \<Longrightarrow> is_link_op a"
  by (cases a) auto

lemma advance_other_view:
  assumes inv: "shared_inv P D sh" and ok: "act_ok D sh b" and b: "\<not> is_link_op b" "\<not> finished b" "readable R b"
    and view: "told_upto R D U (sh_host sh)"
  shows "told_upto R D U (sh_host (snd (advance D b sh)))"
proof -
  consider "resource b \<noteq> None" | X l r where "b = Start_provider X l r" | X l k where "b = Stop_provider X l k"
    using b by (cases b) auto
  then show ?thesis
  proof cases
    case 1
    then show ?thesis by (rule advance_actor_view [OF inv ok _ view])
  next
    case (2 X l r)
    then show ?thesis using b start_provider_view [OF inv _ view, of X l r] by (simp add: case_prod_beta)
  next
    case (3 X l k)
    then show ?thesis using stop_provider_view [OF view, of X l k] by (simp add: case_prod_beta)
  qed
qed

lemma announce_ok_link_op: "\<not> is_link_op a \<Longrightarrow> announce_ok D s a"
  by (cases a) auto

lemma announce_ok_links: "links t = links s \<Longrightarrow> announce_ok D t a = announce_ok D s a"
  by (cases a) (simp_all add: registered_def)

definition told_inv :: "reader \<Rightarrow> digest \<Rightarrow> world \<Rightarrow> bool" where
  "told_inv R D w \<longleftrightarrow>
     told_upto R D (\<Union> (unannounced ` set (wd_acts w))) (wd_host w) \<and>
     (\<forall>a \<in> set (wd_acts w). announce_ok D (wd_host w) a \<and> readable R a)"

text \<open>The steps of activities whose messages are understood and delivered.\<close>

definition heard_step :: "reader \<Rightarrow> digest \<Rightarrow> world \<Rightarrow> world \<Rightarrow> bool" where
  "heard_step R D w v \<longleftrightarrow> conc_step D w v \<and> (\<forall>a \<in> set (wd_acts v). readable R a)"

lemma told_inv_move:
  assumes cinv: "conc_inv D w" and inv: "told_inv R D w" and mv: "conc_move D w v"
    and rd: "\<forall>a \<in> set (wd_acts v). readable R a"
  shows "told_inv R D v"
  using mv
proof cases
  case (move i a sh)
  let ?xs = "wd_acts w" and ?b = "wd_acts w ! i" and ?sh = "wd_shared w"
  have nc: "\<not> clash (?xs ! j) ?b" if "j < length ?xs" "j \<noteq> i" for j
    using cinv that move(2) by (simp add: conc_inv_def)
  have ok: "act_ok D ?sh ?b" "announce_ok D (sh_host ?sh) ?b" "readable R ?b"
    using cinv inv move(2) by (auto simp: conc_inv_def told_inv_def)
  have sinv: "shared_inv (\<Union> (pending ` set ?xs)) D ?sh"
    using cinv by (simp add: conc_inv_def)
  have a: "a = fst (advance D ?b ?sh)" "sh = snd (advance D ?b ?sh)"
    using move(4) by simp_all
  note un = link_op_update [where f = unannounced, OF unannounced_link_op move(2) nc, of a]
  have lop: "is_link_op a \<Longrightarrow> is_link_op ?b" using advance_link_op [of D ?b ?sh] by (simp add: a)
  have view: "told_upto R D (\<Union> (unannounced ` set ?xs)) (sh_host ?sh)"
    using inv by (simp add: told_inv_def)
  have "told_upto R D (\<Union> (unannounced ` set (?xs[i := a]))) (sh_host sh) \<and>
      (\<forall>j < length ?xs. announce_ok D (sh_host sh) (?xs[i := a] ! j))"
  proof (cases "is_link_op ?b")
    case True
    then have U: "\<Union> (unannounced ` set (?xs[i := a])) = unannounced a" "\<Union> (unannounced ` set ?xs) = unannounced ?b"
      using un lop by simp_all
    have "announce_ok D (sh_host sh) (?xs ! j)" if "j < length ?xs" "j \<noteq> i" for j
      using nc [OF that] True by (intro announce_ok_link_op) (simp add: clash_def)
    then show ?thesis
      using advance_link_view [OF sinv True ok(3,2)] view move(2) unfolding U by (auto simp: a nth_list_update)
  next
    case False
    then have na: "\<not> is_link_op a" using lop by blast
    with False have U: "\<Union> (unannounced ` set (?xs[i := a])) = \<Union> (unannounced ` set ?xs)"
      using un(1) by simp
    have "links (sh_host sh) = links (sh_host ?sh)"
      using advance_links [OF sinv ok(1) False] by (simp add: a)
    then have "announce_ok D (sh_host sh) (?xs ! j)" if "j < length ?xs" for j
      using inv that announce_ok_links [of "sh_host sh" "sh_host ?sh"] by (simp add: told_inv_def)
    then show ?thesis
      using advance_other_view [OF sinv ok(1) False move(3) ok(3) view] move(2) announce_ok_link_op [OF na]
      unfolding U by (auto simp: nth_list_update) (simp add: a)
  qed
  then show ?thesis
    using rd by (simp add: move(1) told_inv_def) (simp add: all_set_conv_all_nth)
qed

lemma told_inv_step:
  assumes "conc_inv D w" and "told_inv R D w" and "heard_step R D w v"
  shows "told_inv R D v"
proof -
  have st: "conc_step D w v" and rd: "\<forall>a \<in> set (wd_acts v). readable R a"
    using assms(3) by (simp_all add: heard_step_def)
  from st show ?thesis
  proof cases
    case (arrive a)
    then have "unannounced a = {}" "announce_ok D (wd_host w) a"
      by (cases a; simp)+
    then show ?thesis
      using assms(2) rd arrive by (simp add: told_inv_def)
  next
    case advance
    then show ?thesis by (rule told_inv_move [OF assms(1,2) _ rd])
  qed
qed

interpretation told_sys: transition_system initial_world "heard_step R D" "\<lambda>w. conc_inv D w \<and> told_inv R D w"
  for R :: reader and D :: digest
proof
  show "conc_inv D w \<and> told_inv R D w" if "initial_world w" for w
    using that conc_sys.initial_inv [OF that, of D]
    by (auto simp: initial_world_def told_inv_def told_upto_def child_at_def initial_host_def dest: host_new_empty(4))
  show "conc_inv D v \<and> told_inv R D v" if "conc_inv D w \<and> told_inv R D w" "heard_step R D w v" for w v
    using that told_inv_step [of D w R v] conc_sys.step_inv [of D w v] by (simp add: heard_step_def)
qed

section \<open>Property\<close>

text \<open>
  C7. A provider process knows its links, however starting and stopping it, adding and deleting links, and
  the operations on actors interleave: as long as the messages of the host are delivered and understood,
  what a running process has been told of (in its host data, then by announcements) are exactly the
  registered links that name it and its link name, apart from the one link that an operation has changed in
  the registry and not yet announced.
\<close>

theorem providers_know_their_links:
  assumes "initial_world w" "(heard_step R D)\<^sup>*\<^sup>* w v" "child_at (wd_host v) k l = Some c"
    and "ld \<notin> \<Union> (unannounced ` set (wd_acts v))" "ld_provider_id ld = k" "ld_link_name ld = l"
  shows "ld \<in> told R (wd_host v) k l c \<longleftrightarrow> (\<exists>i. hm_get (links (wd_host v)) i = Some ld)"
proof -
  have inv: "conc_inv D v" "told_inv R D v"
    using told_sys.reachable_inv [OF assms(1,2)] by simp_all
  then have "links_wf D (wd_host v)"
    using host_inv_uptoD(2) shared_invD(1) unfolding conc_inv_def by blast
  then have "(\<exists>i. hm_get (links (wd_host v)) i = Some ld) \<longleftrightarrow> registered D (wd_host v) ld"
    by (auto simp: links_wf_def registered_def)
  then show ?thesis
    using inv(2) assms(3-6) by (simp add: told_inv_def told_upto_def)
qed

text \<open>The HTTP server is started, then the link of the echo actor to it is added.\<close>

definition sample_reader :: reader where
  "sample_reader = \<lparr>read_data = (\<lambda>bs. map_option fst (dec_all dec_link bs)), read_ld = (\<lambda>bs. map_option fst (dec_link bs))\<rparr>"

definition link_codec :: link_ext where
  "link_codec = link_up\<lparr>encode_ld := (\<lambda>ld. Inr (enc_link ld))\<rparr>"

definition http_codec :: provider_ext where
  "http_codec = http_ext\<lparr>encode_host_data := (\<lambda>dat. Inr (enc_list enc_link (dt_link_definitions dat)))\<rparr>"

lemma sample_readable: "readable_link sample_reader link_codec" "readable_data sample_reader http_codec"
  using dec_enc_link [of _ "[]"] dec_enc_all [OF dec_enc_link, of _ "[]"]
  by (simp_all add: readable_link_def readable_data_def sample_reader_def link_codec_def http_codec_def
        link_up_def http_ext_def is_ok_def) (simp add: dec_all_def)

lemma readable_advance: "readable R b \<Longrightarrow> readable R (fst (advance D b sh))"
  by (cases b) (simp_all add: Let_def case_prod_beta split: sum.split option.split)

lemma heard_moves:
  assumes "(conc_move D)\<^sup>*\<^sup>* w v" and "\<forall>a \<in> set (wd_acts w). readable R a"
  shows "(heard_step R D)\<^sup>*\<^sup>* w v \<and> (\<forall>a \<in> set (wd_acts v). readable R a)"
  using assms
proof (induction rule: rtranclp_induct)
  case (step u v)
  from step.hyps(2) have "\<forall>a \<in> set (wd_acts v). readable R a"
  proof cases
    case (move i a sh)
    have "readable R a"
      using move(2,4) step.IH step.prems readable_advance [of R "wd_acts u ! i" D "wd_shared u"] by simp
    then show ?thesis
      using step.IH step.prems move(1) set_update_subset_insert [of "wd_acts u" i a] by auto
  qed
  then have "heard_step R D u v"
    using step.hyps(2) by (simp add: heard_step_def conc_step.advance)
  then show ?case
    using step.IH step.prems \<open>\<forall>a \<in> set (wd_acts v). readable R a\<close> by (meson rtranclp.rtrancl_into_rtrancl)
qed simp

lemma heard_arrive_and_move:
  assumes "starting a" "\<forall>b \<in> set acts. \<not> clash a b" "advance_n D k (a, sh) = (a', sh')"
    and "readable R a" "\<forall>b \<in> set acts. readable R b"
  shows "(heard_step R D)\<^sup>*\<^sup>* \<lparr>wd_shared = sh, wd_acts = acts\<rparr> \<lparr>wd_shared = sh', wd_acts = acts @ [a']\<rparr>"
proof -
  have "heard_step R D \<lparr>wd_shared = sh, wd_acts = acts\<rparr> \<lparr>wd_shared = sh, wd_acts = acts @ [a]\<rparr>"
    using conc_step.arrive [of a "\<lparr>wd_shared = sh, wd_acts = acts\<rparr>" D] assms by (simp add: heard_step_def)
  moreover have "(heard_step R D)\<^sup>*\<^sup>* \<lparr>wd_shared = sh, wd_acts = acts @ [a]\<rparr>
      \<lparr>wd_shared = sh', wd_acts = acts @ [a']\<rparr>"
    using heard_moves [OF moves [of "length acts" "acts @ [a]" D sh k], of R] assms(3-5) by auto
  ultimately show ?thesis by (rule converse_rtranclp_into_rtranclp)
qed

theorem providers_know_their_links_witness:
  "\<exists>v. (heard_step sample_reader sample_digest)\<^sup>*\<^sup>*
       \<lparr>wd_shared = \<lparr>sh_host = sample_host, sh_detached = []\<rparr>, wd_acts = []\<rparr> v \<and>
     child_at (wd_host v) ''VHTTP'' ''test'' = Some 0 \<and>
     echo_ld \<in> told sample_reader (wd_host v) ''VHTTP'' ''test'' 0"
proof -
  let ?R = sample_reader and ?D = sample_digest
  let ?sh = "\<lparr>sh_host = sample_host, sh_detached = []\<rparr>"
  let ?r = "Start_provider http_codec ''test'' ''httpserver:0.17.0''" and ?p = "Put_link link_codec echo_ld"
  let ?s1 = "snd (start_provider http_codec ''test'' ''httpserver:0.17.0'' sample_host)"
  let ?s2 = "snd (add_linkdef ?D link_codec echo_ld ?s1)"
  have at: "child_at ?s1 ''VHTTP'' ''test'' = Some 0"
    by (simp add: start_provider_def provider_entry_def build_host_data_def launch_def feed_stdin_def emit_def
          sample_defs http_codec_def u64_try_from_def out_of_range_def Let_def child_at_def hm_get_def)
  have "links ?s1 = links sample_host"
    using start_provider_actor_part [of sample_host http_codec] sample_system_inv
    by (simp add: actor_part_def system_inv_def)
  then have vac: "hm_get (links ?s1) (ld_hash ?D echo_ld) = None"
    by (simp add: sample_host_def)
  have links: "hm_get (links ?s2) (ld_hash ?D echo_ld) = Some echo_ld"
    by (simp add: add_linkdef_vacant [OF vac] link_put_def split: sum.split)
  have at2: "child_at ?s2 ''VHTTP'' ''test'' = Some 0"
    using at add_linkdef_provider_part [of ?D link_codec echo_ld ?s1] child_at_cong [of ?s2 ?s1]
    by (simp add: provider_part_def)
  let ?q1 = "Finished (Provider_outcome (fst (start_provider http_codec ''test'' ''httpserver:0.17.0'' sample_host)))"
  have one: "(heard_step ?R ?D)\<^sup>*\<^sup>* \<lparr>wd_shared = ?sh, wd_acts = []\<rparr>
      \<lparr>wd_shared = \<lparr>sh_host = ?s1, sh_detached = []\<rparr>, wd_acts = [?q1]\<rparr>"
    using heard_arrive_and_move [OF _ _ start_alone, of http_codec "''test''" "''httpserver:0.17.0''" "[]" ?R ?D ?sh]
      sample_readable by simp
  have two: "(heard_step ?R ?D)\<^sup>*\<^sup>* \<lparr>wd_shared = \<lparr>sh_host = ?s1, sh_detached = []\<rparr>, wd_acts = [?q1]\<rparr>
      \<lparr>wd_shared = \<lparr>sh_host = ?s2, sh_detached = []\<rparr>,
       wd_acts = [?q1, Finished (Unit_outcome (fst (add_linkdef ?D link_codec echo_ld ?s1)))]\<rparr>"
    using heard_arrive_and_move [OF _ _ put_alone, of link_codec echo_ld "[?q1]" ?R ?D
        "\<lparr>sh_host = ?s1, sh_detached = []\<rparr>"] sample_readable by (simp add: clash_def)
  have init: "initial_world \<lparr>wd_shared = ?sh, wd_acts = []\<rparr>"
    by (simp add: initial_world_def sample_initial)
  from rtranclp_trans [OF one two] providers_know_their_links [OF init rtranclp_trans [OF one two], of "''VHTTP''" "''test''" 0 echo_ld]
  show ?thesis
    using at2 links by (auto simp: echo_ld_def)
qed

end
