(* ===== verification/Kasm_Locks.thy ===== *)
theory Kasm_Locks
  imports Kasm_Prelude
begin

text \<open>
  The locks. Every shared field of the host and of a handler is behind a \<^verbatim>\<open>tokio::sync::RwLock\<close>. A task
  is here the sequence of its lock operations, read off the source; what it computes in between is in the
  other theories. Which of the tasks that ask for a lock gets it is the lock's business: the policy is a
  parameter, and what its documentation promises (first come, first served; a reader queues behind a writer
  that waits) is a hypothesis of the theorems that need it.
\<close>

section \<open>Locks and tasks\<close>

text \<open>
  \<^verbatim>\<open>Ctx.links\<close>; the fields of \<^verbatim>\<open>Host\<close>; \<^verbatim>\<open>ActorGroup.actors\<close> and \<^verbatim>\<open>links\<close>, by group; \<^verbatim>\<open>Actor.instances\<close>, by group
  and resource; \<^verbatim>\<open>Handler.targets\<close>, by actor.
\<close>

datatype lock =
    Ctx_links | Registry_settings | Actor_keys | Actors | Group_actors nat | Instances nat string
  | Providers | Links | Targets nat | Group_links nat | Aliases

datatype mode = Read | Write

text \<open>\<open>Await j\<close> waits for the answer of the task \<open>j\<close>, which has it when it has ended.\<close>

datatype lock_op = Acquire lock mode | Release lock | Await nat

record ltask =
  lt_held :: "(lock \<times> mode) list"
  lt_prog :: "lock_op list"
  lt_waiting :: bool

record lstate =
  ls_tasks :: "ltask list"
  ls_queue :: "lock \<Rightarrow> (nat \<times> mode) list"

definition launched :: "lock_op list \<Rightarrow> ltask" where
  "launched p = \<lparr>lt_held = [], lt_prog = p, lt_waiting = False\<rparr>"

definition launch_all :: "lock_op list list \<Rightarrow> lstate" where
  "launch_all ps = \<lparr>ls_tasks = map launched ps, ls_queue = (\<lambda>_. [])\<rparr>"

section \<open>Read-write locks\<close>

definition held_in :: "lock \<Rightarrow> lstate \<Rightarrow> mode list" where
  "held_in l st = concat (map (\<lambda>t. map snd (filter (\<lambda>h. fst h = l) (lt_held t))) (ls_tasks st))"

text \<open>
  A policy says whether a task gets the lock, from the modes it is held in and the requests in the order
  they were made. The first request gets a free lock under every policy considered; a fair one serves the
  requests in order.
\<close>

type_synonym policy = "mode list \<Rightarrow> (nat \<times> mode) list \<Rightarrow> nat \<Rightarrow> bool"

definition compatible :: "mode \<Rightarrow> mode list \<Rightarrow> bool" where
  "compatible m held = (case m of Write \<Rightarrow> held = [] | Read \<Rightarrow> Write \<notin> set held)"

definition serves_first :: "policy \<Rightarrow> bool" where
  "serves_first G \<longleftrightarrow> (\<forall>t m q. G [] ((t, m) # q) t)"

definition fair_rwlock :: "policy \<Rightarrow> bool" where
  "fair_rwlock G \<longleftrightarrow> (\<forall>held q t. G held q t \<longleftrightarrow> (\<exists>m rest. q = (t, m) # rest \<and> compatible m held))"

text \<open>One step of the task \<open>t\<close>, if it can make one: ask for a lock, take it, release it, or go on.\<close>

definition lock_step :: "policy \<Rightarrow> nat \<Rightarrow> lstate \<Rightarrow> lstate option" where
  "lock_step G t st =
     (if length (ls_tasks st) \<le> t then None
      else
        let task = ls_tasks st ! t
        in case lt_prog task of
             [] \<Rightarrow> None
           | Acquire l m # p \<Rightarrow>
               if \<not> lt_waiting task
               then Some (st\<lparr>ls_tasks := (ls_tasks st)[t := task\<lparr>lt_waiting := True\<rparr>],
                             ls_queue := (ls_queue st)(l := ls_queue st l @ [(t, m)])\<rparr>)
               else if G (held_in l st) (ls_queue st l) t
               then Some (st\<lparr>ls_tasks := (ls_tasks st)[t :=
                               \<lparr>lt_held = (l, m) # lt_held task, lt_prog = p, lt_waiting = False\<rparr>],
                             ls_queue := (ls_queue st)(l := filter (\<lambda>e. fst e \<noteq> t) (ls_queue st l))\<rparr>)
               else None
           | Release l # p \<Rightarrow>
               Some (st\<lparr>ls_tasks := (ls_tasks st)[t :=
                 task\<lparr>lt_held := filter (\<lambda>h. fst h \<noteq> l) (lt_held task), lt_prog := p\<rparr>]\<rparr>)
           | Await j # p \<Rightarrow>
               if j < length (ls_tasks st) \<and> lt_prog (ls_tasks st ! j) = []
               then Some (st\<lparr>ls_tasks := (ls_tasks st)[t := task\<lparr>lt_prog := p\<rparr>]\<rparr>)
               else None)"

definition lstep :: "policy \<Rightarrow> lstate \<Rightarrow> lstate \<Rightarrow> bool" where
  "lstep G st st' \<longleftrightarrow> (\<exists>t. lock_step G t st = Some st')"

definition all_ended :: "lstate \<Rightarrow> bool" where
  "all_ended st \<longleftrightarrow> (\<forall>task \<in> set (ls_tasks st). lt_prog task = [])"

section \<open>The lock operations of the host\<close>

text \<open>
  The arguments of a program say which way its function goes: whether a call succeeded, an entry was vacant
  or occupied. A guard that is a temporary of a statement is released at the end of the statement, a named
  one at the end of its scope.
\<close>

definition locked :: "lock \<Rightarrow> mode \<Rightarrow> lock_op list \<Rightarrow> lock_op list" where
  "locked l m p = Acquire l m # p @ [Release l]"

definition on_path :: "bool \<Rightarrow> lock_op list \<Rightarrow> lock_op list" where
  "on_path b p = (if b then p else [])"

definition reconcile_actor_locks :: "bool \<Rightarrow> bool \<Rightarrow> bool \<Rightarrow> bool \<Rightarrow> nat \<Rightarrow> string \<Rightarrow> lock_op list" where
  "reconcile_actor_locks fetched key_ok new_group known g n =
     locked Registry_settings Read [] @
     on_path fetched
       (locked Actor_keys Read [] @
        on_path key_ok
          (locked Actor_keys Write [] @
           locked Actors Write (on_path new_group (locked Links Read [])) @
           locked (Group_actors g) Write (on_path known (locked (Instances g n) Write []))))"

definition remove_actor_locks :: "bool \<Rightarrow> bool \<Rightarrow> bool \<Rightarrow> nat \<Rightarrow> string \<Rightarrow> lock_op list" where
  "remove_actor_locks bound grouped known g n =
     locked Actor_keys Read [] @
     on_path bound
       (locked Actors Write
          (on_path grouped
             (locked (Group_actors g) Write (on_path known (locked (Instances g n) Write [])) @
              locked (Group_actors g) Read [])) @
        locked Actor_keys Write [])"

text \<open>The guard of the providers is a temporary of the last expression and outlives the guard of the actors.\<close>

definition stats_locks :: "(nat \<times> string list) list \<Rightarrow> lock_op list" where
  "stats_locks gs =
     Acquire Actors Read #
     concat (map (\<lambda>(g, ns). locked (Group_actors g) Read
                     (concat (map (\<lambda>n. locked (Instances g n) Read []) ns))) gs) @
     [Acquire Providers Read, Release Actors, Release Providers]"

definition start_provider_locks :: "bool \<Rightarrow> bool \<Rightarrow> lock_op list" where
  "start_provider_locks fetched vacant =
     locked Registry_settings Read
       (on_path fetched (locked Providers Write (on_path vacant (locked Links Read []))))"

definition stop_provider_locks :: "lock_op list" where
  "stop_provider_locks = locked Providers Write []"

text \<open>
  \<^verbatim>\<open>add_linkdef\<close> and \<^verbatim>\<open>delete_linkdef\<close>, inside the critical section of the controller that calls them for the
  first and the last reference.
\<close>

definition link_op_locks :: "bool \<Rightarrow> bool \<Rightarrow> bool \<Rightarrow> nat \<Rightarrow> lock_op list" where
  "link_op_locks first changed grouped g =
     locked Ctx_links Write
       (on_path first
          (locked Links Write [] @
           on_path changed (locked Actors Read (on_path grouped (locked (Group_links g) Write [])))))"

text \<open>
  A call of a guest: the links and the aliases stay locked until the answer \<open>rpc\<close> has arrived. An operation
  of a capability interface keeps the targets locked around it.
\<close>

definition bus_call_locks :: "nat \<Rightarrow> lock_op list \<Rightarrow> lock_op list" where
  "bus_call_locks g rpc = locked (Group_links g) Read (locked Aliases Read rpc)"

definition wasi_call_locks :: "nat \<Rightarrow> nat \<Rightarrow> lock_op list \<Rightarrow> lock_op list" where
  "wasi_call_locks tg g rpc = locked (Targets tg) Read (bus_call_locks g rpc)"

definition set_target_locks :: "nat \<Rightarrow> lock_op list" where
  "set_target_locks tg = locked (Targets tg) Write []"

definition identify_target_locks :: "nat \<Rightarrow> lock_op list" where
  "identify_target_locks g = locked (Group_links g) Read []"

text \<open>The operations, the calls being those that are answered from outside the host.\<close>

inductive host_program :: "lock_op list \<Rightarrow> bool" where
  "host_program (reconcile_actor_locks fetched key_ok new_group known g n)"
| "host_program (remove_actor_locks bound grouped known g n)"
| "host_program (stats_locks gs)"
| "host_program (start_provider_locks fetched vacant)"
| "host_program stop_provider_locks"
| "host_program (link_op_locks first changed grouped g)"
| "host_program (bus_call_locks g [])"
| "host_program (wasi_call_locks tg g [])"
| "host_program (set_target_locks tg)"
| "host_program (identify_target_locks g)"

section \<open>Locks are taken in order\<close>

fun rank :: "lock \<Rightarrow> nat" where
  "rank Ctx_links = 0"
| "rank Registry_settings = 1"
| "rank Actor_keys = 2"
| "rank Actors = 3"
| "rank (Group_actors g) = 4"
| "rank (Instances g n) = 5"
| "rank Providers = 6"
| "rank Links = 7"
| "rank (Targets tg) = 8"
| "rank (Group_links g) = 9"
| "rank Aliases = 10"

lemma rank_le: "rank l \<le> 10"
  by (cases l) simp_all

text \<open>A task that holds \<open>hs\<close> asks only for locks of a higher rank, waits for nobody, and ends with none.\<close>

fun in_order :: "(lock \<times> mode) list \<Rightarrow> lock_op list \<Rightarrow> bool" where
  "in_order hs [] \<longleftrightarrow> hs = []"
| "in_order hs (Acquire l m # p) \<longleftrightarrow> (\<forall>h \<in> set hs. rank (fst h) < rank l) \<and> in_order ((l, m) # hs) p"
| "in_order hs (Release l # p) \<longleftrightarrow> in_order (filter (\<lambda>h. fst h \<noteq> l) hs) p"
| "in_order hs (Await j # p) \<longleftrightarrow> False"

text \<open>A program that leaves what is held as it was.\<close>

definition keeps_order :: "(lock \<times> mode) list \<Rightarrow> lock_op list \<Rightarrow> bool" where
  "keeps_order hs p \<longleftrightarrow> (\<forall>q. in_order hs q \<longrightarrow> in_order hs (p @ q))"

named_theorems order_intros

lemma keeps_order_Nil [order_intros]: "keeps_order hs []"
  by (simp add: keeps_order_def)

lemma keeps_order_append [order_intros]:
  "keeps_order hs p \<Longrightarrow> keeps_order hs p' \<Longrightarrow> keeps_order hs (p @ p')"
  by (simp add: keeps_order_def)

lemma keeps_order_on_path [order_intros]: "keeps_order hs p \<Longrightarrow> keeps_order hs (on_path b p)"
  by (simp add: on_path_def keeps_order_Nil)

lemma keeps_order_concat [order_intros]:
  "(\<And>p. p \<in> set ps \<Longrightarrow> keeps_order hs p) \<Longrightarrow> keeps_order hs (concat ps)"
  by (induction ps) (auto intro: keeps_order_Nil keeps_order_append)

lemma release_last:
  assumes "\<forall>h \<in> set hs. rank (fst h) < rank l"
  shows "filter (\<lambda>h. fst h \<noteq> l) hs = hs"
  using assms by (auto intro!: filter_True)

lemma keeps_order_locked [order_intros]:
  assumes "\<forall>h \<in> set hs. rank (fst h) < rank l" and "keeps_order ((l, m) # hs) p"
  shows "keeps_order hs (locked l m p)"
  using assms by (simp add: keeps_order_def locked_def release_last)

lemma host_program_keeps_order:
  assumes "host_program p"
  shows "keeps_order [] p"
  using assms
proof cases
  case (3 gs)
  let ?b = "concat (map (\<lambda>(g, ns). locked (Group_actors g) Read
              (concat (map (\<lambda>n. locked (Instances g n) Read []) ns))) gs)"
  have "keeps_order [(Actors, Read)] ?b"
    by (auto intro!: order_intros)
  then show ?thesis
    using 3 by (simp add: stats_locks_def keeps_order_def)
qed (auto simp: reconcile_actor_locks_def remove_actor_locks_def start_provider_locks_def
       stop_provider_locks_def link_op_locks_def bus_call_locks_def wasi_call_locks_def
       set_target_locks_def identify_target_locks_def intro!: order_intros)

section \<open>No task waits for ever\<close>

text \<open>The queue of a lock holds the tasks that wait for it, and every task keeps to the order.\<close>

definition waits_for :: "ltask \<Rightarrow> lock \<Rightarrow> mode \<Rightarrow> bool" where
  "waits_for task l m \<longleftrightarrow> lt_waiting task \<and> (\<exists>p. lt_prog task = Acquire l m # p)"

definition lock_inv :: "lstate \<Rightarrow> bool" where
  "lock_inv st \<longleftrightarrow>
     (\<forall>task \<in> set (ls_tasks st). in_order (lt_held task) (lt_prog task)) \<and>
     (\<forall>task \<in> set (ls_tasks st). lt_waiting task \<longrightarrow> (\<exists>l m. waits_for task l m)) \<and>
     (\<forall>l. distinct (map fst (ls_queue st l))) \<and>
     (\<forall>l t m. (t, m) \<in> set (ls_queue st l) \<longleftrightarrow>
        t < length (ls_tasks st) \<and> waits_for (ls_tasks st ! t) l m)"

lemma lock_stepE:
  assumes "lock_step G t st = Some st'"
  obtains (queue) l m p where
      "lt_prog (ls_tasks st ! t) = Acquire l m # p" "\<not> lt_waiting (ls_tasks st ! t)"
      "st' = st\<lparr>ls_tasks := (ls_tasks st)[t := (ls_tasks st ! t)\<lparr>lt_waiting := True\<rparr>],
               ls_queue := (ls_queue st)(l := ls_queue st l @ [(t, m)])\<rparr>"
    | (grant) l m p where
      "lt_prog (ls_tasks st ! t) = Acquire l m # p" "lt_waiting (ls_tasks st ! t)"
      "st' = st\<lparr>ls_tasks := (ls_tasks st)[t :=
               \<lparr>lt_held = (l, m) # lt_held (ls_tasks st ! t), lt_prog = p, lt_waiting = False\<rparr>],
               ls_queue := (ls_queue st)(l := filter (\<lambda>e. fst e \<noteq> t) (ls_queue st l))\<rparr>"
    | (release) l p where
      "lt_prog (ls_tasks st ! t) = Release l # p"
      "st' = st\<lparr>ls_tasks := (ls_tasks st)[t := (ls_tasks st ! t)
               \<lparr>lt_held := filter (\<lambda>h. fst h \<noteq> l) (lt_held (ls_tasks st ! t)), lt_prog := p\<rparr>]\<rparr>"
    | (await) j p where
      "lt_prog (ls_tasks st ! t) = Await j # p"
      "st' = st\<lparr>ls_tasks := (ls_tasks st)[t := (ls_tasks st ! t)\<lparr>lt_prog := p\<rparr>]\<rparr>"
  using assms
  by (simp add: lock_step_def Let_def split: if_splits list.splits lock_op.splits prod.splits)

lemma lock_step_in_range: "lock_step G t st = Some st' \<Longrightarrow> t < length (ls_tasks st)"
  by (simp add: lock_step_def split: if_splits)

lemma task_at:
  "t < length ts \<Longrightarrow> task \<in> set (ts[t := x]) \<Longrightarrow> task = x \<or> task \<in> set ts"
  by (metis insertE set_update_subset_insert subsetD)

lemma lock_inv_step:
  assumes inv: "lock_inv st" and step: "lock_step G t st = Some st'"
  shows "lock_inv st'"
proof -
  let ?ts = "ls_tasks st"
  note t = lock_step_in_range [OF step]
  then have here: "?ts ! t \<in> set ?ts"
    by simp
  have upd: "lock_inv (st\<lparr>ls_tasks := ?ts[t := x], ls_queue := qs\<rparr>)"
    if "in_order (lt_held x) (lt_prog x)" and "lt_waiting x \<longrightarrow> (\<exists>l m. waits_for x l m)"
      and "\<And>l. distinct (map fst (qs l))"
      and "\<And>l s m. (s, m) \<in> set (qs l) \<longleftrightarrow>
             (if s = t then waits_for x l m else (s, m) \<in> set (ls_queue st l))" for x qs
    using inv that t by (auto simp: lock_inv_def nth_list_update dest!: task_at [OF t])
  have mem: "(s, m) \<in> set (ls_queue st l) \<longleftrightarrow> s < length ?ts \<and> waits_for (?ts ! s) l m" for l s m
    using inv by (simp add: lock_inv_def)
  have dist: "distinct (map fst (ls_queue st l))" for l
    using inv by (simp add: lock_inv_def)
  have order: "in_order (lt_held (?ts ! t)) (lt_prog (?ts ! t))"
    using inv here by (simp add: lock_inv_def)
  have idle: "\<not> lt_waiting (?ts ! t)" if "lt_prog (?ts ! t) = a # p" "\<And>l m. a \<noteq> Acquire l m" for a p
    using inv here that by (fastforce simp: lock_inv_def waits_for_def)
  show ?thesis
    using step
  proof (cases rule: lock_stepE)
    case (queue l m p)
    have "t \<notin> fst ` set (ls_queue st k)" for k
      using queue(2) by (auto simp: mem waits_for_def)
    then show ?thesis
      unfolding queue(3) using order queue(1,2) dist
      by (intro upd) (auto simp: waits_for_def mem)
  next
    case (grant l m p)
    have "(t, k) \<in> set (ls_queue st l') \<longleftrightarrow> l' = l \<and> k = m" for k l'
      using t grant(1,2) by (simp add: mem waits_for_def) blast
    moreover have "distinct (map fst (filter (\<lambda>e. fst e \<noteq> t) (ls_queue st l)))"
      using dist by (simp add: distinct_map_filter)
    ultimately show ?thesis
      unfolding grant(3) using order grant(1) dist
      by (intro upd) (auto simp: waits_for_def)
  next
    case (release l p)
    let ?x = "(?ts ! t)\<lparr>lt_held := filter (\<lambda>h. fst h \<noteq> l) (lt_held (?ts ! t)), lt_prog := p\<rparr>"
    have "lock_inv (st\<lparr>ls_tasks := ?ts[t := ?x], ls_queue := ls_queue st\<rparr>)"
      using order dist idle [OF release(1)] release(1)
      by (intro upd) (auto simp: waits_for_def mem)
    then show ?thesis
      by (simp add: release(2))
  next
    case (await j p)
    then show ?thesis
      using order by simp
  qed
qed

text \<open>Of the locks that are waited for, the head of the queue of the highest gets it.\<close>

definition wanted :: "lstate \<Rightarrow> lock set" where
  "wanted st = {l. ls_queue st l \<noteq> []}"

lemma idle_task_steps:
  assumes "lock_inv st" and "t < length (ls_tasks st)" and "lt_prog (ls_tasks st ! t) \<noteq> []"
    and "\<not> lt_waiting (ls_tasks st ! t)"
  shows "\<exists>st'. lock_step G t st = Some st'"
proof -
  have "in_order (lt_held (ls_tasks st ! t)) (lt_prog (ls_tasks st ! t))"
    using assms(1,2) by (simp add: lock_inv_def)
  then show ?thesis
    using assms(2-4)
    by (cases "lt_prog (ls_tasks st ! t)" rule: in_order.cases [of "(lt_held (ls_tasks st ! t), _)"])
       (auto simp: lock_step_def)
qed

lemma holder_unfinished:
  assumes "lock_inv st" and "held_in l st \<noteq> []"
  obtains t where "t < length (ls_tasks st)" "lt_prog (ls_tasks st ! t) \<noteq> []"
    "l \<in> fst ` set (lt_held (ls_tasks st ! t))"
proof -
  obtain task h where "task \<in> set (ls_tasks st)" and h: "h \<in> set (lt_held task)" "fst h = l"
    using assms(2) by (auto simp: held_in_def filter_empty_conv)
  moreover have "lt_prog task \<noteq> []"
    using assms(1) calculation by (force simp: lock_inv_def)
  ultimately show ?thesis
    by (metis in_set_conv_nth image_eqI that)
qed

lemma highest_lock_is_granted:
  assumes G: "serves_first G" and inv: "lock_inv st" and "l \<in> wanted st"
    and top: "\<And>k. k \<in> wanted st \<Longrightarrow> rank k \<le> rank l"
  shows "\<exists>t st'. lock_step G t st = Some st'"
proof -
  have mem: "(s, m) \<in> set (ls_queue st k) \<longleftrightarrow>
      s < length (ls_tasks st) \<and> waits_for (ls_tasks st ! s) k m" for k s m
    using inv by (simp add: lock_inv_def)
  obtain t m q where head: "ls_queue st l = (t, m) # q"
    using assms(3) by (cases "ls_queue st l") (auto simp: wanted_def)
  then have t: "t < length (ls_tasks st)" "waits_for (ls_tasks st ! t) l m"
    using mem [of t m l] by auto
  show ?thesis
  proof (cases "held_in l st = []")
    case True
    then show ?thesis
      using head t G by (intro exI [of _ t]) (auto simp: lock_step_def waits_for_def serves_first_def)
  next
    case False
    then obtain s where s: "s < length (ls_tasks st)" "lt_prog (ls_tasks st ! s) \<noteq> []"
        "l \<in> fst ` set (lt_held (ls_tasks st ! s))"
      using inv by (blast elim: holder_unfinished)
    have "\<not> lt_waiting (ls_tasks st ! s)"
    proof
      assume "lt_waiting (ls_tasks st ! s)"
      then obtain k m' where k: "waits_for (ls_tasks st ! s) k m'"
        using inv s(1) by (auto simp: lock_inv_def)
      then have "(s, m') \<in> set (ls_queue st k)"
        using mem s(1) by blast
      then have "k \<in> wanted st"
        by (auto simp: wanted_def)
      moreover have "in_order (lt_held (ls_tasks st ! s)) (lt_prog (ls_tasks st ! s))"
        using inv s(1) by (simp add: lock_inv_def)
      then have "rank l < rank k"
        using k s(3) by (fastforce simp: waits_for_def)
      ultimately show False
        using top by fastforce
    qed
    then show ?thesis
      using idle_task_steps [OF inv s(1,2)] by blast
  qed
qed

lemma lock_progress:
  assumes G: "serves_first G" and inv: "lock_inv st" and "\<not> all_ended st"
  shows "\<exists>t st'. lock_step G t st = Some st'"
proof (cases "wanted st = {}")
  case True
  obtain t where t: "t < length (ls_tasks st)" "lt_prog (ls_tasks st ! t) \<noteq> []"
    using assms(3) by (auto simp: all_ended_def in_set_conv_nth)
  have "\<not> lt_waiting (ls_tasks st ! t)"
  proof
    assume "lt_waiting (ls_tasks st ! t)"
    then obtain l m where "waits_for (ls_tasks st ! t) l m"
      using inv t(1) by (auto simp: lock_inv_def)
    then have "(t, m) \<in> set (ls_queue st l)"
      using inv t(1) by (simp add: lock_inv_def)
    then show False
      using True by (auto simp: wanted_def)
  qed
  then show ?thesis
    using idle_task_steps [OF inv t] by blast
next
  case False
  have "finite (rank ` wanted st)"
  proof (rule finite_subset)
    show "rank ` wanted st \<subseteq> {..10}"
      by (auto intro: rank_le)
  qed simp
  then obtain l where "l \<in> wanted st" "\<And>k. k \<in> wanted st \<Longrightarrow> rank k \<le> rank l"
    using Max_in [of "rank ` wanted st"] Max_ge [of "rank ` wanted st"] False
    by (metis (no_types, lifting) image_eqI image_iff image_is_empty)
  then show ?thesis
    by (rule highest_lock_is_granted [OF G inv])
qed

text \<open>A task makes at most two steps for each of its operations.\<close>

definition task_work :: "ltask \<Rightarrow> nat" where
  "task_work task = 2 * length (lt_prog task) + (if lt_waiting task then 0 else 1)"

definition steps_left :: "lstate \<Rightarrow> nat" where
  "steps_left st = sum_list (map task_work (ls_tasks st))"

lemma sum_list_update_less:
  "t < length xs \<Longrightarrow> f x < (f (xs ! t) :: nat) \<Longrightarrow> sum_list (map f (xs[t := x])) < sum_list (map f xs)"
  by (induction xs arbitrary: t) (auto split: nat.split simp: less_Suc_eq_0_disj)

lemma lock_step_steps_left:
  assumes "lock_step G t st = Some st'"
  shows "steps_left st' < steps_left st"
  using assms
  by (cases rule: lock_stepE)
     (auto simp: steps_left_def task_work_def intro!: sum_list_update_less lock_step_in_range [OF assms])

text \<open>The discipline: programs that take the locks in order.\<close>

locale lock_discipline =
  fixes program :: "lock_op list \<Rightarrow> bool"
  assumes ordered: "program p \<Longrightarrow> keeps_order [] p"
begin

lemma launch_all_inv:
  assumes "\<And>ps. ps \<in> set pss \<Longrightarrow> \<forall>p \<in> set ps. program p"
  shows "lock_inv (launch_all (map concat pss))"
proof -
  have "in_order [] (concat ps)" if "ps \<in> set pss" for ps
    using keeps_order_concat [of ps "[]"] assms [OF that] ordered
    by (auto simp: keeps_order_def dest!: spec [of _ "[]"])
  then show ?thesis
    by (auto simp: lock_inv_def launch_all_def launched_def waits_for_def)
qed

end

interpretation host_locks: lock_discipline host_program
  by unfold_locales (rule host_program_keeps_order)

interpretation lock_sys: transition_system
  "\<lambda>st. \<exists>pss. st = launch_all (map concat pss) \<and> (\<forall>ps \<in> set pss. \<forall>p \<in> set ps. host_program p)"
  "lstep G" lock_inv for G :: policy
  by unfold_locales (auto simp: lstep_def intro: lock_inv_step host_locks.launch_all_inv)

end
