(* ===== verification/Kasm_Locks_Props.thy ===== *)
theory Kasm_Locks_Props
  imports Kasm_Locks
begin

text \<open>
  What the order of the locks gives: tasks that run the host's operations never block each other for good;
  a call between actors of the host, which keeps its locks while it waits for the answer, can.
\<close>

lemma lstep_bounded: "(lstep G ^^ k) st st' \<Longrightarrow> k + steps_left st' \<le> steps_left st"
proof (induction k arbitrary: st')
  case (Suc k)
  then obtain mid where "(lstep G ^^ k) st mid" and "lstep G mid st'"
    by auto
  then have "k + steps_left mid \<le> steps_left st" and "steps_left st' < steps_left mid"
    using Suc.IH lock_step_steps_left unfolding lstep_def by blast+
  then show ?case
    by linarith
qed simp

lemma steps_left_launch_all:
  "steps_left (launch_all ps) = sum_list (map (\<lambda>p. 2 * length p + 1) ps)"
  by (simp add: steps_left_def launch_all_def launched_def task_work_def comp_def)

text \<open>
  C10. Any number of tasks, each running any sequence of operations of the host and of calls that are
  answered from outside, in any interleaving of their lock operations and under any policy of the locks that
  gives a free lock to the first who asked: as long as some task has not ended, some task can go on, and
  the tasks make at most twice as many steps as they have lock operations, plus one each. So no
  interleaving deadlocks and every one ends with all operations done.
\<close>

theorem host_operations_never_deadlock:
  assumes "serves_first G" and "\<forall>ps \<in> set pss. \<forall>p \<in> set ps. host_program p"
    and "(lstep G ^^ k) (launch_all (map concat pss)) st"
  shows "k \<le> sum_list (map (\<lambda>ps. 2 * length (concat ps) + 1) pss) \<and>
    (all_ended st \<or> (\<exists>t st'. lock_step G t st = Some st'))"
proof
  show "k \<le> sum_list (map (\<lambda>ps. 2 * length (concat ps) + 1) pss)"
    using lstep_bounded [OF assms(3)] by (simp add: steps_left_launch_all comp_def)
  have "(lstep G)\<^sup>*\<^sup>* (launch_all (map concat pss)) st"
    using assms(3) by (metis rtranclp_power)
  then have "lock_inv st"
    using assms(2) by (blast intro: lock_sys.reachable_inv)
  then show "all_ended st \<or> (\<exists>t st'. lock_step G t st = Some st')"
    using lock_progress [OF assms(1)] by blast
qed

text \<open>A schedule: the tasks that step, one after the other.\<close>

fun run_locks :: "policy \<Rightarrow> nat list \<Rightarrow> lstate \<Rightarrow> lstate option" where
  "run_locks G [] st = Some st"
| "run_locks G (t # ts) st = (case lock_step G t st of None \<Rightarrow> None | Some st' \<Rightarrow> run_locks G ts st')"

lemma run_locks_steps: "run_locks G ts st = Some st' \<Longrightarrow> (lstep G ^^ length ts) st st'"
proof (induction ts arbitrary: st)
  case (Cons t ts)
  then show ?case
    by (auto simp: lstep_def simp del: relpowp.simps intro!: relpowp_Suc_I2 split: option.splits)
qed simp

lemma run_locks_reachable: "run_locks G ts st = Some st' \<Longrightarrow> (lstep G)\<^sup>*\<^sup>* st st'"
  by (metis run_locks_steps rtranclp_power)

text \<open>The documented policy, as a function.\<close>

definition fifo :: policy where
  "fifo held q t = (case q of [] \<Rightarrow> False | (t', m) # _ \<Rightarrow> t' = t \<and> compatible m held)"

lemma fifo_fair: "fair_rwlock fifo"
  unfolding fair_rwlock_def fifo_def by (auto split: list.split)

lemma fifo_serves_first: "serves_first fifo"
proof -
  have "compatible m []" for m
    by (cases m) (simp_all add: compatible_def)
  then show ?thesis
    by (simp add: serves_first_def fifo_def)
qed

text \<open>A provider that starts while another stops.\<close>

theorem host_operations_never_deadlock_witness:
  "\<exists>st. (lstep fifo ^^ 5) (launch_all [stop_provider_locks @ set_target_locks 0, start_provider_locks True True]) st \<and>
     5 \<le> sum_list (map (\<lambda>ps. 2 * length (concat ps) + 1)
            [[stop_provider_locks, set_target_locks 0], [start_provider_locks True True]]) \<and>
     lock_step fifo 1 st = None \<and> (all_ended st \<or> (\<exists>t st'. lock_step fifo t st = Some st'))"
proof -
  let ?pss = "[[stop_provider_locks, set_target_locks 0], [start_provider_locks True True]]"
  obtain st where run: "run_locks fifo [0, 0, 1, 1, 1] (launch_all (map concat ?pss)) = Some st"
      and "lock_step fifo 1 st = None"
    by (simp add: launch_all_def launched_def stop_provider_locks_def set_target_locks_def
          start_provider_locks_def locked_def on_path_def lock_step_def fifo_def compatible_def held_in_def)
  moreover have "(lstep fifo ^^ 5) (launch_all (map concat ?pss)) st"
    using run_locks_steps [OF run] by (simp add: numeral_eq_Suc)
  moreover have "\<forall>ps \<in> set ?pss. \<forall>p \<in> set ps. host_program p"
    by (auto intro: host_program.intros)
  ultimately show ?thesis
    using host_operations_never_deadlock [OF fifo_serves_first, of ?pss 5 st] by auto
qed

text \<open>
  An instance calls another actor, or another instance, of its own group; a link of the group is added or
  deleted; and the called instance makes a call of its own.
\<close>

definition self_call :: "nat \<Rightarrow> lock_op list list" where
  "self_call g = [bus_call_locks g [Await 2], link_op_locks True True True g, bus_call_locks g []]"

definition self_call_blocked :: "nat \<Rightarrow> lstate \<Rightarrow> bool" where
  "self_call_blocked g st \<longleftrightarrow>
     2 < length (ls_tasks st) \<and>
     (\<exists>p. lt_prog (ls_tasks st ! 0) = Await 2 # p) \<and>
     (Group_links g, Read) \<in> set (lt_held (ls_tasks st ! 0)) \<and>
     waits_for (ls_tasks st ! 1) (Group_links g) Write \<and>
     waits_for (ls_tasks st ! 2) (Group_links g) Read \<and>
     (\<exists>q. ls_queue st (Group_links g) = (1, Write) # (2, Read) # q)"

lemma held_in_memberI:
  "t < length (ls_tasks st) \<Longrightarrow> (l, m) \<in> set (lt_held (ls_tasks st ! t)) \<Longrightarrow> held_in l st \<noteq> []"
  by (force simp: held_in_def filter_empty_conv dest: nth_mem)

lemma self_call_blocked_stuck:
  assumes G: "fair_rwlock G" and blocked: "self_call_blocked g st"
  shows "\<forall>t < 3. lt_prog (ls_tasks st ! t) \<noteq> [] \<and> lock_step G t st = None"
proof -
  have "held_in (Group_links g) st \<noteq> []"
    using blocked held_in_memberI [of 0 st "Group_links g" Read] by (force simp: self_call_blocked_def)
  then have "lock_step G 1 st = None"
    using blocked G
    by (auto simp: self_call_blocked_def waits_for_def lock_step_def fair_rwlock_def compatible_def)
  moreover have "lock_step G 0 st = None" and "lock_step G 2 st = None"
    using blocked G by (auto simp: self_call_blocked_def waits_for_def lock_step_def fair_rwlock_def)
  moreover have "t = 0 \<or> t = 1 \<or> t = 2" if "t < 3" for t :: nat
    using that by linarith
  ultimately show ?thesis
    using blocked by (fastforce simp: self_call_blocked_def waits_for_def)
qed

lemma self_call_blocked_step:
  assumes G: "fair_rwlock G" and blocked: "self_call_blocked g st" and step: "lock_step G t st = Some st'"
  shows "self_call_blocked g st'"
proof -
  have other: "t \<noteq> 0" "t \<noteq> 1" "t \<noteq> 2"
    using self_call_blocked_stuck [OF G blocked] step by (auto dest: spec [of _ t])
  show ?thesis
    using step
    by (cases rule: lock_stepE) (use blocked other in \<open>auto simp: self_call_blocked_def\<close>)
qed

lemma concat_map_Nil [simp]: "concat (map (\<lambda>_. []) xs) = []"
  by (induction xs) simp_all

lemma self_call_blocks:
  assumes "fair_rwlock G"
  shows "\<exists>st. run_locks G [0, 0, 0, 0, 1, 1, 1, 1, 1, 1, 1, 1, 2] (launch_all (self_call g @ qs)) = Some st \<and>
     self_call_blocked g st"
proof -
  have G: "G held q t \<longleftrightarrow> (\<exists>m rest. q = (t, m) # rest \<and> compatible m held)" for held q t
    using assms by (simp add: fair_rwlock_def)
  show ?thesis
    by (simp add: launch_all_def self_call_def launched_def bus_call_locks_def link_op_locks_def locked_def
          on_path_def lock_step_def G compatible_def held_in_def self_call_blocked_def waits_for_def comp_def)
qed

text \<open>
  C32. The locks of a call are held while it waits for its answer, and there is no time limit unless the
  request was chunked. When an actor calls its own group, a link of the group changes meanwhile, and the
  called instance uses a link, then there is an interleaving after which none of the three ever ends,
  whatever other tasks there are and whatever they do: the called instance queues behind the change of the
  link, the change waits for the caller, and the caller for the answer. The hypothesis is the documented
  policy of the lock.
\<close>

theorem self_call_deadlocks:
  assumes "fair_rwlock G"
  shows "\<exists>st. (lstep G)\<^sup>*\<^sup>* (launch_all (self_call g @ qs)) st \<and>
     (\<forall>st'. (lstep G)\<^sup>*\<^sup>* st st' \<longrightarrow> (\<forall>t < 3. lt_prog (ls_tasks st' ! t) \<noteq> [] \<and> lock_step G t st' = None))"
proof -
  obtain st where reach: "(lstep G)\<^sup>*\<^sup>* (launch_all (self_call g @ qs)) st" and "self_call_blocked g st"
    using self_call_blocks [OF assms] run_locks_reachable by blast
  have "self_call_blocked g st'" if "(lstep G)\<^sup>*\<^sup>* st st'" for st'
    using that \<open>self_call_blocked g st\<close>
    by (induction rule: rtranclp_induct) (auto simp: lstep_def intro: self_call_blocked_step [OF assms])
  then show ?thesis
    using reach self_call_blocked_stuck [OF assms] by blast
qed

theorem self_call_deadlocks_witness:
  "\<exists>st. (lstep fifo)\<^sup>*\<^sup>* (launch_all (self_call 0 @ [stop_provider_locks])) st \<and>
     lt_prog (ls_tasks st ! 0) \<noteq> [] \<and> lock_step fifo 0 st = None \<and> lock_step fifo 1 st = None \<and>
     lock_step fifo 2 st = None"
proof -
  obtain st where "(lstep fifo)\<^sup>*\<^sup>* (launch_all (self_call 0 @ [stop_provider_locks])) st"
    and "\<forall>t < 3. lt_prog (ls_tasks st ! t) \<noteq> [] \<and> lock_step fifo t st = None"
    using self_call_deadlocks [OF fifo_fair, of 0 "[stop_provider_locks]"] by blast
  then show ?thesis
    by (intro exI [of _ st]) simp
qed

end
