(* ===== verification/Kasm_Wire.thy ===== *)
theory Kasm_Wire
  imports Kasm_Status "HOL-Library.Monad_Syntax"
begin

text \<open>
  The custom resources as JSON (\<^verbatim>\<open>crates/apis/src/v1alpha1\<close>): what the derived \<^verbatim>\<open>Serialize\<close> and
  \<^verbatim>\<open>Deserialize\<close> of the structs write and read, by the \<^verbatim>\<open>serde\<close> attributes in the source (camel-case
  names, defaults), and how a merge patch of a status acts on the stored object. An object stands for its
  members with distinct names; that a struct can also be read from an array, which the schemas of the
  resources rule out, is left out.
\<close>

section \<open>JSON\<close>

datatype json =
    J_null
  | J_bool bool
  | J_int int
  | J_str string
  | J_arr "json list"
  | J_obj "(string \<times> json) list"

definition members :: "json \<Rightarrow> (string, json) hmap" where
  "members j = (case j of J_obj fs \<Rightarrow> fs | _ \<Rightarrow> [])"

text \<open>
  A JSON merge patch (RFC 7386), as the API server applies it: a patch that is not an object replaces
  the target; an object is merged member by member, \<open>null\<close> removing a member. This is all that is known
  of the server's function.
\<close>

definition merge_patch :: "(json \<Rightarrow> json \<Rightarrow> json) \<Rightarrow> bool" where
  "merge_patch mg \<longleftrightarrow>
     (\<forall>t p. case p of
        J_obj ps \<Rightarrow> hm_wf ps \<longrightarrow>
          (\<exists>fs. mg t p = J_obj fs \<and>
            (\<forall>k. hm_get fs k =
              (case hm_get ps k of
                 None \<Rightarrow> hm_get (members t) k
               | Some v \<Rightarrow> if v = J_null then None else Some (mg (hm_get_or J_null (members t) k) v))))
      | _ \<Rightarrow> mg t p = p)"

section \<open>Writing\<close>

text \<open>
  The types of the packages: \<^verbatim>\<open>metav1::Time\<close> is a string on the wire, a \<^verbatim>\<open>Condition\<close> some value. What their
  own \<^verbatim>\<open>Serialize\<close> and \<^verbatim>\<open>Deserialize\<close> do is not in the repository.
\<close>

record wire_ext =
  wx_write_time :: "datetime \<Rightarrow> string"
  wx_read_time :: "string \<Rightarrow> datetime option"
  wx_write_condition :: "condition \<Rightarrow> json"
  wx_read_condition :: "json \<Rightarrow> condition option"

definition opt_json :: "('a \<Rightarrow> json) \<Rightarrow> 'a option \<Rightarrow> json" where
  "opt_json f v = (case v of None \<Rightarrow> J_null | Some x \<Rightarrow> f x)"

definition strs_json :: "string list \<Rightarrow> json" where
  "strs_json xs = J_arr (map J_str xs)"

definition i32_json :: "32 word \<Rightarrow> json" where
  "i32_json w = J_int (sint w)"

definition u64_json :: "64 word \<Rightarrow> json" where
  "u64_json w = J_int (uint w)"

definition time_json :: "wire_ext \<Rightarrow> datetime \<Rightarrow> json" where
  "time_json W t = J_str (wx_write_time W t)"

definition claims_json :: "wire_ext \<Rightarrow> api_claims \<Rightarrow> json" where
  "claims_json W c =
     J_obj [(''issuer'', J_str (c_issuer c)), (''subject'', J_str (c_subject c)),
       (''issuedAt'', time_json W (c_issued_at c)), (''notBefore'', opt_json (time_json W) (c_not_before c)),
       (''expires'', opt_json (time_json W) (c_expires c))]"

definition actor_status_json :: "wire_ext \<Rightarrow> actor_status \<Rightarrow> json" where
  "actor_status_json W st =
     J_obj [(''publicKey'', J_str (ast_public_key st)),
       (''descriptiveName'', opt_json J_str (ast_descriptive_name st)),
       (''caps'', opt_json strs_json (ast_caps st)),
       (''capabilityProvider'', opt_json strs_json (ast_capability_provider st)),
       (''callAlias'', opt_json J_str (ast_call_alias st)),
       (''claims'', claims_json W (ast_claims st)),
       (''version'', opt_json J_str (ast_version st)),
       (''reversion'', opt_json i32_json (ast_reversion st)),
       (''conditions'', J_arr (map (wx_write_condition W) (ast_conditions st))),
       (''replicas'', i32_json (ast_replicas st)),
       (''availableReplicas'', i32_json (ast_available_replicas st))]"

definition provider_status_json :: "wire_ext \<Rightarrow> provider_status \<Rightarrow> json" where
  "provider_status_json W st =
     J_obj [(''publicKey'', J_str (pst_public_key st)),
       (''contractId'', J_str (pst_contract_id st)),
       (''descriptiveName'', opt_json J_str (pst_descriptive_name st)),
       (''claims'', claims_json W (pst_claims st)),
       (''architectureTargets'', strs_json (pst_architecture_targets st)),
       (''vendor'', J_str (pst_vendor st)),
       (''version'', opt_json J_str (pst_version st)),
       (''reversion'', opt_json i32_json (pst_reversion st)),
       (''conditions'', J_arr (map (wx_write_condition W) (pst_conditions st))),
       (''instanceId'', J_str (pst_instance_id st))]"

definition link_status_json :: "wire_ext \<Rightarrow> link_status \<Rightarrow> json" where
  "link_status_json W st =
     J_obj [(''providerKey'', J_str (lst_provider_key st)), (''actorKey'', J_str (lst_actor_key st)),
       (''linkName'', J_str (lst_link_name st)),
       (''conditions'', J_arr (map (wx_write_condition W) (lst_conditions st)))]"

definition host_providers_json :: "host_provider_status \<Rightarrow> json" where
  "host_providers_json p = J_obj [(''count'', u64_json (hps_count p))]"

definition host_actors_json :: "host_actor_status \<Rightarrow> json" where
  "host_actors_json a =
     J_obj [(''count'', u64_json (has_count a)), (''instanceCount'', u64_json (has_instance_count a))]"

definition host_status_json :: "kasmcloud_host_status \<Rightarrow> json" where
  "host_status_json st =
     J_obj [(''kubeNodeName'', J_str (hst_kube_node_name st)), (''publicKey'', J_str (hst_public_key st)),
       (''clusterPublicKey'', J_str (hst_cluster_public_key st)),
       (''clusterIssuers'', strs_json (hst_cluster_issuers st)),
       (''preInstance'', J_str (hst_pre_instance st)), (''instance'', J_str (hst_instance st)),
       (''providers'', host_providers_json (hst_providers st)),
       (''actors'', host_actors_json (hst_actors st))]"

section \<open>Reading\<close>

definition as_str :: "json \<Rightarrow> string option" where
  "as_str j = (case j of J_str s \<Rightarrow> Some s | _ \<Rightarrow> None)"

definition as_i32 :: "json \<Rightarrow> 32 word option" where
  "as_i32 j = (case j of J_int n \<Rightarrow> if - (2 ^ 31) \<le> n \<and> n < 2 ^ 31 then Some (word_of_int n) else None | _ \<Rightarrow> None)"

definition as_u64 :: "json \<Rightarrow> 64 word option" where
  "as_u64 j = (case j of J_int n \<Rightarrow> if 0 \<le> n \<and> n < 2 ^ 64 then Some (word_of_int n) else None | _ \<Rightarrow> None)"

definition as_time :: "wire_ext \<Rightarrow> json \<Rightarrow> datetime option" where
  "as_time W j = (case j of J_str s \<Rightarrow> wx_read_time W s | _ \<Rightarrow> None)"

definition as_list :: "(json \<Rightarrow> 'a option) \<Rightarrow> json \<Rightarrow> 'a list option" where
  "as_list f j = (case j of J_arr xs \<Rightarrow> those (map f xs) | _ \<Rightarrow> None)"

definition as_map :: "(json \<Rightarrow> 'a option) \<Rightarrow> json \<Rightarrow> (string, 'a) hmap option" where
  "as_map f j =
     (case j of
        J_obj fs \<Rightarrow> those (map (\<lambda>(k, v). map_option (Pair k) (f v)) fs)
      | _ \<Rightarrow> None)"

definition as_struct :: "json \<Rightarrow> (string, json) hmap option" where
  "as_struct j = (case j of J_obj fs \<Rightarrow> Some fs | _ \<Rightarrow> None)"

text \<open>
  A member of a struct: one that must be there, one of an \<^verbatim>\<open>Option\<close> type, which may be missing or \<open>null\<close>,
  and one with \<^verbatim>\<open>#[serde(default)]\<close>, which may be missing.
\<close>

definition required :: "(json \<Rightarrow> 'a option) \<Rightarrow> (string, json) hmap \<Rightarrow> string \<Rightarrow> 'a option" where
  "required f fs k = (case hm_get fs k of None \<Rightarrow> None | Some j \<Rightarrow> f j)"

definition optional :: "(json \<Rightarrow> 'a option) \<Rightarrow> (string, json) hmap \<Rightarrow> string \<Rightarrow> 'a option option" where
  "optional f fs k =
     (case hm_get fs k of None \<Rightarrow> Some None | Some j \<Rightarrow> if j = J_null then Some None else map_option Some (f j))"

definition defaulted :: "'a \<Rightarrow> (json \<Rightarrow> 'a option) \<Rightarrow> (string, json) hmap \<Rightarrow> string \<Rightarrow> 'a option" where
  "defaulted d f fs k = (case hm_get fs k of None \<Rightarrow> Some d | Some j \<Rightarrow> f j)"

definition read_claims :: "wire_ext \<Rightarrow> json \<Rightarrow> api_claims option" where
  "read_claims W j = do {
     fs \<leftarrow> as_struct j;
     iss \<leftarrow> required as_str fs ''issuer'';
     sub \<leftarrow> required as_str fs ''subject'';
     iat \<leftarrow> required (as_time W) fs ''issuedAt'';
     nbf \<leftarrow> optional (as_time W) fs ''notBefore'';
     ex \<leftarrow> optional (as_time W) fs ''expires'';
     Some \<lparr>c_issuer = iss, c_subject = sub, c_issued_at = iat, c_not_before = nbf, c_expires = ex\<rparr> }"

definition read_actor_status :: "wire_ext \<Rightarrow> json \<Rightarrow> actor_status option" where
  "read_actor_status W j = do {
     fs \<leftarrow> as_struct j;
     pk \<leftarrow> required as_str fs ''publicKey'';
     dn \<leftarrow> optional as_str fs ''descriptiveName'';
     caps \<leftarrow> optional (as_list as_str) fs ''caps'';
     capp \<leftarrow> optional (as_list as_str) fs ''capabilityProvider'';
     alias \<leftarrow> optional as_str fs ''callAlias'';
     cl \<leftarrow> required (read_claims W) fs ''claims'';
     ver \<leftarrow> optional as_str fs ''version'';
     rev \<leftarrow> optional as_i32 fs ''reversion'';
     conds \<leftarrow> required (as_list (wx_read_condition W)) fs ''conditions'';
     reps \<leftarrow> required as_i32 fs ''replicas'';
     avail \<leftarrow> required as_i32 fs ''availableReplicas'';
     Some \<lparr>ast_public_key = pk, ast_descriptive_name = dn, ast_caps = caps, ast_capability_provider = capp,
       ast_call_alias = alias, ast_claims = cl, ast_version = ver, ast_reversion = rev,
       ast_conditions = conds, ast_replicas = reps, ast_available_replicas = avail\<rparr> }"

definition read_provider_status :: "wire_ext \<Rightarrow> json \<Rightarrow> provider_status option" where
  "read_provider_status W j = do {
     fs \<leftarrow> as_struct j;
     pk \<leftarrow> required as_str fs ''publicKey'';
     cid \<leftarrow> required as_str fs ''contractId'';
     dn \<leftarrow> optional as_str fs ''descriptiveName'';
     cl \<leftarrow> required (read_claims W) fs ''claims'';
     targets \<leftarrow> required (as_list as_str) fs ''architectureTargets'';
     vendor \<leftarrow> required as_str fs ''vendor'';
     ver \<leftarrow> optional as_str fs ''version'';
     rev \<leftarrow> optional as_i32 fs ''reversion'';
     conds \<leftarrow> required (as_list (wx_read_condition W)) fs ''conditions'';
     inst \<leftarrow> required as_str fs ''instanceId'';
     Some \<lparr>pst_public_key = pk, pst_contract_id = cid, pst_descriptive_name = dn, pst_claims = cl,
       pst_architecture_targets = targets, pst_vendor = vendor, pst_version = ver, pst_reversion = rev,
       pst_conditions = conds, pst_instance_id = inst\<rparr> }"

definition read_link_status :: "wire_ext \<Rightarrow> json \<Rightarrow> link_status option" where
  "read_link_status W j = do {
     fs \<leftarrow> as_struct j;
     pk \<leftarrow> required as_str fs ''providerKey'';
     ak \<leftarrow> required as_str fs ''actorKey'';
     ln \<leftarrow> required as_str fs ''linkName'';
     conds \<leftarrow> required (as_list (wx_read_condition W)) fs ''conditions'';
     Some \<lparr>lst_provider_key = pk, lst_actor_key = ak, lst_link_name = ln, lst_conditions = conds\<rparr> }"

definition read_host_providers :: "json \<Rightarrow> host_provider_status option" where
  "read_host_providers j = do {
     fs \<leftarrow> as_struct j;
     c \<leftarrow> required as_u64 fs ''count'';
     Some \<lparr>hps_count = c\<rparr> }"

definition read_host_actors :: "json \<Rightarrow> host_actor_status option" where
  "read_host_actors j = do {
     fs \<leftarrow> as_struct j;
     c \<leftarrow> required as_u64 fs ''count'';
     i \<leftarrow> required as_u64 fs ''instanceCount'';
     Some \<lparr>has_count = c, has_instance_count = i\<rparr> }"

definition read_host_status :: "json \<Rightarrow> kasmcloud_host_status option" where
  "read_host_status j = do {
     fs \<leftarrow> as_struct j;
     node \<leftarrow> required as_str fs ''kubeNodeName'';
     pk \<leftarrow> required as_str fs ''publicKey'';
     cpk \<leftarrow> required as_str fs ''clusterPublicKey'';
     issuers \<leftarrow> required (as_list as_str) fs ''clusterIssuers'';
     pre \<leftarrow> required as_str fs ''preInstance'';
     inst \<leftarrow> required as_str fs ''instance'';
     ps \<leftarrow> required read_host_providers fs ''providers'';
     acts \<leftarrow> required read_host_actors fs ''actors'';
     Some \<lparr>hst_kube_node_name = node, hst_public_key = pk, hst_cluster_public_key = cpk,
       hst_cluster_issuers = issuers, hst_pre_instance = pre, hst_instance = inst,
       hst_providers = ps, hst_actors = acts\<rparr> }"

definition read_actor_spec :: "json \<Rightarrow> actor_spec option" where
  "read_actor_spec j = do {
     fs \<leftarrow> as_struct j;
     h \<leftarrow> required as_str fs ''host'';
     img \<leftarrow> required as_str fs ''image'';
     reps \<leftarrow> required as_i32 fs ''replicas'';
     Some \<lparr>as_host = h, as_image = img, as_replicas = reps\<rparr> }"

definition read_provider_spec :: "json \<Rightarrow> provider_spec option" where
  "read_provider_spec j = do {
     fs \<leftarrow> as_struct j;
     h \<leftarrow> required as_str fs ''host'';
     img \<leftarrow> required as_str fs ''image'';
     ln \<leftarrow> required as_str fs ''link'';
     Some \<lparr>ps_host = h, ps_image = img, ps_link = ln\<rparr> }"

definition read_source :: "json \<Rightarrow> source_ref option" where
  "read_source j = do {
     fs \<leftarrow> as_struct j;
     key \<leftarrow> defaulted [] as_str fs ''key'';
     nm \<leftarrow> defaulted [] as_str fs ''name'';
     Some \<lparr>src_key = key, src_name = nm\<rparr> }"

definition read_link_spec :: "json \<Rightarrow> link_spec option" where
  "read_link_spec j = do {
     fs \<leftarrow> as_struct j;
     ln \<leftarrow> defaulted [] as_str fs ''linkName'';
     prov \<leftarrow> required read_source fs ''provider'';
     act \<leftarrow> required read_source fs ''actor'';
     cid \<leftarrow> required as_str fs ''contractId'';
     vals \<leftarrow> defaulted [] (as_map as_str) fs ''values'';
     Some \<lparr>ls_link_name = ln, ls_provider = prov, ls_actor = act, ls_contract_id = cid, ls_values = vals\<rparr> }"

text \<open>
  A resource object, of which the host uses the metadata name, the spec and the status
  (\<^verbatim>\<open>status: Option<..>\<close> in the struct that \<^verbatim>\<open>derive(CustomResource)\<close> makes).
\<close>

definition read_object :: "(json \<Rightarrow> 's option) \<Rightarrow> (json \<Rightarrow> 't option) \<Rightarrow> json \<Rightarrow> (string \<times> 's \<times> 't option) option" where
  "read_object spec status j = do {
     fs \<leftarrow> as_struct j;
     meta \<leftarrow> required as_struct fs ''metadata'';
     nm \<leftarrow> required as_str meta ''name'';
     sp \<leftarrow> required spec fs ''spec'';
     st \<leftarrow> optional status fs ''status'';
     Some (nm, sp, st) }"

definition read_actor :: "wire_ext \<Rightarrow> json \<Rightarrow> actor_resource option" where
  "read_actor W j =
     map_option (\<lambda>(nm, sp, st). \<lparr>a_name = nm, a_spec = sp, a_status = st\<rparr>)
       (read_object read_actor_spec (read_actor_status W) j)"

definition read_provider :: "wire_ext \<Rightarrow> json \<Rightarrow> provider_resource option" where
  "read_provider W j =
     map_option (\<lambda>(nm, sp, st). \<lparr>p_name = nm, p_spec = sp, p_status = st\<rparr>)
       (read_object read_provider_spec (read_provider_status W) j)"

definition read_link :: "wire_ext \<Rightarrow> json \<Rightarrow> link_resource option" where
  "read_link W j =
     map_option (\<lambda>(nm, sp, st). \<lparr>l_name = nm, l_spec = sp, l_status = st\<rparr>)
       (read_object read_link_spec (read_link_status W) j)"

section \<open>Reading a merged object\<close>

lemma merge_value:
  assumes "merge_patch mg"
  shows "mg t J_null = J_null" "mg t (J_bool b) = J_bool b" "mg t (J_int n) = J_int n" "mg t (J_str s) = J_str s"
    "mg t (J_arr xs) = J_arr xs"
  using assms [unfolded merge_patch_def, rule_format, where t = t and p = J_null]
    assms [unfolded merge_patch_def, rule_format, where t = t and p = "J_bool b"]
    assms [unfolded merge_patch_def, rule_format, where t = t and p = "J_int n"]
    assms [unfolded merge_patch_def, rule_format, where t = t and p = "J_str s"]
    assms [unfolded merge_patch_def, rule_format, where t = t and p = "J_arr xs"]
  by simp_all

text \<open>The members of an object that a patch was merged onto.\<close>

definition merged :: "(json \<Rightarrow> json \<Rightarrow> json) \<Rightarrow> json \<Rightarrow> (string, json) hmap \<Rightarrow> (string, json) hmap \<Rightarrow> bool" where
  "merged mg t ps fs \<longleftrightarrow>
     (\<forall>k. hm_get fs k =
        (case hm_get ps k of
           None \<Rightarrow> hm_get (members t) k
         | Some v \<Rightarrow> if v = J_null then None else Some (mg (hm_get_or J_null (members t) k) v)))"

lemma merge_object:
  assumes "merge_patch mg" "hm_wf ps"
  obtains fs where "mg t (J_obj ps) = J_obj fs" "merged mg t ps fs"
proof -
  have "\<exists>fs. mg t (J_obj ps) = J_obj fs \<and> merged mg t ps fs"
    using assms(1) [unfolded merge_patch_def, rule_format, where t = t and p = "J_obj ps"] assms(2) by (simp add: merged_def)
  with that show ?thesis by blast
qed

lemma merged_get:
  assumes "merged mg t ps fs"
  shows "hm_get ps k = Some v \<Longrightarrow> v \<noteq> J_null \<Longrightarrow> hm_get fs k = Some (mg (hm_get_or J_null (members t) k) v)"
    and "hm_get ps k = Some J_null \<Longrightarrow> hm_get fs k = None"
    and "hm_get ps k = None \<Longrightarrow> hm_get fs k = hm_get (members t) k"
  using assms by (simp_all add: merged_def)

text \<open>A value written into a patch is read back from whatever the patch was merged onto.\<close>

definition reads_back :: "(json \<Rightarrow> json \<Rightarrow> json) \<Rightarrow> ('a \<Rightarrow> json) \<Rightarrow> (json \<Rightarrow> 'a option) \<Rightarrow> 'a \<Rightarrow> bool" where
  "reads_back mg w r x \<longleftrightarrow> w x \<noteq> J_null \<and> (\<forall>old. r (mg old (w x)) = Some x)"

lemma required_back:
  assumes "merged mg t ps fs" "hm_get ps k = Some (w x)" "reads_back mg w r x"
  shows "required r fs k = Some x"
  using assms merged_get(1) [OF assms(1,2)] by (simp add: reads_back_def required_def)

lemma optional_back:
  assumes "merged mg t ps fs" "hm_get ps k = Some (opt_json w x)" "\<And>y. x = Some y \<Longrightarrow> reads_back mg w r y"
    and "\<And>y old. x = Some y \<Longrightarrow> mg old (w y) \<noteq> J_null"
  shows "optional r fs k = Some x"
proof (cases x)
  case None
  then show ?thesis using merged_get(2) [OF assms(1)] assms(2) by (simp add: opt_json_def optional_def)
next
  case (Some y)
  then show ?thesis
    using assms(2) assms(3) [OF Some] assms(4) [OF Some] merged_get(1) [OF assms(1), of k "w y"]
    by (auto simp: opt_json_def optional_def reads_back_def)
qed

lemma object_back:
  assumes "merge_patch mg" "w x = J_obj ps" "hm_wf ps" "\<And>old fs. merged mg old ps fs \<Longrightarrow> r (J_obj fs) = Some x"
  shows "reads_back mg w r x"
  unfolding reads_back_def
proof (intro conjI allI)
  show "w x \<noteq> J_null" by (simp add: assms(2))
  fix old
  obtain fs where "mg old (J_obj ps) = J_obj fs" "merged mg old ps fs"
    by (rule merge_object [OF assms(1,3)])
  then show "r (mg old (w x)) = Some x" using assms(4) by (simp add: assms(2))
qed

lemma those_map: "(\<And>x. x \<in> set xs \<Longrightarrow> f x = Some (g x)) \<Longrightarrow> those (map f xs) = Some (map g xs)"
  by (induction xs) auto

lemma those_Some: "those xs = Some ys \<longleftrightarrow> xs = map Some ys"
  by (induction xs arbitrary: ys) (auto split: option.splits)

lemma i32_back: "as_i32 (i32_json w) = Some w"
  using sint_i32_bounds [of w] by (simp add: as_i32_def i32_json_def)

lemma u64_back: "as_u64 (u64_json w) = Some w"
  using uint_bounded [of w] by (simp add: as_u64_def u64_json_def)

lemma leaves_back:
  assumes "merge_patch mg"
  shows "reads_back mg J_str as_str s"
    and "reads_back mg i32_json as_i32 w"
    and "reads_back mg u64_json as_u64 v"
    and "reads_back mg strs_json (as_list as_str) xs"
    and "wx_read_time W (wx_write_time W d) = Some d \<Longrightarrow> reads_back mg (time_json W) (as_time W) d"
  using i32_back [of w] u64_back [of v] those_map [of xs "as_str \<circ> J_str" "\<lambda>x. x"]
  by (simp_all add: reads_back_def merge_value [OF assms] as_str_def strs_json_def as_list_def time_json_def as_time_def
      i32_json_def u64_json_def comp_def)

lemma leaves_not_null:
  assumes "merge_patch mg"
  shows "mg old (J_str s) \<noteq> J_null" "mg old (i32_json w) \<noteq> J_null" "mg old (strs_json xs) \<noteq> J_null"
    "mg old (time_json W d) \<noteq> J_null"
  by (simp_all add: merge_value [OF assms] i32_json_def strs_json_def time_json_def)

lemma conditions_back:
  assumes "merge_patch mg" "\<forall>c \<in> set cs. wx_read_condition W (wx_write_condition W c) = Some c"
  shows "reads_back mg (\<lambda>cs. J_arr (map (wx_write_condition W) cs)) (as_list (wx_read_condition W)) cs"
  using those_map [of cs "wx_read_condition W \<circ> wx_write_condition W" "\<lambda>c. c"] assms(2)
  by (simp add: reads_back_def merge_value [OF assms(1)] as_list_def comp_def)

section \<open>The statuses\<close>

text \<open>
  What every status type promises its writer and its reader: it is written as an object, and a status that
  can be written at all is read back from a patch, whatever the stored object held before. From this
  follows how a resource object reads after its status was patched.
\<close>

locale wire_type =
  fixes enc :: "'a \<Rightarrow> json" and dec :: "json \<Rightarrow> 'a option" and writable :: "'a \<Rightarrow> bool"
  assumes enc_object: "\<exists>ps. enc x = J_obj ps \<and> hm_wf ps"
    and enc_back: "merge_patch mg \<Longrightarrow> writable x \<Longrightarrow> reads_back mg enc dec x"
begin

lemma merged_object:
  assumes "merge_patch mg"
  obtains fs where "mg old (enc x) = J_obj fs"
proof -
  obtain ps where "enc x = J_obj ps" "hm_wf ps" using enc_object [of x] by blast
  with merge_object [OF assms, of ps old] that show ?thesis by metis
qed

lemma status_patched:
  assumes "merge_patch mg" "writable x" "read_object spec dec obj = Some (nm, sp, st)"
  shows "read_object spec dec (mg obj (J_obj [(''status'', enc x)])) = Some (nm, sp, Some x)"
proof -
  obtain os where os: "obj = J_obj os"
    using assms(3) by (cases obj) (auto simp: read_object_def as_struct_def)
  obtain fs where fs: "mg obj (J_obj [(''status'', enc x)]) = J_obj fs" "merged mg obj [(''status'', enc x)] fs"
    by (rule merge_object [OF assms(1), of "[(''status'', enc x)]" obj]) (simp_all add: hm_wf_def)
  note rb = enc_back [OF assms(1,2)]
  obtain gs where gs: "mg (hm_get_or J_null (members obj) ''status'') (enc x) = J_obj gs"
    by (rule merged_object [OF assms(1)])
  have same: "hm_get fs k = hm_get os k" if "k \<noteq> ''status''" for k
    using merged_get(3) [OF fs(2), of k] that by (simp add: hm_get_def members_def os)
  have "hm_get fs ''status'' = Some (J_obj gs)"
    using merged_get(1) [OF fs(2), of "''status''" "enc x"] rb gs by (simp add: reads_back_def hm_get_def)
  moreover have "dec (J_obj gs) = Some x" using rb gs by (simp add: reads_back_def) metis
  ultimately have st: "optional dec fs ''status'' = Some (Some x)" by (simp add: optional_def)
  have "required f fs k = required f os k" if "k \<noteq> ''status''" for k and f :: "json \<Rightarrow> 'b option"
    using same [OF that] by (simp add: required_def)
  then show ?thesis
    using assms(3) st same by (auto simp: read_object_def as_struct_def os fs(1) [unfolded os] required_def bind_eq_Some_conv)
qed

end

definition time_writable :: "wire_ext \<Rightarrow> datetime \<Rightarrow> bool" where
  "time_writable W d \<longleftrightarrow> wx_read_time W (wx_write_time W d) = Some d"

definition claims_times :: "api_claims \<Rightarrow> datetime set" where
  "claims_times c = insert (c_issued_at c) (set_option (c_not_before c) \<union> set_option (c_expires c))"

definition conditions_writable :: "wire_ext \<Rightarrow> condition list \<Rightarrow> bool" where
  "conditions_writable W cs \<longleftrightarrow> (\<forall>c \<in> set cs. wx_read_condition W (wx_write_condition W c) = Some c)"

definition actor_status_writable :: "wire_ext \<Rightarrow> actor_status \<Rightarrow> bool" where
  "actor_status_writable W st \<longleftrightarrow>
     (\<forall>d \<in> claims_times (ast_claims st). time_writable W d) \<and> conditions_writable W (ast_conditions st)"

definition provider_status_writable :: "wire_ext \<Rightarrow> provider_status \<Rightarrow> bool" where
  "provider_status_writable W st \<longleftrightarrow>
     (\<forall>d \<in> claims_times (pst_claims st). time_writable W d) \<and> conditions_writable W (pst_conditions st)"

lemmas back_intros = leaves_back leaves_not_null conditions_back

text \<open>Reading any of the written structs from a merged object goes member by member.\<close>

lemma claims_back:
  assumes "merge_patch mg" "\<forall>d \<in> claims_times c. time_writable W d"
  shows "reads_back mg (claims_json W) (read_claims W) c"
proof (rule object_back [where w = "claims_json W" and x = c, OF assms(1) claims_json_def])
  fix old fs
  assume fs: "merged mg old [(''issuer'', J_str (c_issuer c)), (''subject'', J_str (c_subject c)),
       (''issuedAt'', time_json W (c_issued_at c)), (''notBefore'', opt_json (time_json W) (c_not_before c)),
       (''expires'', opt_json (time_json W) (c_expires c))] fs"
  note req = required_back [OF fs _ leaves_back(1) [OF assms(1)]]
  have times: "reads_back mg (time_json W) (as_time W) d" if "d \<in> claims_times c" for d
    using assms(2) that by (intro leaves_back [OF assms(1)]) (simp add: time_writable_def)
  note opt = optional_back [OF fs _ times leaves_not_null(4) [OF assms(1)]]
  have "required as_str fs ''issuer'' = Some (c_issuer c)" by (rule req) (simp add: hm_get_def)
  moreover have "required as_str fs ''subject'' = Some (c_subject c)" by (rule req) (simp add: hm_get_def)
  moreover have "required (as_time W) fs ''issuedAt'' = Some (c_issued_at c)"
    by (rule required_back [OF fs _ times]) (simp_all add: hm_get_def claims_times_def)
  moreover have "optional (as_time W) fs ''notBefore'' = Some (c_not_before c)"
    by (rule opt) (simp_all add: hm_get_def claims_times_def)
  moreover have "optional (as_time W) fs ''expires'' = Some (c_expires c)"
    by (rule opt) (simp_all add: hm_get_def claims_times_def)
  ultimately show "read_claims W (J_obj fs) = Some c"
    by (simp add: read_claims_def as_struct_def)
qed (simp add: hm_wf_def)

lemma actor_status_back:
  assumes "merge_patch mg" "actor_status_writable W st"
  shows "reads_back mg (actor_status_json W) (read_actor_status W) st"
proof (rule object_back [where w = "actor_status_json W" and x = st, OF assms(1) actor_status_json_def])
  fix old fs
  assume fs: "merged mg old [(''publicKey'', J_str (ast_public_key st)),
       (''descriptiveName'', opt_json J_str (ast_descriptive_name st)),
       (''caps'', opt_json strs_json (ast_caps st)),
       (''capabilityProvider'', opt_json strs_json (ast_capability_provider st)),
       (''callAlias'', opt_json J_str (ast_call_alias st)),
       (''claims'', claims_json W (ast_claims st)),
       (''version'', opt_json J_str (ast_version st)),
       (''reversion'', opt_json i32_json (ast_reversion st)),
       (''conditions'', J_arr (map (wx_write_condition W) (ast_conditions st))),
       (''replicas'', i32_json (ast_replicas st)),
       (''availableReplicas'', i32_json (ast_available_replicas st))] fs"
  note leaf = leaves_back [OF assms(1)] and nn = leaves_not_null [OF assms(1)]
  have cl: "reads_back mg (claims_json W) (read_claims W) (ast_claims st)"
    and conds: "reads_back mg (\<lambda>cs. J_arr (map (wx_write_condition W) cs)) (as_list (wx_read_condition W)) (ast_conditions st)"
    using assms(2) by (auto intro!: claims_back [OF assms(1)] conditions_back [OF assms(1)]
        simp: actor_status_writable_def conditions_writable_def)
  have "required as_str fs ''publicKey'' = Some (ast_public_key st)"
    "required (read_claims W) fs ''claims'' = Some (ast_claims st)"
    "required (as_list (wx_read_condition W)) fs ''conditions'' = Some (ast_conditions st)"
    "required as_i32 fs ''replicas'' = Some (ast_replicas st)"
    "required as_i32 fs ''availableReplicas'' = Some (ast_available_replicas st)"
    by (rule required_back [OF fs _ leaf(1)] required_back [OF fs _ cl] required_back [OF fs _ conds]
        required_back [OF fs _ leaf(2)], simp add: hm_get_def)+
  moreover have "optional as_str fs ''descriptiveName'' = Some (ast_descriptive_name st)"
    "optional (as_list as_str) fs ''caps'' = Some (ast_caps st)"
    "optional (as_list as_str) fs ''capabilityProvider'' = Some (ast_capability_provider st)"
    "optional as_str fs ''callAlias'' = Some (ast_call_alias st)"
    "optional as_str fs ''version'' = Some (ast_version st)"
    "optional as_i32 fs ''reversion'' = Some (ast_reversion st)"
    by (rule optional_back [OF fs _ leaf(1) nn(1)] optional_back [OF fs _ leaf(2) nn(2)]
        optional_back [OF fs _ leaf(4) nn(3)], simp add: hm_get_def)+
  ultimately show "read_actor_status W (J_obj fs) = Some st"
    by (simp add: read_actor_status_def as_struct_def)
qed (simp add: hm_wf_def)

lemma provider_status_back:
  assumes "merge_patch mg" "provider_status_writable W st"
  shows "reads_back mg (provider_status_json W) (read_provider_status W) st"
proof (rule object_back [where w = "provider_status_json W" and x = st, OF assms(1) provider_status_json_def])
  fix old fs
  assume fs: "merged mg old [(''publicKey'', J_str (pst_public_key st)),
       (''contractId'', J_str (pst_contract_id st)),
       (''descriptiveName'', opt_json J_str (pst_descriptive_name st)),
       (''claims'', claims_json W (pst_claims st)),
       (''architectureTargets'', strs_json (pst_architecture_targets st)),
       (''vendor'', J_str (pst_vendor st)),
       (''version'', opt_json J_str (pst_version st)),
       (''reversion'', opt_json i32_json (pst_reversion st)),
       (''conditions'', J_arr (map (wx_write_condition W) (pst_conditions st))),
       (''instanceId'', J_str (pst_instance_id st))] fs"
  note leaf = leaves_back [OF assms(1)] and nn = leaves_not_null [OF assms(1)]
  have cl: "reads_back mg (claims_json W) (read_claims W) (pst_claims st)"
    and conds: "reads_back mg (\<lambda>cs. J_arr (map (wx_write_condition W) cs)) (as_list (wx_read_condition W)) (pst_conditions st)"
    using assms(2) by (auto intro!: claims_back [OF assms(1)] conditions_back [OF assms(1)]
        simp: provider_status_writable_def conditions_writable_def)
  have "required as_str fs ''publicKey'' = Some (pst_public_key st)"
    "required as_str fs ''contractId'' = Some (pst_contract_id st)"
    "required (read_claims W) fs ''claims'' = Some (pst_claims st)"
    "required (as_list as_str) fs ''architectureTargets'' = Some (pst_architecture_targets st)"
    "required as_str fs ''vendor'' = Some (pst_vendor st)"
    "required (as_list (wx_read_condition W)) fs ''conditions'' = Some (pst_conditions st)"
    "required as_str fs ''instanceId'' = Some (pst_instance_id st)"
    by (rule required_back [OF fs _ leaf(1)] required_back [OF fs _ cl] required_back [OF fs _ conds]
        required_back [OF fs _ leaf(4)], simp add: hm_get_def)+
  moreover have "optional as_str fs ''descriptiveName'' = Some (pst_descriptive_name st)"
    "optional as_str fs ''version'' = Some (pst_version st)"
    "optional as_i32 fs ''reversion'' = Some (pst_reversion st)"
    by (rule optional_back [OF fs _ leaf(1) nn(1)] optional_back [OF fs _ leaf(2) nn(2)], simp add: hm_get_def)+
  ultimately show "read_provider_status W (J_obj fs) = Some st"
    by (simp add: read_provider_status_def as_struct_def)
qed (simp add: hm_wf_def)

lemma link_status_back:
  assumes "merge_patch mg" "conditions_writable W (lst_conditions st)"
  shows "reads_back mg (link_status_json W) (read_link_status W) st"
proof (rule object_back [where w = "link_status_json W" and x = st, OF assms(1) link_status_json_def])
  fix old fs
  assume fs: "merged mg old [(''providerKey'', J_str (lst_provider_key st)), (''actorKey'', J_str (lst_actor_key st)),
       (''linkName'', J_str (lst_link_name st)),
       (''conditions'', J_arr (map (wx_write_condition W) (lst_conditions st)))] fs"
  note leaf = leaves_back [OF assms(1)]
  have conds: "reads_back mg (\<lambda>cs. J_arr (map (wx_write_condition W) cs)) (as_list (wx_read_condition W)) (lst_conditions st)"
    using assms(2) by (intro conditions_back [OF assms(1)]) (simp add: conditions_writable_def)
  have "required as_str fs ''providerKey'' = Some (lst_provider_key st)"
    "required as_str fs ''actorKey'' = Some (lst_actor_key st)"
    "required as_str fs ''linkName'' = Some (lst_link_name st)"
    "required (as_list (wx_read_condition W)) fs ''conditions'' = Some (lst_conditions st)"
    by (rule required_back [OF fs _ leaf(1)] required_back [OF fs _ conds], simp add: hm_get_def)+
  then show "read_link_status W (J_obj fs) = Some st"
    by (simp add: read_link_status_def as_struct_def)
qed (simp add: hm_wf_def)

text \<open>The status of the host nests two objects.\<close>

lemma host_counts_back:
  assumes "merge_patch mg"
  shows "reads_back mg host_providers_json read_host_providers p"
    and "reads_back mg host_actors_json read_host_actors a"
proof -
  note leaf = leaves_back(3) [OF assms]
  show "reads_back mg host_providers_json read_host_providers p"
  proof (rule object_back [where w = host_providers_json and x = p, OF assms host_providers_json_def])
    fix old fs
    assume "merged mg old [(''count'', u64_json (hps_count p))] fs"
    then have "required as_u64 fs ''count'' = Some (hps_count p)"
      by (rule required_back [OF _ _ leaf]) (simp add: hm_get_def)
    then show "read_host_providers (J_obj fs) = Some p" by (simp add: read_host_providers_def as_struct_def)
  qed (simp add: hm_wf_def)
  show "reads_back mg host_actors_json read_host_actors a"
  proof (rule object_back [where w = host_actors_json and x = a, OF assms host_actors_json_def])
    fix old fs
    assume fs: "merged mg old [(''count'', u64_json (has_count a)), (''instanceCount'', u64_json (has_instance_count a))] fs"
    have "required as_u64 fs ''count'' = Some (has_count a)"
      "required as_u64 fs ''instanceCount'' = Some (has_instance_count a)"
      by (rule required_back [OF fs _ leaf], simp add: hm_get_def)+
    then show "read_host_actors (J_obj fs) = Some a" by (simp add: read_host_actors_def as_struct_def)
  qed (simp add: hm_wf_def)
qed

lemma host_status_back:
  assumes "merge_patch mg"
  shows "reads_back mg host_status_json read_host_status st"
proof (rule object_back [where w = host_status_json and x = st, OF assms host_status_json_def])
  fix old fs
  assume fs: "merged mg old [(''kubeNodeName'', J_str (hst_kube_node_name st)), (''publicKey'', J_str (hst_public_key st)),
       (''clusterPublicKey'', J_str (hst_cluster_public_key st)),
       (''clusterIssuers'', strs_json (hst_cluster_issuers st)),
       (''preInstance'', J_str (hst_pre_instance st)), (''instance'', J_str (hst_instance st)),
       (''providers'', host_providers_json (hst_providers st)),
       (''actors'', host_actors_json (hst_actors st))] fs"
  note leaf = leaves_back [OF assms] and nested = host_counts_back [OF assms]
  have "required as_str fs ''kubeNodeName'' = Some (hst_kube_node_name st)"
    "required as_str fs ''publicKey'' = Some (hst_public_key st)"
    "required as_str fs ''clusterPublicKey'' = Some (hst_cluster_public_key st)"
    "required (as_list as_str) fs ''clusterIssuers'' = Some (hst_cluster_issuers st)"
    "required as_str fs ''preInstance'' = Some (hst_pre_instance st)"
    "required as_str fs ''instance'' = Some (hst_instance st)"
    "required read_host_providers fs ''providers'' = Some (hst_providers st)"
    "required read_host_actors fs ''actors'' = Some (hst_actors st)"
    by (rule required_back [OF fs _ leaf(1)] required_back [OF fs _ leaf(4)] required_back [OF fs _ nested(1)]
        required_back [OF fs _ nested(2)], simp add: hm_get_def)+
  then show "read_host_status (J_obj fs) = Some st"
    by (simp add: read_host_status_def as_struct_def)
qed (simp add: hm_wf_def)

section \<open>The contract, for each status\<close>

interpretation actor_wire: wire_type "actor_status_json W" "read_actor_status W" "actor_status_writable W" for W
  by unfold_locales (auto simp: actor_status_json_def hm_wf_def intro: actor_status_back)

interpretation provider_wire: wire_type "provider_status_json W" "read_provider_status W" "provider_status_writable W" for W
  by unfold_locales (auto simp: provider_status_json_def hm_wf_def intro: provider_status_back)

interpretation link_wire: wire_type "link_status_json W" "read_link_status W" "\<lambda>st. conditions_writable W (lst_conditions st)" for W
  by unfold_locales (auto simp: link_status_json_def hm_wf_def intro: link_status_back)

interpretation host_wire: wire_type host_status_json read_host_status "\<lambda>_. True"
  by unfold_locales (auto simp: host_status_json_def hm_wf_def intro: host_status_back)

text \<open>What the host reads of a resource after its status was patched.\<close>

lemma read_patched:
  assumes "merge_patch mg"
  shows "read_actor W obj = Some a \<Longrightarrow> actor_status_writable W st \<Longrightarrow>
      read_actor W (mg obj (J_obj [(''status'', actor_status_json W st)])) = Some (a\<lparr>a_status := Some st\<rparr>)"
    and "read_provider W obj = Some p \<Longrightarrow> provider_status_writable W pst \<Longrightarrow>
      read_provider W (mg obj (J_obj [(''status'', provider_status_json W pst)])) = Some (p\<lparr>p_status := Some pst\<rparr>)"
    and "read_link W obj = Some l \<Longrightarrow> conditions_writable W (lst_conditions lst) \<Longrightarrow>
      read_link W (mg obj (J_obj [(''status'', link_status_json W lst)])) = Some (l\<lparr>l_status := Some lst\<rparr>)"
  using actor_wire.status_patched [OF assms, of W st read_actor_spec obj]
    provider_wire.status_patched [OF assms, of W pst read_provider_spec obj]
    link_wire.status_patched [OF assms, of W lst read_link_spec obj]
  by (auto simp: read_actor_def read_provider_def read_link_def)

end
