(* ===== verification/Kasm_Go.thy ===== *)
theory Kasm_Go
  imports Kasm_Wire
begin

text \<open>
  The resource types of the Go program (\<^verbatim>\<open>api/v1alpha1/actor_types.go\<close>, \<^verbatim>\<open>provider_types.go\<close>,
  \<^verbatim>\<open>link_types.go\<close>, \<^verbatim>\<open>types.go\<close>), and how they are decoded from the JSON the API server sends: a member
  that is missing or \<open>null\<close> leaves Go's zero value, a member of another type is an error.
\<close>

section \<open>Types\<close>

text \<open>
  A \<^verbatim>\<open>uint\<close> and an \<^verbatim>\<open>int\<close> have 64 bits. A pointer, a slice and a map may be \<^verbatim>\<open>nil\<close>: \<open>None\<close>. The zero
  \<^verbatim>\<open>metav1.Time\<close> is the beginning of the year 1.
\<close>

definition go_zero_time :: datetime where
  "go_zero_time = -62135596800"

type_synonym labels = "(string, string) hmap option"

record go_claims =
  gc_issuer :: string
  gc_subject :: string
  gc_issued_at :: datetime
  gc_not_before :: "datetime option"
  gc_expires :: "datetime option"

record go_actor_spec =
  gas_host :: string
  gas_image :: string
  gas_replicas :: "64 word"

record go_actor_status =
  gast_public_key :: string
  gast_descriptive_name :: string
  gast_caps :: "string list option"
  gast_capability_provider :: "string list option"
  gast_call_alias :: "string option"
  gast_claims :: go_claims
  gast_version :: "string option"
  gast_reversion :: "64 word option"
  gast_conditions :: "condition list option"
  gast_replicas :: "64 word"
  gast_available_replicas :: "64 word"

record go_actor =
  ga_name :: string
  ga_labels :: labels
  ga_spec :: go_actor_spec
  ga_status :: go_actor_status

record go_provider_spec =
  gps_host :: string
  gps_image :: string
  gps_link :: string

record go_provider_status =
  gpst_public_key :: string
  gpst_contract_id :: string
  gpst_descriptive_name :: string
  gpst_claims :: go_claims
  gpst_architecture_targets :: "string list option"
  gpst_vendor :: string
  gpst_version :: "string option"
  gpst_reversion :: "64 word option"
  gpst_conditions :: "condition list option"
  gpst_instance_id :: string

record go_provider =
  gp_name :: string
  gp_labels :: labels
  gp_spec :: go_provider_spec
  gp_status :: go_provider_status

record go_link_spec =
  gls_link_name :: string
  gls_provider :: source_ref
  gls_actor :: source_ref
  gls_contract_id :: string
  gls_values :: "(string \<rightharpoonup> string) option"

record go_link_status =
  glst_provider_key :: string
  glst_actor_key :: string
  glst_link_name :: string
  glst_conditions :: "condition list option"

record go_link =
  gl_name :: string
  gl_labels :: labels
  gl_spec :: go_link_spec
  gl_status :: go_link_status

section \<open>Decoding\<close>

text \<open>The decoders of the types of Kubernetes: a time from its string, a condition.\<close>

record go_ext =
  gx_read_time :: "string \<Rightarrow> datetime option"
  gx_read_condition :: "json \<Rightarrow> condition option"

definition go_member :: "'a \<Rightarrow> (json \<Rightarrow> 'a option) \<Rightarrow> (string, json) hmap \<Rightarrow> string \<Rightarrow> 'a option" where
  "go_member zero f fs k =
     (case hm_get fs k of None \<Rightarrow> Some zero | Some j \<Rightarrow> if j = J_null then Some zero else f j)"

definition go_nested :: "((string, json) hmap \<Rightarrow> 'a option) \<Rightarrow> (string, json) hmap \<Rightarrow> string \<Rightarrow> 'a option" where
  "go_nested f fs k =
     (case hm_get fs k of
        None \<Rightarrow> f []
      | Some j \<Rightarrow> if j = J_null then f [] else Option.bind (as_struct j) f)"

definition go_pointer :: "(json \<Rightarrow> 'a option) \<Rightarrow> (string, json) hmap \<Rightarrow> string \<Rightarrow> 'a option option" where
  "go_pointer f = go_member None (\<lambda>j. map_option Some (f j))"

definition go_elem :: "json \<Rightarrow> string option" where
  "go_elem j = (if j = J_null then Some [] else as_str j)"

definition as_i64 :: "json \<Rightarrow> 64 word option" where
  "as_i64 j = (case j of J_int n \<Rightarrow> if - (2 ^ 63) \<le> n \<and> n < 2 ^ 63 then Some (word_of_int n) else None | _ \<Rightarrow> None)"

definition go_time :: "go_ext \<Rightarrow> json \<Rightarrow> datetime option" where
  "go_time G j = (case j of J_str s \<Rightarrow> gx_read_time G s | _ \<Rightarrow> None)"

definition go_read_claims :: "go_ext \<Rightarrow> (string, json) hmap \<Rightarrow> go_claims option" where
  "go_read_claims G fs = do {
     iss \<leftarrow> go_member [] as_str fs ''issuer'';
     sub \<leftarrow> go_member [] as_str fs ''subject'';
     iat \<leftarrow> go_member go_zero_time (go_time G) fs ''issuedAt'';
     nbf \<leftarrow> go_pointer (go_time G) fs ''notBefore'';
     ex \<leftarrow> go_pointer (go_time G) fs ''expires'';
     Some \<lparr>gc_issuer = iss, gc_subject = sub, gc_issued_at = iat, gc_not_before = nbf, gc_expires = ex\<rparr> }"

definition go_read_actor_spec :: "(string, json) hmap \<Rightarrow> go_actor_spec option" where
  "go_read_actor_spec fs = do {
     h \<leftarrow> go_member [] as_str fs ''host'';
     img \<leftarrow> go_member [] as_str fs ''image'';
     reps \<leftarrow> go_member 0 as_u64 fs ''replicas'';
     Some \<lparr>gas_host = h, gas_image = img, gas_replicas = reps\<rparr> }"

definition go_read_actor_status :: "go_ext \<Rightarrow> (string, json) hmap \<Rightarrow> go_actor_status option" where
  "go_read_actor_status G fs = do {
     pk \<leftarrow> go_member [] as_str fs ''publicKey'';
     dn \<leftarrow> go_member [] as_str fs ''descriptiveName'';
     caps \<leftarrow> go_pointer (as_list go_elem) fs ''caps'';
     capp \<leftarrow> go_pointer (as_list go_elem) fs ''capabilityProvider'';
     alias \<leftarrow> go_pointer as_str fs ''callAlias'';
     cl \<leftarrow> go_nested (go_read_claims G) fs ''claims'';
     ver \<leftarrow> go_pointer as_str fs ''version'';
     rev \<leftarrow> go_pointer as_i64 fs ''reversion'';
     conds \<leftarrow> go_pointer (as_list (gx_read_condition G)) fs ''conditions'';
     reps \<leftarrow> go_member 0 as_u64 fs ''replicas'';
     avail \<leftarrow> go_member 0 as_u64 fs ''availableReplicas'';
     Some \<lparr>gast_public_key = pk, gast_descriptive_name = dn, gast_caps = caps, gast_capability_provider = capp,
       gast_call_alias = alias, gast_claims = cl, gast_version = ver, gast_reversion = rev,
       gast_conditions = conds, gast_replicas = reps, gast_available_replicas = avail\<rparr> }"

definition go_read_provider_spec :: "(string, json) hmap \<Rightarrow> go_provider_spec option" where
  "go_read_provider_spec fs = do {
     h \<leftarrow> go_member [] as_str fs ''host'';
     img \<leftarrow> go_member [] as_str fs ''image'';
     ln \<leftarrow> go_member [] as_str fs ''link'';
     Some \<lparr>gps_host = h, gps_image = img, gps_link = ln\<rparr> }"

definition go_read_provider_status :: "go_ext \<Rightarrow> (string, json) hmap \<Rightarrow> go_provider_status option" where
  "go_read_provider_status G fs = do {
     pk \<leftarrow> go_member [] as_str fs ''publicKey'';
     cid \<leftarrow> go_member [] as_str fs ''contractId'';
     dn \<leftarrow> go_member [] as_str fs ''descriptiveName'';
     cl \<leftarrow> go_nested (go_read_claims G) fs ''claims'';
     targets \<leftarrow> go_pointer (as_list go_elem) fs ''architectureTargets'';
     vendor \<leftarrow> go_member [] as_str fs ''vendor'';
     ver \<leftarrow> go_pointer as_str fs ''version'';
     rev \<leftarrow> go_pointer as_i64 fs ''reversion'';
     conds \<leftarrow> go_pointer (as_list (gx_read_condition G)) fs ''conditions'';
     inst \<leftarrow> go_member [] as_str fs ''instanceId'';
     Some \<lparr>gpst_public_key = pk, gpst_contract_id = cid, gpst_descriptive_name = dn, gpst_claims = cl,
       gpst_architecture_targets = targets, gpst_vendor = vendor, gpst_version = ver, gpst_reversion = rev,
       gpst_conditions = conds, gpst_instance_id = inst\<rparr> }"

definition go_read_source :: "(string, json) hmap \<Rightarrow> source_ref option" where
  "go_read_source fs = do {
     key \<leftarrow> go_member [] as_str fs ''key'';
     nm \<leftarrow> go_member [] as_str fs ''name'';
     Some \<lparr>src_key = key, src_name = nm\<rparr> }"

definition go_read_link_spec :: "(string, json) hmap \<Rightarrow> go_link_spec option" where
  "go_read_link_spec fs = do {
     ln \<leftarrow> go_member [] as_str fs ''linkName'';
     prov \<leftarrow> go_nested go_read_source fs ''provider'';
     act \<leftarrow> go_nested go_read_source fs ''actor'';
     cid \<leftarrow> go_member [] as_str fs ''contractId'';
     vals \<leftarrow> go_pointer (as_map go_elem) fs ''values'';
     Some \<lparr>gls_link_name = ln, gls_provider = prov, gls_actor = act, gls_contract_id = cid,
       gls_values = map_option hm_get vals\<rparr> }"

definition go_read_link_status :: "go_ext \<Rightarrow> (string, json) hmap \<Rightarrow> go_link_status option" where
  "go_read_link_status G fs = do {
     pk \<leftarrow> go_member [] as_str fs ''providerKey'';
     ak \<leftarrow> go_member [] as_str fs ''actorKey'';
     ln \<leftarrow> go_member [] as_str fs ''linkName'';
     conds \<leftarrow> go_pointer (as_list (gx_read_condition G)) fs ''conditions'';
     Some \<lparr>glst_provider_key = pk, glst_actor_key = ak, glst_link_name = ln, glst_conditions = conds\<rparr> }"

text \<open>An object: of its \<^verbatim>\<open>ObjectMeta\<close> the program uses the name and the labels.\<close>

definition go_read_object ::
    "((string, json) hmap \<Rightarrow> 's option) \<Rightarrow> ((string, json) hmap \<Rightarrow> 't option) \<Rightarrow> json \<Rightarrow> (string \<times> labels \<times> 's \<times> 't) option" where
  "go_read_object spec status j = do {
     fs \<leftarrow> as_struct j;
     meta \<leftarrow> go_nested Some fs ''metadata'';
     nm \<leftarrow> go_member [] as_str meta ''name'';
     ls \<leftarrow> go_pointer (as_map go_elem) meta ''labels'';
     sp \<leftarrow> go_nested spec fs ''spec'';
     st \<leftarrow> go_nested status fs ''status'';
     Some (nm, ls, sp, st) }"

definition go_read_actor :: "go_ext \<Rightarrow> json \<Rightarrow> go_actor option" where
  "go_read_actor G j =
     map_option (\<lambda>(nm, ls, sp, st). \<lparr>ga_name = nm, ga_labels = ls, ga_spec = sp, ga_status = st\<rparr>)
       (go_read_object go_read_actor_spec (go_read_actor_status G) j)"

definition go_read_provider :: "go_ext \<Rightarrow> json \<Rightarrow> go_provider option" where
  "go_read_provider G j =
     map_option (\<lambda>(nm, ls, sp, st). \<lparr>gp_name = nm, gp_labels = ls, gp_spec = sp, gp_status = st\<rparr>)
       (go_read_object go_read_provider_spec (go_read_provider_status G) j)"

definition go_read_link :: "go_ext \<Rightarrow> json \<Rightarrow> go_link option" where
  "go_read_link G j =
     map_option (\<lambda>(nm, ls, sp, st). \<lparr>gl_name = nm, gl_labels = ls, gl_spec = sp, gl_status = st\<rparr>)
       (go_read_object go_read_link_spec (go_read_link_status G) j)"

section \<open>The same resource in both programs\<close>

definition go_claims_of :: "api_claims \<Rightarrow> go_claims" where
  "go_claims_of c =
     \<lparr>gc_issuer = c_issuer c, gc_subject = c_subject c, gc_issued_at = c_issued_at c,
      gc_not_before = c_not_before c, gc_expires = c_expires c\<rparr>"

definition go_no_claims :: go_claims where
  "go_no_claims = \<lparr>gc_issuer = [], gc_subject = [], gc_issued_at = go_zero_time, gc_not_before = None, gc_expires = None\<rparr>"

text \<open>An \<^verbatim>\<open>i32\<close> as Go's integers.\<close>

definition go_int :: "32 word \<Rightarrow> 64 word" where
  "go_int w = word_of_int (sint w)"

definition go_actor_status_of :: "actor_status option \<Rightarrow> go_actor_status" where
  "go_actor_status_of st =
     (case st of
        None \<Rightarrow>
          \<lparr>gast_public_key = [], gast_descriptive_name = [], gast_caps = None, gast_capability_provider = None,
           gast_call_alias = None, gast_claims = go_no_claims, gast_version = None, gast_reversion = None,
           gast_conditions = None, gast_replicas = 0, gast_available_replicas = 0\<rparr>
      | Some st \<Rightarrow>
          \<lparr>gast_public_key = ast_public_key st,
           gast_descriptive_name = (case ast_descriptive_name st of None \<Rightarrow> [] | Some d \<Rightarrow> d),
           gast_caps = ast_caps st, gast_capability_provider = ast_capability_provider st,
           gast_call_alias = ast_call_alias st, gast_claims = go_claims_of (ast_claims st),
           gast_version = ast_version st, gast_reversion = map_option go_int (ast_reversion st),
           gast_conditions = Some (ast_conditions st), gast_replicas = go_int (ast_replicas st),
           gast_available_replicas = go_int (ast_available_replicas st)\<rparr>)"

definition go_actor_of :: "labels \<Rightarrow> actor_resource \<Rightarrow> go_actor" where
  "go_actor_of ls r =
     \<lparr>ga_name = a_name r, ga_labels = ls,
      ga_spec = \<lparr>gas_host = as_host (a_spec r), gas_image = as_image (a_spec r),
        gas_replicas = go_int (as_replicas (a_spec r))\<rparr>,
      ga_status = go_actor_status_of (a_status r)\<rparr>"

definition go_provider_status_of :: "provider_status option \<Rightarrow> go_provider_status" where
  "go_provider_status_of st =
     (case st of
        None \<Rightarrow>
          \<lparr>gpst_public_key = [], gpst_contract_id = [], gpst_descriptive_name = [], gpst_claims = go_no_claims,
           gpst_architecture_targets = None, gpst_vendor = [], gpst_version = None, gpst_reversion = None,
           gpst_conditions = None, gpst_instance_id = []\<rparr>
      | Some st \<Rightarrow>
          \<lparr>gpst_public_key = pst_public_key st, gpst_contract_id = pst_contract_id st,
           gpst_descriptive_name = (case pst_descriptive_name st of None \<Rightarrow> [] | Some d \<Rightarrow> d),
           gpst_claims = go_claims_of (pst_claims st),
           gpst_architecture_targets = Some (pst_architecture_targets st), gpst_vendor = pst_vendor st,
           gpst_version = pst_version st, gpst_reversion = map_option go_int (pst_reversion st),
           gpst_conditions = Some (pst_conditions st), gpst_instance_id = pst_instance_id st\<rparr>)"

definition go_provider_of :: "labels \<Rightarrow> provider_resource \<Rightarrow> go_provider" where
  "go_provider_of ls r =
     \<lparr>gp_name = p_name r, gp_labels = ls,
      gp_spec = \<lparr>gps_host = ps_host (p_spec r), gps_image = ps_image (p_spec r), gps_link = ps_link (p_spec r)\<rparr>,
      gp_status = go_provider_status_of (p_status r)\<rparr>"

definition go_link_spec_of :: "link_spec \<Rightarrow> go_link_spec" where
  "go_link_spec_of spec =
     \<lparr>gls_link_name = ls_link_name spec, gls_provider = ls_provider spec, gls_actor = ls_actor spec,
      gls_contract_id = ls_contract_id spec,
      gls_values = (if ls_values spec = [] then None else Some (hm_get (ls_values spec)))\<rparr>"

definition go_link_status_of :: "link_status option \<Rightarrow> go_link_status" where
  "go_link_status_of st =
     (case st of
        None \<Rightarrow> \<lparr>glst_provider_key = [], glst_actor_key = [], glst_link_name = [], glst_conditions = None\<rparr>
      | Some st \<Rightarrow>
          \<lparr>glst_provider_key = lst_provider_key st, glst_actor_key = lst_actor_key st,
           glst_link_name = lst_link_name st, glst_conditions = Some (lst_conditions st)\<rparr>)"

definition go_link_of :: "labels \<Rightarrow> link_resource \<Rightarrow> go_link" where
  "go_link_of ls r =
     \<lparr>gl_name = l_name r, gl_labels = ls, gl_spec = go_link_spec_of (l_spec r),
      gl_status = go_link_status_of (l_status r)\<rparr>"

section \<open>Facts\<close>

lemma required_member:
  assumes "required f fs k = Some x" "f J_null = None" "\<And>j. f j = Some x \<Longrightarrow> g j = y"
  shows "go_member z g fs k = y"
  using assms by (auto simp: required_def go_member_def split: option.splits)

lemma required_pointer:
  assumes "required f fs k = Some x" "f J_null = None" "\<And>j. f j = Some x \<Longrightarrow> g j = Some y"
  shows "go_pointer g fs k = Some (Some y)"
  using required_member [where z = None and g = "\<lambda>j. map_option Some (g j)", OF assms(1,2)] assms(3)
  by (simp add: go_pointer_def)

lemma optional_pointer:
  assumes "optional f fs k = Some x" "\<And>j y. x = Some y \<Longrightarrow> f j = Some y \<Longrightarrow> g j = Some (h y)"
  shows "go_pointer g fs k = Some (map_option h x)"
  using assms by (auto simp: optional_def go_pointer_def go_member_def split: option.splits if_splits)

lemma optional_member:
  assumes "optional as_str fs k = Some x"
  shows "go_member [] as_str fs k = Some (case x of None \<Rightarrow> [] | Some d \<Rightarrow> d)"
  using assms by (auto simp: optional_def go_member_def split: option.splits if_splits)

lemma required_nested:
  assumes "required f fs k = Some x" "\<And>j. f j = Some x \<Longrightarrow> \<exists>gs. j = J_obj gs \<and> h gs = y"
  shows "go_nested h fs k = y"
proof -
  obtain j where j: "hm_get fs k = Some j" "f j = Some x" using assms(1) by (auto simp: required_def split: option.splits)
  then obtain gs where "j = J_obj gs" "h gs = y" using assms(2) by blast
  with j(1) show ?thesis by (simp add: go_nested_def as_struct_def)
qed

lemma as_i32_range: "as_i32 j = Some w \<Longrightarrow> j = J_int (sint w)"
proof -
  have "sint (word_of_int n :: 32 word) = n" if "- (2 ^ 31) \<le> n" "n < 2 ^ 31" for n
    using that int_word_sint [of n, where 'a = 32] by simp
  then show "as_i32 j = Some w \<Longrightarrow> j = J_int (sint w)"
    by (auto simp: as_i32_def split: json.splits if_splits)
qed

lemma as_i32_i64: "as_i32 j = Some w \<Longrightarrow> as_i64 j = Some (go_int w)"
  using as_i32_range [of j w] sint_i32_bounds [of w] by (simp add: as_i64_def go_int_def)

lemma as_i32_u64: "as_i32 j = Some w \<Longrightarrow> as_u64 j = (if 0 \<le> sint w then Some (go_int w) else None)"
  using as_i32_range [of j w] sint_i32_bounds [of w] by (simp add: as_u64_def go_int_def)

lemma strings_elems: "as_list as_str j = Some xs \<Longrightarrow> as_list go_elem j = Some xs"
proof -
  have "those (map go_elem js) = Some xs" if "those (map as_str js) = Some xs" for js xs
    using that
    by (induction js arbitrary: xs) (auto simp: go_elem_def as_str_def split: option.splits json.splits)
  then show "as_list as_str j = Some xs \<Longrightarrow> as_list go_elem j = Some xs"
    by (simp add: as_list_def split: json.splits)
qed

lemma map_elems: "as_map as_str j = Some m \<Longrightarrow> as_map go_elem j = Some m"
proof -
  have "those (map (\<lambda>(k, v). map_option (Pair k) (go_elem v)) js) = Some m"
    if "those (map (\<lambda>(k, v). map_option (Pair k) (as_str v)) js) = Some m" for js m
    using that
    by (induction js arbitrary: m) (auto simp: go_elem_def as_str_def split: option.splits json.splits)
  then show "as_map as_str j = Some m \<Longrightarrow> as_map go_elem j = Some m"
    by (simp add: as_map_def split: json.splits)
qed

lemma null_values [simp]:
  "as_str J_null = None" "as_i32 J_null = None" "as_time W J_null = None" "as_list f J_null = None"
  "as_struct J_null = None"
  by (simp_all add: as_str_def as_i32_def as_time_def as_list_def as_struct_def)

text \<open>
  A time in the form \<^verbatim>\<open>2024-01-31T23:59:59Z\<close>: four digits for the year, no fraction, no leap second. On these, and
  only on these, the decoders of the two packages are taken to agree, both being documented to read
  RFC 3339; what else \<^verbatim>\<open>chrono\<close> reads (other separators, signed years) Go's \<^verbatim>\<open>time.RFC3339\<close> does not.
\<close>

definition time_char :: "char \<Rightarrow> char \<Rightarrow> bool" where
  "time_char p c =
     (if p = CHR ''d'' then c \<in> set ''0123456789'' else if p = CHR ''s'' then c \<in> set ''012345'' else c = p)"

definition plain_time :: "string \<Rightarrow> bool" where
  "plain_time s = list_all2 time_char ''dddd-dd-ddTdd:sd:sdZ'' s"

definition same_times :: "wire_ext \<Rightarrow> go_ext \<Rightarrow> bool" where
  "same_times W G \<longleftrightarrow>
     (\<forall>s t. plain_time s \<longrightarrow> wx_read_time W s = Some t \<longrightarrow> gx_read_time G s = Some t)"

text \<open>Claims whose times are written so, and a status with such claims (if any) that lists no conditions.\<close>

definition plain_member :: "(string, json) hmap \<Rightarrow> string \<Rightarrow> bool" where
  "plain_member fs k = (case hm_get fs k of Some (J_str s) \<Rightarrow> plain_time s | _ \<Rightarrow> True)"

definition plain_claims :: "json \<Rightarrow> bool" where
  "plain_claims j = list_all (plain_member (members j)) [''issuedAt'', ''notBefore'', ''expires'']"

definition plain_status :: "json \<Rightarrow> bool" where
  "plain_status j \<longleftrightarrow> plain_claims (hm_get_or J_null (members j) ''claims'') \<and>
     hm_get_or (J_arr []) (members j) ''conditions'' = J_arr []"

definition plain_object :: "json \<Rightarrow> bool" where
  "plain_object j = plain_status (hm_get_or J_null (members j) ''status'')"

lemma same_time:
  assumes "same_times W G" "plain_member fs k" "hm_get fs k = Some j" "as_time W j = Some t"
  shows "go_time G j = Some t"
  using assms by (auto simp: same_times_def as_time_def go_time_def plain_member_def split: json.splits)

lemma required_time:
  assumes "same_times W G" "plain_member fs k" "required (as_time W) fs k = Some t"
  shows "go_member go_zero_time (go_time G) fs k = Some t"
  using same_time [OF assms(1,2)] assms(3) by (auto simp: required_def go_member_def split: option.splits)

lemma optional_time:
  assumes "same_times W G" "plain_member fs k" "optional (as_time W) fs k = Some t"
  shows "go_pointer (go_time G) fs k = Some t"
  using same_time [OF assms(1,2)] assms(3)
  by (auto simp: optional_def go_pointer_def go_member_def split: option.splits if_splits)

lemma claims_agree:
  assumes "same_times W G" "plain_claims j" "read_claims W j = Some c"
  shows "\<exists>fs. j = J_obj fs \<and> go_read_claims G fs = Some (go_claims_of c)"
proof -
  obtain fs iss sub iat nbf ex where j: "j = J_obj fs"
    and r: "required as_str fs ''issuer'' = Some iss" "required as_str fs ''subject'' = Some sub"
      "required (as_time W) fs ''issuedAt'' = Some iat" "optional (as_time W) fs ''notBefore'' = Some nbf"
      "optional (as_time W) fs ''expires'' = Some ex"
    and c: "c = \<lparr>c_issuer = iss, c_subject = sub, c_issued_at = iat, c_not_before = nbf, c_expires = ex\<rparr>"
    using assms(3) by (auto simp: read_claims_def bind_eq_Some_conv as_struct_def split: json.splits)
  have p: "plain_member fs ''issuedAt''" "plain_member fs ''notBefore''" "plain_member fs ''expires''"
    using assms(2) by (simp_all add: plain_claims_def j members_def)
  have "go_member [] as_str fs ''issuer'' = Some iss" "go_member [] as_str fs ''subject'' = Some sub"
    by (rule required_member [OF r(1)] required_member [OF r(2)]; simp)+
  with required_time [OF assms(1) p(1) r(3)] optional_time [OF assms(1) p(2) r(4)] optional_time [OF assms(1) p(3) r(5)]
  show ?thesis by (simp add: j c go_read_claims_def go_claims_of_def)
qed

text \<open>A whole number as Go's unsigned integers decode it.\<close>

definition as_uint :: "32 word \<Rightarrow> 64 word option" where
  "as_uint w = (if 0 \<le> sint w then Some (go_int w) else None)"

lemma required_uint: "required as_i32 fs k = Some w \<Longrightarrow> go_member 0 as_u64 fs k = as_uint w"
  by (erule required_member) (simp_all add: as_i32_u64 as_uint_def)

lemma required_str: "required as_str fs k = Some x \<Longrightarrow> go_member [] as_str fs k = Some x"
  by (erule required_member) simp_all

lemma required_strs: "required (as_list as_str) fs k = Some x \<Longrightarrow> go_pointer (as_list go_elem) fs k = Some (Some x)"
  by (erule required_pointer) (simp_all add: strings_elems)

lemma optional_strs: "optional (as_list as_str) fs k = Some x \<Longrightarrow> go_pointer (as_list go_elem) fs k = Some x"
  by (drule optional_pointer [where g = "as_list go_elem" and h = id]) (simp_all add: strings_elems option.map_id)

lemma optional_str: "optional as_str fs k = Some x \<Longrightarrow> go_pointer as_str fs k = Some x"
  by (drule optional_pointer [where g = as_str and h = id]) (simp_all add: option.map_id)

lemma optional_int: "optional as_i32 fs k = Some x \<Longrightarrow> go_pointer as_i64 fs k = Some (map_option go_int x)"
  by (erule optional_pointer) (simp add: as_i32_i64)

lemma no_conditions_listed:
  assumes "required (as_list f) fs k = Some x" "hm_get_or (J_arr []) fs k = J_arr []"
  shows "go_pointer (as_list g) fs k = Some (Some x)"
  using assms
  by (auto simp: required_def hm_get_or_def as_list_def go_pointer_def go_member_def split: option.splits)

lemma required_claims:
  assumes "same_times W G" "plain_claims (hm_get_or J_null fs k)" "required (read_claims W) fs k = Some x"
  shows "go_nested (go_read_claims G) fs k = Some (go_claims_of x)"
proof -
  obtain j where j: "hm_get fs k = Some j" "read_claims W j = Some x"
    using assms(3) by (auto simp: required_def split: option.splits)
  with assms(2) have "plain_claims j" by (simp add: hm_get_or_def)
  from claims_agree [OF assms(1) this j(2)] j(1) show ?thesis by (auto simp: go_nested_def as_struct_def)
qed

lemmas agreement =
  required_uint required_str required_strs optional_strs optional_str optional_int optional_member

lemma struct_json: "as_struct j = Some fs \<longleftrightarrow> j = J_obj fs"
  by (simp add: as_struct_def split: json.split)

text \<open>
  What \<^verbatim>\<open>encoding/json\<close> makes of a status the host can read: the same, unless a number of replicas is
  negative.
\<close>

lemma actor_status_agree:
  assumes "same_times W G" "plain_status j" "read_actor_status W j = Some st"
  shows "\<exists>fs. j = J_obj fs \<and> go_read_actor_status G fs =
    (if 0 \<le> sint (ast_replicas st) \<and> 0 \<le> sint (ast_available_replicas st) then Some (go_actor_status_of (Some st)) else None)"
  using assms(2,3)
  by (auto simp: read_actor_status_def bind_eq_Some_conv struct_json go_read_actor_status_def go_actor_status_of_def
      plain_status_def members_def as_uint_def agreement no_conditions_listed required_claims [OF assms(1)])

lemma provider_status_agree:
  assumes "same_times W G" "plain_status j" "read_provider_status W j = Some st"
  shows "\<exists>fs. j = J_obj fs \<and> go_read_provider_status G fs = Some (go_provider_status_of (Some st))"
  using assms(2,3)
  by (auto simp: read_provider_status_def bind_eq_Some_conv struct_json go_read_provider_status_def
      go_provider_status_of_def plain_status_def members_def agreement no_conditions_listed required_claims [OF assms(1)])

lemma link_status_agree:
  assumes "same_times W G" "plain_status j" "read_link_status W j = Some st"
  shows "\<exists>fs. j = J_obj fs \<and> go_read_link_status G fs = Some (go_link_status_of (Some st))"
  using assms(2,3)
  by (auto simp: read_link_status_def bind_eq_Some_conv struct_json go_read_link_status_def
      go_link_status_of_def plain_status_def members_def agreement no_conditions_listed)

lemma actor_spec_agree:
  assumes "read_actor_spec j = Some sp"
  shows "\<exists>fs. j = J_obj fs \<and> go_read_actor_spec fs =
    map_option (\<lambda>n. \<lparr>gas_host = as_host sp, gas_image = as_image sp, gas_replicas = n\<rparr>) (as_uint (as_replicas sp))"
  using assms
  by (auto simp: read_actor_spec_def bind_eq_Some_conv struct_json go_read_actor_spec_def agreement map_conv_bind_option comp_def)

lemma provider_spec_agree:
  assumes "read_provider_spec j = Some sp"
  shows "\<exists>fs. j = J_obj fs \<and>
    go_read_provider_spec fs = Some \<lparr>gps_host = ps_host sp, gps_image = ps_image sp, gps_link = ps_link sp\<rparr>"
  using assms
  by (auto simp: read_provider_spec_def bind_eq_Some_conv struct_json go_read_provider_spec_def agreement)

lemma defaulted_str: "defaulted [] as_str fs k = Some x \<Longrightarrow> go_member [] as_str fs k = Some x"
  by (auto simp: defaulted_def go_member_def split: option.splits)

lemma source_agree:
  assumes "read_source j = Some src"
  shows "\<exists>fs. j = J_obj fs \<and> go_read_source fs = Some src"
  using assms by (auto simp: read_source_def bind_eq_Some_conv struct_json go_read_source_def defaulted_str)

lemma required_source: "required read_source fs k = Some x \<Longrightarrow> go_nested go_read_source fs k = Some x"
  by (erule required_nested) (rule source_agree)

text \<open>Go distinguishes an empty map from a missing one; the host does not.\<close>

definition values_omitted :: "(string, json) hmap \<Rightarrow> bool" where
  "values_omitted fs \<longleftrightarrow> hm_get fs ''values'' \<noteq> Some (J_obj [])"

lemma values_agree:
  assumes "defaulted [] (as_map as_str) fs ''values'' = Some m" "values_omitted fs"
  shows "go_pointer (as_map go_elem) fs ''values'' = Some (if m = [] then None else Some m)"
proof (cases "hm_get fs ''values''")
  case None
  with assms(1) show ?thesis by (simp add: defaulted_def go_pointer_def go_member_def)
next
  case (Some j)
  with assms have m: "as_map as_str j = Some m" "j \<noteq> J_obj []" by (simp_all add: defaulted_def values_omitted_def)
  then have "m \<noteq> []" "j \<noteq> J_null"
    by (auto simp: as_map_def those_Some split: json.splits)
  with Some m(1) show ?thesis by (simp add: go_pointer_def go_member_def map_elems)
qed

lemma link_spec_agree:
  assumes "read_link_spec j = Some sp" "\<And>fs. j = J_obj fs \<Longrightarrow> values_omitted fs"
  shows "\<exists>fs. j = J_obj fs \<and> go_read_link_spec fs = Some (go_link_spec_of sp)"
  using assms
  by (auto simp: read_link_spec_def bind_eq_Some_conv struct_json go_read_link_spec_def go_link_spec_of_def agreement
      defaulted_str required_source values_agree)

definition go_labels_of :: "json \<Rightarrow> labels option" where
  "go_labels_of j = do {
     fs \<leftarrow> as_struct j;
     meta \<leftarrow> go_nested Some fs ''metadata'';
     go_pointer (as_map go_elem) meta ''labels'' }"

lemma object_agree:
  assumes "read_object rspec rstatus j = Some (nm, sp, st)" "go_labels_of j = Some ls"
    and spec: "\<And>fs j'. j = J_obj fs \<Longrightarrow> hm_get fs ''spec'' = Some j' \<Longrightarrow> rspec j' = Some sp \<Longrightarrow>
      \<exists>gs. j' = J_obj gs \<and> gspec gs = sp'"
    and status: "\<And>j' x. st = Some x \<Longrightarrow> hm_get (members j) ''status'' = Some j' \<Longrightarrow> rstatus j' = Some x \<Longrightarrow>
        \<exists>gs. j' = J_obj gs \<and> gstatus gs = st'"
      "st = None \<Longrightarrow> gstatus [] = st'"
  shows "go_read_object gspec gstatus j = Option.bind sp' (\<lambda>a. Option.bind st' (\<lambda>b. Some (nm, ls, a, b)))"
proof -
  obtain fs meta where j: "j = J_obj fs" and m: "required as_struct fs ''metadata'' = Some meta"
    and n: "required as_str meta ''name'' = Some nm" and sp: "required rspec fs ''spec'' = Some sp"
    and st: "optional rstatus fs ''status'' = Some st"
    using assms(1) by (auto simp: read_object_def bind_eq_Some_conv struct_json)
  have meta: "go_nested Some fs ''metadata'' = Some meta"
    by (rule required_nested [OF m]) (simp add: struct_json)
  have name: "go_member [] as_str meta ''name'' = Some nm" by (rule required_str [OF n])
  have ls: "go_pointer (as_map go_elem) meta ''labels'' = Some ls"
    using assms(2) meta by (simp add: go_labels_of_def j as_struct_def)
  obtain j' where j': "hm_get fs ''spec'' = Some j'" "rspec j' = Some sp"
    using sp by (auto simp: required_def split: option.splits)
  then obtain gs where "j' = J_obj gs" "gspec gs = sp'" using spec [OF j] by blast
  with j'(1) have sp': "go_nested gspec fs ''spec'' = sp'" by (simp add: go_nested_def as_struct_def)
  have st': "go_nested gstatus fs ''status'' = st'"
  proof (cases st)
    case None
    with st have "hm_get fs ''status'' \<in> {None, Some J_null}"
      by (auto simp: optional_def split: option.splits if_splits)
    with status(2) [OF None] show ?thesis by (auto simp: go_nested_def)
  next
    case (Some x)
    with st obtain k where k: "hm_get fs ''status'' = Some k" "rstatus k = Some x"
      by (auto simp: optional_def split: option.splits if_splits)
    then obtain gs where "k = J_obj gs" "gstatus gs = st'"
      using status(1) [OF Some, of k] by (auto simp: j members_def)
    with k(1) show ?thesis by (simp add: go_nested_def as_struct_def)
  qed
  show ?thesis by (simp add: go_read_object_def j as_struct_def meta name ls sp' st')
qed

lemma no_status:
  "go_read_actor_status G [] = Some (go_actor_status_of None)"
  "go_read_provider_status G [] = Some (go_provider_status_of None)"
  "go_read_link_status G [] = Some (go_link_status_of None)"
  by (simp_all add: go_read_actor_status_def go_read_provider_status_def go_read_link_status_def go_read_claims_def
      go_nested_def go_member_def go_pointer_def hm_get_def go_actor_status_of_def go_provider_status_of_def
      go_link_status_of_def go_no_claims_def)

end
