(* ===== verification/Kasm_Webhook.thy ===== *)
theory Kasm_Webhook
  imports Kasm_Go
begin

text \<open>
  The admission webhook, a Go program of its own (\<^verbatim>\<open>api/v1alpha1/actor_webhook.go\<close>,
  \<^verbatim>\<open>provider_webhook.go\<close>, \<^verbatim>\<open>link_webhook.go\<close>): the labels it sets, what it refuses, and which edits of a
  resource it therefore lets through to the controllers.
\<close>

text \<open>\<^verbatim>\<open>field.Invalid(path, value, detail)\<close> and \<^verbatim>\<open>apierrors.NewInvalid(kind, name, errs)\<close>.\<close>

record field_error =
  fe_path :: "string list"
  fe_value :: string
  fe_detail :: string

datatype admission_error = Invalid string string "field_error list"

type_synonym admission = "admission_error + unit"

section \<open>Defaulting\<close>

definition made :: "labels \<Rightarrow> (string, string) hmap" where
  "made ls = (case ls of None \<Rightarrow> [] | Some ls \<Rightarrow> ls)"

definition label_if_set :: "string \<Rightarrow> string \<Rightarrow> (string, string) hmap \<Rightarrow> (string, string) hmap" where
  "label_if_set k v ls = (if v \<noteq> [] then hm_insert k v ls else hm_remove k ls)"

definition actor_default :: "go_actor \<Rightarrow> go_actor" where
  "actor_default r =
     (let ls = hm_insert ''host'' (gas_host (ga_spec r)) (made (ga_labels r));
          ls = label_if_set ''publickey'' (gast_public_key (ga_status r)) ls;
          ls = label_if_set ''desc'' (gast_descriptive_name (ga_status r)) ls
      in r\<lparr>ga_labels := Some ls, ga_status := (ga_status r)\<lparr>gast_replicas := gas_replicas (ga_spec r)\<rparr>\<rparr>)"

definition provider_default :: "go_provider \<Rightarrow> go_provider" where
  "provider_default r =
     (let ls = hm_insert ''host'' (gps_host (gp_spec r)) (made (gp_labels r));
          ls = hm_insert ''link'' (gps_link (gp_spec r)) ls;
          ls = label_if_set ''publickey'' (gpst_public_key (gp_status r)) ls;
          ls = label_if_set ''desc'' (gpst_descriptive_name (gp_status r)) ls
      in r\<lparr>gp_labels := Some ls\<rparr>)"

text \<open>\<^verbatim>\<open>strings.ReplaceAll(s, ":", ".")\<close>\<close>

definition dotted :: "string \<Rightarrow> string" where
  "dotted s = map (\<lambda>c. if c = CHR '':'' then CHR ''.'' else c) s"

definition link_default :: "go_link \<Rightarrow> go_link" where
  "link_default r =
     (let ls = hm_insert ''contract'' (dotted (gls_contract_id (gl_spec r))) (made (gl_labels r));
          ls = label_if_set ''providerkey'' (glst_provider_key (gl_status r)) ls;
          ls = label_if_set ''link'' (glst_link_name (gl_status r)) ls;
          ls = label_if_set ''actorkey'' (glst_actor_key (gl_status r)) ls
      in r\<lparr>gl_labels := Some ls\<rparr>)"

section \<open>Validation\<close>

definition refuse_if :: "bool \<Rightarrow> string list \<Rightarrow> string \<Rightarrow> string \<Rightarrow> field_error list" where
  "refuse_if b path v detail = (if b then [\<lparr>fe_path = path, fe_value = v, fe_detail = detail\<rparr>] else [])"

definition verdict :: "string \<Rightarrow> string \<Rightarrow> field_error list \<Rightarrow> admission" where
  "verdict kind nm errs = (if length errs \<noteq> 0 then Inl (Invalid kind nm errs) else Inr ())"

definition actor_validate_update :: "go_actor \<Rightarrow> go_actor \<Rightarrow> admission" where
  "actor_validate_update r old =
     verdict ''Actor'' (ga_name r)
       (refuse_if (gas_host (ga_spec r) \<noteq> gas_host (ga_spec old)) [''spec'', ''host''] (gas_host (ga_spec r))
          ''spec.host could not be changed'')"

definition provider_validate_update :: "go_provider \<Rightarrow> go_provider \<Rightarrow> admission" where
  "provider_validate_update r old =
     verdict ''Provider'' (gp_name r)
       (refuse_if (gps_host (gp_spec r) \<noteq> gps_host (gp_spec old)) [''spec'', ''host''] (gps_host (gp_spec r))
          ''spec.host could not be changed'' @
        refuse_if (gps_link (gp_spec r) \<noteq> gps_link (gp_spec old)) [''spec'', ''link''] (gps_link (gp_spec r))
          ''spec.link could not be changed'')"

definition link_validate :: "go_link \<Rightarrow> field_error list" where
  "link_validate r =
     (let actor = gls_actor (gl_spec r); provider = gls_provider (gl_spec r)
      in refuse_if (src_key actor = [] \<and> src_name actor = []) [''spec'', ''actor''] []
           ''required .spec.actor.name or .spec.actor.key'' @
         (if src_key provider = [] \<and> src_name provider = []
          then refuse_if True [''spec'', ''provider''] [] ''required .spec.provider.name or .spec.provider.key''
          else refuse_if (src_name provider = [] \<and> gls_link_name (gl_spec r) = []) [''spec'', ''linkName''] []
                 ''must set spec.linkName, if only set spec.provider.key''))"

definition link_validate_create :: "go_link \<Rightarrow> admission" where
  "link_validate_create r = verdict ''Link'' (gl_name r) (link_validate r)"

definition link_validate_update :: "go_link \<Rightarrow> go_link \<Rightarrow> admission" where
  "link_validate_update r old =
     (if gl_spec r \<noteq> gl_spec old
      then verdict ''Link'' (gl_name r) (refuse_if True [''spec''] [] ''spec could not be changed'')
      else verdict ''Link'' (gl_name r) (link_validate r))"

section \<open>The controllers' view\<close>

text \<open>What the schema of the resource definition demands (\<^verbatim>\<open>minLength: 1\<close>).\<close>

definition provider_schema :: "provider_resource \<Rightarrow> bool" where
  "provider_schema r \<longleftrightarrow> ps_host (p_spec r) \<noteq> [] \<and> ps_image (p_spec r) \<noteq> [] \<and> ps_link (p_spec r) \<noteq> []"

text \<open>
  The edits of a stored object: an update of the object, which keeps its name and its status (a
  subresource), passes the webhook; a status is patched past the webhook.
\<close>

inductive provider_edit :: "provider_resource \<Rightarrow> provider_resource \<Rightarrow> bool" where
  update: "p_name r' = p_name r \<Longrightarrow> p_status r' = p_status r \<Longrightarrow> provider_schema r' \<Longrightarrow>
    provider_validate_update (provider_default (go_provider_of ls' r')) (go_provider_of ls r) = Inr () \<Longrightarrow>
    provider_edit r r'"
| patch: "provider_edit r (r\<lparr>p_status := Some st\<rparr>)"

inductive link_edit :: "link_resource \<Rightarrow> link_resource \<Rightarrow> bool" where
  update: "l_name r' = l_name r \<Longrightarrow> l_status r' = l_status r \<Longrightarrow>
    link_validate_update (link_default (go_link_of ls' r')) (go_link_of ls r) = Inr () \<Longrightarrow>
    link_edit r r'"
| patch: "link_edit r (r\<lparr>l_status := Some st\<rparr>)"

section \<open>Facts\<close>

lemma verdict_ok [simp]: "verdict kind nm errs = Inr u \<longleftrightarrow> errs = []"
  by (simp add: verdict_def)

lemma refuse_if_ok [simp]: "refuse_if b path v detail = [] \<longleftrightarrow> \<not> b"
  by (simp add: refuse_if_def)

lemma default_keeps [simp]:
  "gp_name (provider_default r) = gp_name r" "gp_spec (provider_default r) = gp_spec r"
  "gp_status (provider_default r) = gp_status r" "gl_name (link_default l) = gl_name l"
  "gl_spec (link_default l) = gl_spec l" "gl_status (link_default l) = gl_status l"
  by (simp_all add: provider_default_def link_default_def Let_def)

text \<open>Host and link of a provider, and the whole spec of a link, stay what they were at the creation.\<close>

lemma provider_edits:
  "provider_edit\<^sup>*\<^sup>* r r' \<Longrightarrow>
   p_name r' = p_name r \<and> ps_host (p_spec r') = ps_host (p_spec r) \<and> ps_link (p_spec r') = ps_link (p_spec r)"
proof (induction rule: rtranclp_induct)
  case (step r' r'')
  from step.hyps(2) step.IH show ?case
    by cases (auto simp: provider_validate_update_def go_provider_of_def)
qed simp

lemma link_edits:
  "link_edit\<^sup>*\<^sup>* r r' \<Longrightarrow> l_name r' = l_name r \<and> go_link_spec_of (l_spec r') = go_link_spec_of (l_spec r)"
proof (induction rule: rtranclp_induct)
  case (step r' r'')
  from step.hyps(2) step.IH show ?case
    by cases (auto simp: link_validate_update_def go_link_of_def split: if_splits)
qed simp

lemma go_link_spec_of_eq:
  assumes "go_link_spec_of spec' = go_link_spec_of spec"
  shows "ls_link_name spec' = ls_link_name spec" "ls_provider spec' = ls_provider spec"
    "ls_actor spec' = ls_actor spec" "ls_contract_id spec' = ls_contract_id spec"
    "hm_get (ls_values spec') = hm_get (ls_values spec)"
  using assms by (auto simp: go_link_spec_of_def hm_Nil_iff fun_eq_iff split: if_splits)

text \<open>The webhook's labels are a function of the object: defaulting again changes nothing.\<close>

lemma label_if_set_get:
  "hm_get (label_if_set k v ls) k' = (if k' = k then (if v = [] then None else Some v) else hm_get ls k')"
  by (simp add: label_if_set_def)

end
