(* ===== verification/Kasm_Webhook_Props.thy ===== *)
theory Kasm_Webhook_Props
  imports Kasm_Webhook Kasm_Controller_Props Kasm_Provider_Props
begin

text \<open>
  The webhook and the controllers together: what an admitted history of edits guarantees to the
  controllers that clean a resource up, which admitted links the controllers give up, and the process an
  admitted change of a provider's image leaves behind.
\<close>

section \<open>Lemmas\<close>

lemma run_provider_cleanup:
  assumes "ps_host (p_spec r) = name (ctx_host d)" "p_status r = Some st" "pst_public_key st \<noteq> []"
  shows "ctx_host (snd (run_provider Y (Cleanup r) d)) =
    snd (stop_provider (cx_provider Y) (ps_link (p_spec r)) (pst_public_key st) (ctx_host d))"
  using assms by (simp add: run_provider_def ctl_delete_provider_def case_prod_beta split: sum.split)

lemma run_provider_apply:
  assumes "ps_host (p_spec r) = name (ctx_host c)"
    and "start_provider (cx_provider X) (ps_link (p_spec r)) (ps_image (p_spec r)) (ctx_host c) = (Inr claims, t)"
  shows "ctx_host (snd (run_provider X (Apply r) c)) = t"
  using assms by (simp add: run_provider_def ctl_reconcile_provider_def Let_def)

lemma stop_provider_child_at:
  "child_at (snd (stop_provider X l k s)) k' l' = (if k' = k \<and> l' = l then None else child_at s k' l')"
  by (simp add: stop_provider_eq child_at_without)

lemma start_provider_child_at:
  assumes "providers_inv s" "start_provider X l r s = (Inr claims, t)" "(k', l') \<noteq> (subject claims, l)"
  shows "child_at t k' l' = child_at s k' l'"
proof (rule start_provider_cases [OF providers_invD(4) [OF assms(1)], of X l r])
  fix c p u es
  assume pu: "provider_entry c r s = (p, u)"
    and st: "start_provider X l r s = (Inr c,
      (emit es (u\<lparr>children := children s @ [next_child s], next_child := Suc (next_child s)\<rparr>))
        \<lparr>providers := hm_insert (subject c)
           (p\<lparr>pr_instances := hm_insert l \<lparr>pi_child = next_child s, pi_id = ulid_new X\<rparr> (pr_instances p)\<rparr>)
           (providers u)\<rparr>)"
  have "child_at u k' l' = child_at s k' l'"
    using provider_entry_frames(7) [OF pu] by simp
  with assms(2,3) st child_at_put [OF provider_entry_get [OF pu]] show ?thesis by auto
qed (use assms in auto)

text \<open>The public key of the actor a link names, when the API server can tell.\<close>

definition actor_known :: "ctl_ext \<Rightarrow> link_spec \<Rightarrow> bool" where
  "actor_known X spec \<longleftrightarrow> src_key (ls_actor spec) \<noteq> [] \<or>
     (\<exists>a st. cx_get_actor X (src_name (ls_actor spec)) = Inr a \<and> a_status a = Some st \<and> ast_public_key st \<noteq> [])"

lemma resolve_actor_validated:
  assumes "src_key (ls_actor spec) \<noteq> [] \<or> src_name (ls_actor spec) \<noteq> []" "ld_actor_id ld = []"
  obtains (known) k where "actor_known X spec" "resolve_actor X spec ld = Inr (ld\<lparr>ld_actor_id := k\<rparr>)"
  | (retry) j where "\<not> actor_known X spec" "resolve_actor X spec ld = Inl (Requeue j)"
proof (cases "src_key (ls_actor spec) = []")
  case False
  with assms known show ?thesis by (simp add: actor_known_def resolve_actor_def)
next
  case True
  show ?thesis
  proof (cases "cx_get_actor X (src_name (ls_actor spec))")
    case (Inl e)
    with assms True retry show ?thesis by (simp add: actor_known_def resolve_actor_def)
  next
    case (Inr a)
    with assms True known retry show ?thesis
      by (cases "a_status a"; cases "ast_public_key (the (a_status a)) = []")
        (simp_all add: actor_known_def resolve_actor_def)
  qed
qed

lemma resolve_provider_given_up:
  assumes "src_key (ls_provider spec) \<noteq> [] \<or> src_name (ls_provider spec) \<noteq> []" "ld_provider_id ld = []"
  shows "resolve_provider X spec ld = Inl Await_change \<longleftrightarrow>
    src_name (ls_provider spec) \<noteq> [] \<and> ld_link_name ld \<noteq> [] \<and>
    (\<exists>p. cx_get_provider X (src_name (ls_provider spec)) = Inr p \<and> ps_link (p_spec p) \<noteq> ld_link_name ld)"
  using assms by (auto simp: resolve_provider_def Let_def split: sum.split option.split)

lemma link_validated:
  assumes "link_validate (go_link_of ls r) = []"
  shows "src_key (ls_actor (l_spec r)) \<noteq> [] \<or> src_name (ls_actor (l_spec r)) \<noteq> []"
    and "src_key (ls_provider (l_spec r)) \<noteq> [] \<or> src_name (ls_provider (l_spec r)) \<noteq> []"
    and "src_name (ls_provider (l_spec r)) \<noteq> [] \<or> ls_link_name (l_spec r) \<noteq> []"
  using assms
  by (auto simp: link_validate_def go_link_of_def go_link_spec_of_def Let_def split: if_splits)

text \<open>The provider of \<^verbatim>\<open>sample.yaml\<close>, and an image with another key.\<close>

definition http_provider :: provider_resource where
  "http_provider = \<lparr>p_name = ''httpserver'',
     p_spec = \<lparr>ps_host = ''default'', ps_image = ''httpserver:0.17.0'', ps_link = ''test''\<rparr>, p_status = None\<rparr>"

definition other_claims :: provider_claims where
  "other_claims = http_claims\<lparr>subject := ''VOTHER''\<rparr>"

definition other_ctl :: ctl_ext where
  "other_ctl = (sample_ctl link_up)\<lparr>cx_provider :=
     http_ext\<lparr>fetch_provider := (\<lambda>_ _ _ _. Inr (''/tmp/other'', other_claims))\<rparr>\<rparr>"

lemma other_starts:
  obtains u where "start_provider (cx_provider other_ctl) ''test'' ''other:1'' http_running = (Inr other_claims, u)"
  by (simp add: other_ctl_def http_running_def start_provider_def provider_entry_def build_host_data_def launch_def
      feed_stdin_def sample_defs other_claims_def Let_def provider_links_def hm_values_def emit_def hm_get_def
      u64_try_from_def out_of_range_def)

section \<open>Properties\<close>

text \<open>
  C15. The webhook lets neither the host nor the link name of a provider change. So whatever edits of a
  \<^verbatim>\<open>Provider\<close> it admits and whatever else happens in between, the cleanup of the edited resource stops the
  process that applying the original one started, as long as its status names the key that was started.
\<close>

theorem admitted_provider_is_stopped:
  assumes "system_inv D (ctx_host c)" "ps_host (p_spec r) = name (ctx_host c)" "subject claims \<noteq> []"
    and "start_provider (cx_provider X) (ps_link (p_spec r)) (ps_image (p_spec r)) (ctx_host c) = (Inr claims, t)"
    and "(ctl_step D)\<^sup>*\<^sup>* (snd (run_provider X (Apply r) c)) d"
    and "provider_edit\<^sup>*\<^sup>* r r'" "p_status r' = Some (provider_status_of (cx_status X) claims)"
  shows "child_at (ctx_host (snd (run_provider X (Apply r) c))) (subject claims) (ps_link (p_spec r)) \<noteq> None \<and>
    child_at (ctx_host (snd (run_provider Y (Cleanup r') d))) (subject claims) (ps_link (p_spec r)) = None"
proof -
  have "(ctl_step D)\<^sup>*\<^sup>* c d"
    using ctl_step.provider_event [of D c X "Apply r"] assms(5) by (rule converse_rtranclp_into_rtranclp)
  then have "name (ctx_host d) = name (ctx_host c)" using assms(1) by (rule ctl_steps_name)
  then have "ps_host (p_spec r') = name (ctx_host d)"
    using provider_edits [OF assms(6)] assms(2) by simp
  then have "child_at (ctx_host (snd (run_provider Y (Cleanup r') d))) (subject claims) (ps_link (p_spec r)) = None"
    using provider_edits [OF assms(6)] assms(3,7)
    by (simp add: run_provider_cleanup [where st = "provider_status_of (cx_status X) claims"] stop_provider_child_at)
  moreover have "child_at t (subject claims) (ps_link (p_spec r)) \<noteq> None"
    by (rule start_provider_ok [OF assms(4)])
  ultimately show ?thesis using run_provider_apply [OF assms(2,4)] by simp
qed

theorem admitted_provider_is_stopped_witness:
  "child_at (ctx_host (snd (run_provider (sample_ctl link_up)
     (Cleanup (http_provider\<lparr>p_status := Some (provider_status_of (cx_status (sample_ctl link_up)) http_claims)\<rparr>))
     (snd (run_provider (sample_ctl link_up) (Apply http_provider) sample_ctx))))) ''VHTTP'' ''test'' = None"
proof -
  let ?X = "sample_ctl link_up"
  let ?r = "http_provider\<lparr>p_status := Some (provider_status_of (cx_status ?X) http_claims)\<rparr>"
  have start: "start_provider (cx_provider ?X) (ps_link (p_spec http_provider)) (ps_image (p_spec http_provider))
      (ctx_host sample_ctx) = (Inr http_claims, http_running)"
    using http_starts by (simp add: http_provider_def sample_ctx_def sample_ctl_def)
  have edit: "provider_edit\<^sup>*\<^sup>* http_provider ?r" by (rule r_into_rtranclp) (rule provider_edit.patch)
  have "system_inv sample_digest (ctx_host sample_ctx)"
    using sample_system_inv by (simp add: sample_ctx_def)
  moreover have "ps_host (p_spec http_provider) = name (ctx_host sample_ctx)"
    by (simp add: http_provider_def sample_ctx_def sample_host_def)
  moreover have cl: "subject http_claims = ''VHTTP''" "ps_link (p_spec http_provider) = ''test''"
    by (simp_all add: http_claims_def http_provider_def)
  ultimately show ?thesis
    using admitted_provider_is_stopped [OF _ _ _ start rtranclp.rtrancl_refl edit, of sample_digest ?X] by simp
qed

text \<open>
  C34. The image of a provider may be changed. If the new image has another key, a second process is
  started, the status is overwritten with the new key, and the cleanup of the resource stops only the
  second process: the first one keeps running.
\<close>

theorem changed_image_strands_provider:
  assumes "system_inv D (ctx_host c)" "ps_host (p_spec r) = name (ctx_host c)" "provider_schema r" "img \<noteq> []"
    and "start_provider (cx_provider X) (ps_link (p_spec r)) (ps_image (p_spec r)) (ctx_host c) = (Inr claims, t)"
    and "start_provider (cx_provider Y) (ps_link (p_spec r)) img t = (Inr claims', u)"
    and "subject claims' \<noteq> subject claims" "subject claims' \<noteq> []"
    and "r' = r\<lparr>p_spec := (p_spec r)\<lparr>ps_image := img\<rparr>\<rparr>"
    and "r'' = r'\<lparr>p_status := Some (provider_status_of (cx_status Y) claims')\<rparr>"
    and "d = snd (run_provider Y (Apply r') (snd (run_provider X (Apply r) c)))"
  shows "provider_edit r r' \<and> provider_edit r' r'' \<and>
    (\<exists>p. child_at t (subject claims) (ps_link (p_spec r)) = Some p \<and>
       child_at (ctx_host (snd (run_provider Z (Cleanup r'') d))) (subject claims) (ps_link (p_spec r)) = Some p \<and>
       p \<in> set (children (ctx_host (snd (run_provider Z (Cleanup r'') d)))))"
proof -
  let ?l = "ps_link (p_spec r)" and ?c1 = "snd (run_provider X (Apply r) c)"
  let ?e = "snd (run_provider Z (Cleanup r'') d)"
  have "provider_edit r r'"
    using assms(3,4) by (intro provider_edit.update [of _ _ None None])
      (auto simp: assms(9) provider_schema_def provider_validate_update_def go_provider_of_def)
  moreover have "provider_edit r' r''" unfolding assms(10) by (rule provider_edit.patch)
  moreover have t: "ctx_host ?c1 = t" by (rule run_provider_apply [OF assms(2,5)])
  have steps: "ctl_step D c ?c1" "ctl_step D ?c1 d" "ctl_step D d ?e"
    unfolding assms(11) by (rule ctl_step.provider_event)+
  then have cd: "(ctl_step D)\<^sup>*\<^sup>* c ?c1" "(ctl_step D)\<^sup>*\<^sup>* c d" "(ctl_step D)\<^sup>*\<^sup>* c ?e" by auto
  have nm: "name (ctx_host ?c1) = name (ctx_host c)" "name (ctx_host d) = name (ctx_host c)"
    using ctl_steps_name [OF cd(1) assms(1)] ctl_steps_name [OF cd(2) assms(1)] by simp_all
  have pinv: "providers_inv t" "providers_inv (ctx_host ?e)"
    using ctl_sys.steps_inv [OF cd(1) assms(1)] ctl_sys.steps_inv [OF cd(3) assms(1)]
    by (simp_all add: t system_inv_def)
  have u: "ctx_host d = u"
    unfolding assms(11) using assms(2,6) nm(1) t by (intro run_provider_apply) (simp_all add: assms(9))
  obtain p where p: "child_at t (subject claims) ?l = Some p"
    by (rule start_provider_ok [OF assms(5)]) auto
  have "child_at u (subject claims) ?l = Some p"
    using start_provider_child_at [OF pinv(1) assms(6), of "subject claims" ?l] assms(7) p by simp
  then have "child_at (ctx_host ?e) (subject claims) ?l = Some p"
    using assms(2,7,8) nm(2) u
    by (subst run_provider_cleanup [where st = "provider_status_of (cx_status Y) claims'"])
      (simp_all add: assms(9,10) stop_provider_child_at)
  moreover have "p \<in> set (children (ctx_host ?e))"
    using calculation(3) providers_invD(6) [OF pinv(2)] by blast
  ultimately show ?thesis using p by blast
qed

theorem changed_image_strands_provider_witness:
  "\<exists>r' d p. provider_edit http_provider r' \<and>
     child_at (ctx_host (snd (run_provider other_ctl (Cleanup (r'\<lparr>p_status := Some (provider_status_of (cx_status other_ctl) other_claims)\<rparr>)) d)))
       ''VHTTP'' ''test'' = Some p"
proof -
  let ?X = "sample_ctl link_up"
  have start: "start_provider (cx_provider ?X) (ps_link (p_spec http_provider)) (ps_image (p_spec http_provider))
      (ctx_host sample_ctx) = (Inr http_claims, http_running)"
    using http_starts by (simp add: http_provider_def sample_ctx_def sample_ctl_def)
  have cl: "subject http_claims = ''VHTTP''" "subject other_claims = ''VOTHER''" "ps_link (p_spec http_provider) = ''test''"
    by (simp_all add: http_claims_def other_claims_def http_provider_def)
  obtain u where u: "start_provider (cx_provider other_ctl) (ps_link (p_spec http_provider)) ''other:1'' http_running = (Inr other_claims, u)"
    unfolding cl(3) by (rule other_starts)
  have "system_inv sample_digest (ctx_host sample_ctx)" "ps_host (p_spec http_provider) = name (ctx_host sample_ctx)"
    "provider_schema http_provider"
    using sample_system_inv by (simp_all add: sample_ctx_def http_provider_def sample_host_def provider_schema_def)
  from changed_image_strands_provider [OF this _ start u _ _ refl refl refl, where Z = other_ctl] cl
  show ?thesis by auto
qed

text \<open>
  A link that the webhook admits and that has no status yet is given up for good in two cases only:
  it names its provider by resource and by key but sets no link name, or its link name is not the one of
  the provider resource it names. In every other case it is registered or tried again.
\<close>

theorem admitted_link_given_up:
  assumes "link_validate (go_link_of ls r) = []" "l_status r = None"
    and "ld_actor_id (cx_default_ld X) = []" "ld_provider_id (cx_default_ld X) = []" "ld_link_name (cx_default_ld X) = []"
  shows "resolve_link X r = Inl Await_change \<longleftrightarrow>
    ls_link_name (l_spec r) = [] \<and> src_key (ls_provider (l_spec r)) \<noteq> [] \<or>
    ls_link_name (l_spec r) \<noteq> [] \<and> actor_known X (l_spec r) \<and> src_name (ls_provider (l_spec r)) \<noteq> [] \<and>
    (\<exists>p. cx_get_provider X (src_name (ls_provider (l_spec r))) = Inr p \<and> ps_link (p_spec p) \<noteq> ls_link_name (l_spec r))"
proof (cases "ls_link_name (l_spec r) = [] \<and> src_key (ls_provider (l_spec r)) \<noteq> []")
  case True
  then show ?thesis by (simp add: resolve_link_def link_of_spec_def)
next
  case False
  let ?spec = "l_spec r"
  note valid = link_validated [OF assms(1)]
  obtain ld1 where ld1: "link_of_spec X ?spec = Inr ld1" "ld_actor_id ld1 = []" "ld_provider_id ld1 = []"
    "ls_link_name ?spec \<noteq> [] \<Longrightarrow> ld_link_name ld1 = ls_link_name ?spec"
    "ls_link_name ?spec = [] \<Longrightarrow> ld_link_name ld1 = ld_link_name (cx_default_ld X)"
    using False assms(3,4) by (cases "ls_link_name ?spec = []") (auto simp: link_of_spec_def)
  show ?thesis
  proof (rule resolve_actor_validated [OF valid(1) ld1(2), of X])
    fix k assume k: "actor_known X ?spec" "resolve_actor X ?spec ld1 = Inr (ld1\<lparr>ld_actor_id := k\<rparr>)"
    then have "resolve_link X r = Inl Await_change \<longleftrightarrow>
        resolve_provider X ?spec (ld1\<lparr>ld_actor_id := k\<rparr>) = Inl Await_change"
      using ld1(1) assms(2) by (simp add: resolve_link_def link_of_status_def)
    then show ?thesis
      using resolve_provider_given_up [OF valid(2), of "ld1\<lparr>ld_actor_id := k\<rparr>" X] ld1 k(1) False assms(5)
      by (cases "ls_link_name ?spec = []") auto
  next
    fix j assume "\<not> actor_known X ?spec" "resolve_actor X ?spec ld1 = Inl (Requeue j)"
    then show ?thesis using ld1(1) assms(2) False by (simp add: resolve_link_def link_of_status_def)
  qed
qed

theorem admitted_link_given_up_witness:
  "resolve_link (sample_ctl link_up) (http_link\<lparr>l_spec := (l_spec http_link)\<lparr>ls_link_name := [],
      ls_provider := \<lparr>src_key = ''VHTTP'', src_name = ''httpserver''\<rparr>\<rparr>\<rparr>) = Inl Await_change"
  (is "resolve_link ?X ?r = _")
proof -
  have "link_validate (go_link_of None ?r) = []" "l_status ?r = None"
    by (simp_all add: link_validate_def go_link_of_def go_link_spec_of_def http_link_def)
  from admitted_link_given_up [OF this, of ?X] show ?thesis by (simp add: sample_ctl_def)
qed

text \<open>
  C16. The webhook lets no part of a link's spec change. So the cleanup of an admitted link, whatever edits
  came before it, releases the reference that adding it took: the status written for it is complete, names
  the same identifier, and the cleanup takes exactly this resource out of the references of this link.
\<close>

theorem admitted_link_is_released:
  assumes "link_validate (go_link_of ls r) = []" "l_status r = None" "resolve_link X r = Inr ld"
    and "ld_provider_id (cx_default_ld X) = []" "\<forall>nm p. cx_get_provider X nm = Inr p \<longrightarrow> provider_schema p"
    and "link_edit\<^sup>*\<^sup>* r r'" "l_status r' = Some (link_status_of ld)"
  shows "status_complete (link_status_of ld) \<and> link_status_id (l_spec r') (link_status_of ld) = link_id ld \<and>
    refs_of (ctx_links (snd (run_link Y (Cleanup r') d))) i =
      (if i = link_id ld then refs_of (ctx_links d) i - {l_name r} else refs_of (ctx_links d) i)"
proof (rule resolve_link_parts [OF assms(3)])
  assume f: "ld_actor_id ld \<noteq> []" "ld_provider_id ld \<noteq> []" "ld_contract_id ld = ls_contract_id (l_spec r)"
  have "ld_link_name ld \<noteq> []"
    using assms(2,3,4,5) link_validated [OF assms(1)]
    by (auto simp: resolve_link_def link_of_spec_def link_of_status_def resolve_actor_def resolve_provider_def
        Let_def provider_schema_def split: if_splits sum.splits option.splits)
  with f have st: "status_complete (link_status_of ld)"
    by (simp add: status_complete_def link_status_of_def)
  note spec = link_edits [OF assms(6)]
  have id: "link_status_id (l_spec r') (link_status_of ld) = link_id ld"
    using go_link_spec_of_eq(4) [of "l_spec r'" "l_spec r"] spec f(3)
    by (simp add: link_status_id_def link_id_def link_status_of_def)
  obtain q tbl u where rel: "release_link (delete_linkdef (cx_digest Y) (cx_link Y)) (l_name r') (link_id ld)
      (ctx_links d, ctx_host d) = (q, tbl, u)" by (metis prod_cases3)
  then have "ctx_links (snd (run_link Y (Cleanup r') d)) = tbl"
    using assms(7) st id by (simp add: run_link_def ctl_delete_link_def split: sum.split)
  then show ?thesis using release_link_refs [OF rel, of i] spec st id by simp
qed

theorem admitted_link_is_released_witness:
  "''httpserver-echo'' \<in> refs_of (ctx_links linked_ctx) (link_id echo_ld) \<and>
   ''httpserver-echo'' \<notin> refs_of (ctx_links (snd (run_link (sample_ctl link_up)
      (Cleanup (http_link\<lparr>l_status := Some (link_status_of echo_ld)\<rparr>)) linked_ctx))) (link_id echo_ld)"
proof -
  have edit: "link_edit\<^sup>*\<^sup>* http_link (http_link\<lparr>l_status := Some (link_status_of echo_ld)\<rparr>)"
    by (rule r_into_rtranclp) (rule link_edit.patch)
  have "link_validate (go_link_of None http_link) = []" "l_status http_link = None" "l_name http_link = ''httpserver-echo''"
    by (simp_all add: link_validate_def go_link_of_def go_link_spec_of_def http_link_def)
  moreover have "ld_provider_id (cx_default_ld (sample_ctl link_up)) = []"
    "\<forall>nm p. cx_get_provider (sample_ctl link_up) nm = Inr p \<longrightarrow> provider_schema p"
    by (simp_all add: sample_ctl_def)
  ultimately show ?thesis
    using admitted_link_is_released [OF _ _ _ _ _ edit, of None "sample_ctl link_up" echo_ld "sample_ctl link_up" linked_ctx "link_id echo_ld"]
      http_link_resolves [of link_up]
    by (simp add: linked_ctx_fields refs_of_def hm_get_def)
qed

text \<open>
  The mutating webhooks are idempotent, as the API server requires of them, and the labels a selector
  sees are those of the object: its host, and its key exactly when its status has one.
\<close>

theorem defaulting_idempotent:
  "provider_default (provider_default r) = provider_default r \<and>
   actor_default (actor_default a) = actor_default a \<and> link_default (link_default l) = link_default l \<and>
   (\<exists>ls. gp_labels (provider_default r) = Some ls \<and> hm_get ls ''host'' = Some (gps_host (gp_spec r)) \<and>
      hm_get ls ''link'' = Some (gps_link (gp_spec r)) \<and>
      hm_get ls ''publickey'' = (if gpst_public_key (gp_status r) = [] then None else Some (gpst_public_key (gp_status r))))"
proof -
  have ins: "hm_insert k v ls = ls" if "hm_get ls k = Some v" for k v and ls :: "(string, string) hmap"
    using that by (rule hm_insert_self)
  have lab: "label_if_set k v ls = ls" if "hm_get ls k = (if v = [] then None else Some v)"
    for k v and ls :: "(string, string) hmap"
    using that by (simp add: label_if_set_def hm_insert_self hm_remove_absent)
  show ?thesis
    by (simp add: provider_default_def actor_default_def link_default_def Let_def made_def label_if_set_get ins lab)
qed

end
