(* ===== verification/Kasm_Config.thy ===== *)
theory Kasm_Config
  imports Kasm_Host_State
begin

text \<open>
  The start of the program (\<^verbatim>\<open>src/main.rs\<close>: \<^verbatim>\<open>KasmCloudConfig\<close>, \<^verbatim>\<open>get_hostname\<close>, the configuration
  part of \<^verbatim>\<open>main\<close>): from the sources of the settings to the configuration of the host.
\<close>

record kasmcloud_config =
  kc_temporary :: bool
  kc_host_name :: "string option"
  kc_nats_host :: string
  kc_nats_port :: "16 word"
  kc_nats_jwt :: "string option"
  kc_nats_seed :: "string option"
  kc_js_domain :: "string option"
  kc_host_seed :: "string option"
  kc_cluster_seed :: "string option"
  kc_cluster_issuers :: "string list option"
  kc_log_level :: string
  kc_enable_structured_logging :: bool
  kc_otel_traces_exporter :: "string option"
  kc_otel_exporter_otlp_endpoint :: "string option"

section \<open>Settings\<close>

text \<open>
  The sources of the settings, as the package \<^verbatim>\<open>config\<close> presents them: values by name, from the variables of
  the environment with the prefix and from the file, if there is one at the path; and how it converts a
  value to the type of a field, and a text or a flag to a value.
\<close>

record 'v settings_ext =
  sx_env :: "string \<rightharpoonup> 'v"
  sx_file :: "(string \<rightharpoonup> 'v) res option"
  sx_text :: "string \<Rightarrow> 'v"
  sx_flag :: "bool \<Rightarrow> 'v"
  sx_bool :: "'v \<Rightarrow> bool res"
  sx_string :: "'v \<Rightarrow> string res"
  sx_u16 :: "'v \<Rightarrow> 16 word res"
  sx_strings :: "'v \<Rightarrow> string list res"

definition default_settings :: "'v settings_ext \<Rightarrow> (string \<rightharpoonup> 'v)" where
  "default_settings S =
     [''nats_host'' \<mapsto> sx_text S ''127.0.0.1'', ''nats_port'' \<mapsto> sx_text S ''4222'', ''log_level'' \<mapsto> sx_text S ''info'',
      ''enable_structured_logging'' \<mapsto> sx_flag S False, ''temporary'' \<mapsto> sx_flag S False]"

text \<open>A source that is added later overrides the earlier ones, and all of them the defaults.\<close>

definition settings :: "'v settings_ext \<Rightarrow> (string \<rightharpoonup> 'v) res" where
  "settings S =
     (let builder = default_settings S ++ sx_env S
      in case sx_file S of
           None \<Rightarrow> Inr builder
         | Some file \<Rightarrow> and_then file (\<lambda>layer. Inr (builder ++ layer)))"

definition setting :: "('v \<Rightarrow> 'a res) \<Rightarrow> (string \<rightharpoonup> 'v) \<Rightarrow> string \<Rightarrow> 'a res" where
  "setting conv m k = (case m k of None \<Rightarrow> Inl (Msg (''missing field `'' @ k @ ''`'')) | Some v \<Rightarrow> conv v)"

definition setting_opt :: "('v \<Rightarrow> 'a res) \<Rightarrow> (string \<rightharpoonup> 'v) \<Rightarrow> string \<Rightarrow> 'a option res" where
  "setting_opt conv m k = (case m k of None \<Rightarrow> Inr None | Some v \<Rightarrow> and_then (conv v) (\<lambda>x. Inr (Some x)))"

definition read_settings :: "'v settings_ext \<Rightarrow> kasmcloud_config res" where
  "read_settings S =
     and_then (settings S) (\<lambda>m.
     and_then (setting (sx_bool S) m ''temporary'') (\<lambda>tmp.
     and_then (setting_opt (sx_string S) m ''host_name'') (\<lambda>host_name.
     and_then (setting (sx_string S) m ''nats_host'') (\<lambda>nats_host.
     and_then (setting (sx_u16 S) m ''nats_port'') (\<lambda>nats_port.
     and_then (setting_opt (sx_string S) m ''nats_jwt'') (\<lambda>nats_jwt.
     and_then (setting_opt (sx_string S) m ''nats_seed'') (\<lambda>nats_seed.
     and_then (setting_opt (sx_string S) m ''js_domain'') (\<lambda>js_domain.
     and_then (setting_opt (sx_string S) m ''host_seed'') (\<lambda>host_seed.
     and_then (setting_opt (sx_string S) m ''cluster_seed'') (\<lambda>cluster_seed.
     and_then (setting_opt (sx_strings S) m ''cluster_issuers'') (\<lambda>issuers.
     and_then (setting (sx_string S) m ''log_level'') (\<lambda>log_level.
     and_then (setting (sx_bool S) m ''enable_structured_logging'') (\<lambda>structured.
     and_then (setting_opt (sx_string S) m ''otel_traces_exporter'') (\<lambda>exporter.
     and_then (setting_opt (sx_string S) m ''otel_exporter_otlp_endpoint'') (\<lambda>endpoint.
     Inr \<lparr>kc_temporary = tmp, kc_host_name = host_name, kc_nats_host = nats_host, kc_nats_port = nats_port,
       kc_nats_jwt = nats_jwt, kc_nats_seed = nats_seed, kc_js_domain = js_domain, kc_host_seed = host_seed,
       kc_cluster_seed = cluster_seed, kc_cluster_issuers = issuers, kc_log_level = log_level,
       kc_enable_structured_logging = structured, kc_otel_traces_exporter = exporter,
       kc_otel_exporter_otlp_endpoint = endpoint\<rparr>)))))))))))))))"

section \<open>The configuration of the host\<close>

text \<open>
  What \<^verbatim>\<open>main\<close> takes from outside: the name generator, the parsers of key seeds, URLs and log levels.
\<close>

record config_ext =
  generate_name :: "string option"
  from_seed :: "string \<Rightarrow> key_pair res"
  url_parse :: "string \<Rightarrow> string res"
  parse_level :: "string \<Rightarrow> string res"

definition get_hostname :: "config_ext \<Rightarrow> kasmcloud_config \<Rightarrow> string res" where
  "get_hostname X c =
     (case kc_host_name c of
        Some host_name \<Rightarrow> Inr host_name
      | None \<Rightarrow>
          if \<not> kc_temporary c then Inl (Msg ''require host name'')
          else some_or ''generated failed'' (generate_name X))"

text \<open>Decimal formatting of an unsigned integer.\<close>

fun dec :: "nat \<Rightarrow> string" where
  "dec n = (if n < 10 then [char_of (48 + n)] else dec (n div 10) @ [char_of (48 + n mod 10)])"

declare dec.simps [simp del]

text \<open>\<^verbatim>\<open>seed.map(KeyPair::from_seed).transpose()\<close>\<close>

definition key_of_seed :: "config_ext \<Rightarrow> string option \<Rightarrow> key_pair option res" where
  "key_of_seed X sd =
     (case sd of None \<Rightarrow> Inr None | Some sd \<Rightarrow> map_sum (\<lambda>e. e) Some (from_seed X sd))"

definition nats_url :: "kasmcloud_config \<Rightarrow> string" where
  "nats_url c = ''nats://'' @ kc_nats_host c @ '':'' @ dec (unat (kc_nats_port c))"

definition build_host_config :: "config_ext \<Rightarrow> kasmcloud_config \<Rightarrow> (string \<times> host_config) res" where
  "build_host_config X c =
     and_then (get_hostname X c) (\<lambda>hostname.
     and_then (with_context ''invalid log_level'' (parse_level X (kc_log_level c))) (\<lambda>log_level.
     and_then (with_context ''failed to contruct host key pair from seed''
        (key_of_seed X (kc_host_seed c))) (\<lambda>hk.
     and_then (with_context ''failed to contruct cluster key pair from seed''
        (key_of_seed X (kc_cluster_seed c))) (\<lambda>ck.
     and_then (with_context ''failed to contruct NATS key pair from seed''
        (key_of_seed X (kc_nats_seed c))) (\<lambda>nk.
     and_then (with_context ''failed to parse nats'' (url_parse X (nats_url c))) (\<lambda>url.
     let rpc = \<lparr>nc_url = url, nc_timeout = Some 2000, nc_jwt = kc_nats_jwt c, nc_key = nk,
                nc_tls = False\<rparr>
     in Inr (hostname,
          \<lparr>hc_allow_file_load = True, hc_rpc_config = rpc,
           hc_prov_rpc_config = rpc\<lparr>nc_timeout := None\<rparr>, hc_lattice_prefix = ''default'',
           hc_js_domain = kc_js_domain c, hc_host_key = hk, hc_cluster_key = ck,
           hc_cluster_issuers = kc_cluster_issuers c, hc_log_level = Some log_level\<rparr>)))))))"

text \<open>
  The outcome of creating the \<^verbatim>\<open>KasmCloudHost\<close> object: an API error carries a reason; every other
  error of the client is of another kind.
\<close>

datatype kube_error = Api_error string | Client_error string

section \<open>Facts\<close>

text \<open>The file is asked first, then the environment, then the defaults.\<close>

definition layered :: "'v settings_ext \<Rightarrow> string \<Rightarrow> 'v option" where
  "layered S k =
     (case (case sx_file S of Some (Inr file) \<Rightarrow> file k | _ \<Rightarrow> None) of
        Some v \<Rightarrow> Some v
      | None \<Rightarrow> (case sx_env S k of Some v \<Rightarrow> Some v | None \<Rightarrow> default_settings S k))"

lemma settings_eq:
  "settings S = (case sx_file S of Some (Inl e) \<Rightarrow> Inl e | _ \<Rightarrow> Inr (layered S))"
proof -
  have "default_settings S ++ sx_env S = layered S" if "sx_file S = None"
    using that by (simp add: layered_def map_add_def fun_eq_iff split: option.split)
  moreover have "(default_settings S ++ sx_env S) ++ m = layered S" if "sx_file S = Some (Inr m)" for m
    using that by (simp add: layered_def map_add_def fun_eq_iff split: option.split)
  ultimately show ?thesis
    by (auto simp: settings_def Let_def and_then_def split: option.split sum.split)
qed

lemma settings_layered: "settings S = Inr m \<Longrightarrow> m = layered S"
  by (auto simp: settings_eq split: option.splits sum.splits)

text \<open>Every field of the settings is the one of the layers, converted to its type.\<close>

definition from_layers :: "'v settings_ext \<Rightarrow> kasmcloud_config \<Rightarrow> bool" where
  "from_layers S c \<longleftrightarrow>
     setting (sx_bool S) (layered S) ''temporary'' = Inr (kc_temporary c) \<and>
     setting_opt (sx_string S) (layered S) ''host_name'' = Inr (kc_host_name c) \<and>
     setting (sx_string S) (layered S) ''nats_host'' = Inr (kc_nats_host c) \<and>
     setting (sx_u16 S) (layered S) ''nats_port'' = Inr (kc_nats_port c) \<and>
     setting_opt (sx_string S) (layered S) ''nats_jwt'' = Inr (kc_nats_jwt c) \<and>
     setting_opt (sx_string S) (layered S) ''nats_seed'' = Inr (kc_nats_seed c) \<and>
     setting_opt (sx_string S) (layered S) ''js_domain'' = Inr (kc_js_domain c) \<and>
     setting_opt (sx_string S) (layered S) ''host_seed'' = Inr (kc_host_seed c) \<and>
     setting_opt (sx_string S) (layered S) ''cluster_seed'' = Inr (kc_cluster_seed c) \<and>
     setting_opt (sx_strings S) (layered S) ''cluster_issuers'' = Inr (kc_cluster_issuers c) \<and>
     setting (sx_string S) (layered S) ''log_level'' = Inr (kc_log_level c) \<and>
     setting (sx_bool S) (layered S) ''enable_structured_logging'' = Inr (kc_enable_structured_logging c) \<and>
     setting_opt (sx_string S) (layered S) ''otel_traces_exporter'' = Inr (kc_otel_traces_exporter c) \<and>
     setting_opt (sx_string S) (layered S) ''otel_exporter_otlp_endpoint'' = Inr (kc_otel_exporter_otlp_endpoint c)"

lemma read_settings_layered: "read_settings S = Inr c \<Longrightarrow> from_layers S c"
  by (auto simp: read_settings_def from_layers_def and_then_Inr dest!: settings_layered)

text \<open>The defaults cover the required fields, so that nothing is ever missing.\<close>

lemma is_ok_and_then: "is_ok r \<Longrightarrow> (\<And>x. is_ok (f x)) \<Longrightarrow> is_ok (and_then r f)"
  by (cases r) simp_all

definition converts :: "('v \<Rightarrow> 'a res) \<Rightarrow> 'v settings_ext \<Rightarrow> string \<Rightarrow> bool" where
  "converts conv S k \<longleftrightarrow> (\<forall>v. layered S k = Some v \<longrightarrow> is_ok (conv v))"

lemma setting_ok: "k \<in> dom (default_settings S) \<Longrightarrow> converts conv S k \<Longrightarrow> is_ok (setting conv (layered S) k)"
  by (auto simp: setting_def layered_def converts_def split: option.splits)

lemma setting_opt_ok: "converts conv S k \<Longrightarrow> is_ok (setting_opt conv (layered S) k)"
  by (auto simp: setting_opt_def converts_def intro: is_ok_and_then split: option.split)

lemma read_settings_complete:
  assumes "is_ok (settings S)" "converts (sx_u16 S) S ''nats_port''" "converts (sx_strings S) S ''cluster_issuers''"
    and "\<forall>k \<in> {''temporary'', ''enable_structured_logging''}. converts (sx_bool S) S k"
    and "\<forall>k \<in> {''host_name'', ''nats_host'', ''nats_jwt'', ''nats_seed'', ''js_domain'', ''host_seed'', ''cluster_seed'',
      ''log_level'', ''otel_traces_exporter'', ''otel_exporter_otlp_endpoint''}. converts (sx_string S) S k"
  shows "is_ok (read_settings S)"
proof -
  have m: "settings S = Inr (layered S)"
    using assms(1) by (auto simp: settings_eq split: option.splits sum.splits)
  show ?thesis
    unfolding read_settings_def m and_then_simps
    using assms(2-5)
    by (intro is_ok_and_then setting_ok setting_opt_ok) (simp_all add: default_settings_def)
qed

lemma get_hostname_named: "kc_host_name c = Some nm \<Longrightarrow> get_hostname X c = Inr nm"
  by (simp add: get_hostname_def)

text \<open>Whatever the settings, the two connections share the address and the credentials.\<close>

lemma build_host_config_ok:
  assumes "build_host_config X c = Inr (nm, cfg)"
  shows "get_hostname X c = Inr nm" "hc_prov_rpc_config cfg = (hc_rpc_config cfg)\<lparr>nc_timeout := None\<rparr>"
    "hc_lattice_prefix cfg = ''default''" "hc_cluster_issuers cfg = kc_cluster_issuers c"
    "nc_timeout (hc_rpc_config cfg) = Some 2000" "url_parse X (nats_url c) = Inr (nc_url (hc_rpc_config cfg))"
  using assms by (auto simp: build_host_config_def and_then_Inr Let_def)

end
