(* ===== verification/Kasm_Main.thy ===== *)
theory Kasm_Main
  imports Kasm_Config Kasm_Controller
begin

text \<open>
  The start of the program as a whole (\<^verbatim>\<open>src/main.rs\<close>: \<^verbatim>\<open>main\<close>): the settings are read, the host is created and announced as a \<^verbatim>\<open>KasmCloudHost\<close> object, its status is written, and the controllers
  are handed their context. Every step before may end the program.
\<close>

text \<open>
  What the steps take from outside: the API client, the outcome of creating the object (with the text of
  the error message), the node name in the environment and the outcome of the first status patch.
\<close>

record main_ext =
  mx_config :: config_ext
  mx_new :: new_ext
  mx_client :: "unit res"
  mx_create :: "kube_error + unit"
  mx_show_error :: "kube_error \<Rightarrow> string"
  mx_node_name :: "string option"
  mx_patch_status :: "kasmcloud_host_status \<Rightarrow> unit res"
  mx_timestamp_opt :: "int \<Rightarrow> datetime option"
  mx_min_utc :: datetime

text \<open>The program ends with an error, panics (an environment variable is unwrapped), or serves.\<close>

datatype start = Exits error | Panics | Serves ctx

definition create_host_object :: "main_ext \<Rightarrow> unit res" where
  "create_host_object X =
     (case mx_create X of
        Inr _ \<Rightarrow> Inr ()
      | Inl err \<Rightarrow>
          (case err of
             Api_error reason \<Rightarrow>
               if reason \<noteq> ''AlreadyExists''
               then Inl (Msg (''failed to create KasmCloudHost: '' @ mx_show_error X err)) else Inr ()
           | Client_error _ \<Rightarrow> Inl (Msg (''failed to create KasmCloudHost: '' @ mx_show_error X err))))"

definition status_env :: "main_ext \<Rightarrow> string \<Rightarrow> status_ext" where
  "status_env X node = \<lparr>timestamp_opt = mx_timestamp_opt X, min_utc = mx_min_utc X, node_name = node\<rparr>"

definition main_start :: "main_ext \<Rightarrow> kasmcloud_config \<Rightarrow> start" where
  "main_start X c =
     (case and_then (build_host_config (mx_config X) c) (\<lambda>(hostname, host_config).
           and_then (with_context ''failed new actor handler'' (host_new (mx_new X) hostname host_config)) (\<lambda>host.
           and_then (mx_client X) (\<lambda>_.
           and_then (create_host_object X) (\<lambda>_. Inr host)))) of
        Inl e \<Rightarrow> Exits e
      | Inr host \<Rightarrow>
          (case mx_node_name X of
             None \<Rightarrow> Panics
           | Some node \<Rightarrow>
               let status = host_status_of (status_env X node) host
               in case mx_patch_status X status of
                    Inl e \<Rightarrow> Exits e
                  | Inr _ \<Rightarrow>
                      Serves \<lparr>ctx_host = host, ctx_links = [], ctx_patches = [Patch_host (name host) status]\<rparr>))"

definition main_program :: "main_ext \<Rightarrow> 'v settings_ext \<Rightarrow> start" where
  "main_program X S = (case read_settings S of Inl e \<Rightarrow> Exits e | Inr c \<Rightarrow> main_start X c)"

lemma main_start_serves:
  assumes "main_start X c = Serves d"
  obtains hostname cfg node where "build_host_config (mx_config X) c = Inr (hostname, cfg)"
    "host_new (mx_new X) hostname cfg = Inr (ctx_host d)" "mx_node_name X = Some node" "ctx_links d = []"
    "ctx_patches d = [Patch_host (name (ctx_host d)) (host_status_of (status_env X node) (ctx_host d))]"
    "mx_create X \<in> {Inr (), Inl (Api_error ''AlreadyExists'')}"
  using assms
  by (auto simp: main_start_def create_host_object_def and_then_Inr Let_def
      split: sum.splits option.splits if_splits kube_error.splits)

text \<open>Of the outcomes of creating the host object, a success and an object that is there already are the same.\<close>

lemma main_start_create_cong:
  "create_host_object (X\<lparr>mx_create := z\<rparr>) = create_host_object X \<Longrightarrow> main_start (X\<lparr>mx_create := z\<rparr>) c = main_start X c"
  by (simp add: main_start_def status_env_def cong: sum.case_cong option.case_cong)

lemma main_start_exists:
  assumes "main_start X c = Serves d"
  shows "main_start (X\<lparr>mx_create := Inl (Api_error ''AlreadyExists'')\<rparr>) c = Serves d"
proof -
  have "mx_create X \<in> {Inr (), Inl (Api_error ''AlreadyExists'')}" by (rule main_start_serves [OF assms])
  then have "create_host_object (X\<lparr>mx_create := Inl (Api_error ''AlreadyExists'')\<rparr>) = create_host_object X"
    by (auto simp: create_host_object_def)
  from main_start_create_cong [OF this] assms show ?thesis by simp
qed

lemma main_start_refused:
  assumes "main_start X c = Serves d" "err \<noteq> Api_error ''AlreadyExists''"
  shows "\<exists>e. main_start (X\<lparr>mx_create := Inl err\<rparr>) c = Exits e"
proof -
  obtain m where m: "create_host_object (X\<lparr>mx_create := Inl err\<rparr>) = Inl m"
    using assms(2) by (cases err) (simp_all add: create_host_object_def)
  have "mx_client X = Inr ()" using assms(1) by (cases "mx_client X") (auto simp: main_start_def and_then_Inr split: sum.splits)
  with m show ?thesis
    by (rule_tac main_start_serves [OF assms(1)]) (simp add: main_start_def)
qed

end
