(* ===== verification/Kasm_Crd.thy ===== *)
theory Kasm_Crd
  imports Kasm_Wire
begin

text \<open>
  The resource definitions (\<^verbatim>\<open>deploy/crds\<close>), which \<^verbatim>\<open>controller-gen\<close> derives from the Go types and their
  \<^verbatim>\<open>kubebuilder\<close> markers: the schemas against which the API server checks every object it stores.
\<close>

section \<open>Schemas\<close>

text \<open>
  The constructs of OpenAPI that the definitions use: strings with a least length, strings with a least and a
  greatest length and a pattern, \<^verbatim>\<open>date-time\<close> strings, enumerations, integers without and with the format
  \<^verbatim>\<open>int64\<close>, the latter also with the minimum 0, arrays, maps (\<^verbatim>\<open>additionalProperties\<close>), objects of any
  kind, and structs with their properties and the required ones. What matches a regular expression is a
  parameter.
\<close>

datatype schema =
    S_string nat
  | S_limited nat nat "string option"
  | S_time
  | S_enum "string list"
  | S_integer
  | S_int64
  | S_count
  | S_array schema
  | S_map schema
  | S_any
  | S_struct "(string \<times> schema) list" "string list"

record crd_ext =
  date_time :: "string \<Rightarrow> bool"
  matches :: "string \<Rightarrow> string \<Rightarrow> bool"

text \<open>
  A value that is accepted and of which nothing is pruned: every member of a struct is declared.
\<close>

inductive conforms :: "crd_ext \<Rightarrow> schema \<Rightarrow> json \<Rightarrow> bool" for V :: crd_ext where
  string: "n \<le> length s \<Longrightarrow> conforms V (S_string n) (J_str s)"
| limited: "n \<le> length s \<Longrightarrow> length s \<le> m \<Longrightarrow> (\<And>re. p = Some re \<Longrightarrow> matches V re s) \<Longrightarrow>
    conforms V (S_limited n m p) (J_str s)"
| time: "date_time V s \<Longrightarrow> conforms V S_time (J_str s)"
| enum: "s \<in> set ss \<Longrightarrow> conforms V (S_enum ss) (J_str s)"
| integer: "conforms V S_integer (J_int n)"
| int64: "- (2 ^ 63) \<le> n \<Longrightarrow> n < 2 ^ 63 \<Longrightarrow> conforms V S_int64 (J_int n)"
| count: "0 \<le> n \<Longrightarrow> n < 2 ^ 63 \<Longrightarrow> conforms V S_count (J_int n)"
| array: "(\<And>x. x \<in> set xs \<Longrightarrow> conforms V sc x) \<Longrightarrow> conforms V (S_array sc) (J_arr xs)"
| mapping: "(\<And>k v. hm_get fs k = Some v \<Longrightarrow> conforms V sc v) \<Longrightarrow> conforms V (S_map sc) (J_obj fs)"
| any: "conforms V S_any (J_obj fs)"
| struct: "(\<And>k v. hm_get fs k = Some v \<Longrightarrow> \<exists>sc. map_of props k = Some sc \<and> conforms V sc v) \<Longrightarrow>
    (\<And>k. k \<in> set reqs \<Longrightarrow> hm_get fs k \<noteq> None) \<Longrightarrow> conforms V (S_struct props reqs) (J_obj fs)"

inductive_simps conforms_simps [simp]:
  "conforms V (S_string n) (J_str s)"
  "conforms V S_time (J_str s)"
  "conforms V S_integer (J_int n)"
  "conforms V S_int64 (J_int n)"
  "conforms V (S_array sc) (J_arr xs)"
  "conforms V S_any (J_obj fs)"

inductive_cases conforms_structE: "conforms V (S_struct props reqs) j"

section \<open>The resource definitions\<close>

definition claims_schema :: schema where
  "claims_schema =
     S_struct [(''expires'', S_time), (''issuedAt'', S_time), (''issuer'', S_string 0), (''notBefore'', S_time),
       (''subject'', S_string 0)]
       [''issuedAt'', ''issuer'', ''subject'']"

definition condition_schema :: schema where
  "condition_schema =
     S_struct [(''lastTransitionTime'', S_time), (''message'', S_limited 0 32768 None),
       (''observedGeneration'', S_count),
       (''reason'', S_limited 1 1024 (Some ''^[A-Za-z]([A-Za-z0-9_,:]*[A-Za-z0-9_])?$'')),
       (''status'', S_enum [''True'', ''False'', ''Unknown'']),
       (''type'', S_limited 0 316 (Some (''^([a-z0-9]([-a-z0-9]*[a-z0-9])?('' @ [CHR 0x5C] @
          ''.[a-z0-9]([-a-z0-9]*[a-z0-9])?)*/)?(([A-Za-z0-9][-A-Za-z0-9_.]*)?[A-Za-z0-9])$'')))]
       [''lastTransitionTime'', ''message'', ''reason'', ''status'', ''type'']"

definition actor_spec_schema :: schema where
  "actor_spec_schema =
     S_struct [(''host'', S_string 1), (''image'', S_string 1), (''replicas'', S_integer)]
       [''host'', ''image'', ''replicas'']"

definition actor_status_schema :: schema where
  "actor_status_schema =
     S_struct [(''availableReplicas'', S_integer), (''callAlias'', S_string 0),
       (''capabilityProvider'', S_array (S_string 0)), (''caps'', S_array (S_string 0)),
       (''claims'', claims_schema), (''conditions'', S_array condition_schema), (''descriptiveName'', S_string 0),
       (''publicKey'', S_string 0), (''replicas'', S_integer), (''reversion'', S_integer),
       (''version'', S_string 0)]
       [''availableReplicas'', ''claims'', ''conditions'', ''publicKey'', ''replicas'']"

definition provider_spec_schema :: schema where
  "provider_spec_schema =
     S_struct [(''host'', S_string 1), (''image'', S_string 1), (''link'', S_string 1)]
       [''host'', ''image'', ''link'']"

definition provider_status_schema :: schema where
  "provider_status_schema =
     S_struct [(''architectureTargets'', S_array (S_string 0)), (''claims'', claims_schema),
       (''conditions'', S_array condition_schema), (''contractId'', S_string 0), (''descriptiveName'', S_string 0),
       (''instanceId'', S_string 0), (''publicKey'', S_string 0), (''reversion'', S_integer),
       (''vendor'', S_string 0), (''version'', S_string 0)]
       [''architectureTargets'', ''claims'', ''conditions'', ''contractId'', ''instanceId'', ''publicKey'', ''vendor'']"

definition source_schema :: schema where
  "source_schema = S_struct [(''key'', S_string 0), (''name'', S_string 0)] []"

definition link_spec_schema :: schema where
  "link_spec_schema =
     S_struct [(''actor'', source_schema), (''contractId'', S_string 1), (''linkName'', S_string 0),
       (''provider'', source_schema), (''values'', S_map (S_string 0))]
       [''actor'', ''contractId'', ''provider'']"

definition link_status_schema :: schema where
  "link_status_schema =
     S_struct [(''actorKey'', S_string 0), (''conditions'', S_array condition_schema), (''linkName'', S_string 0),
       (''providerKey'', S_string 0)]
       [''actorKey'', ''conditions'', ''linkName'', ''providerKey'']"

definition host_spec_schema :: schema where
  "host_spec_schema = S_struct [(''clusterIssuers'', S_array (S_string 0))] []"

definition host_status_schema :: schema where
  "host_status_schema =
     S_struct [(''actors'', S_struct [(''count'', S_int64), (''instanceCount'', S_int64)] [''count'', ''instanceCount'']),
       (''clusterIssuers'', S_array (S_string 0)), (''clusterPublicKey'', S_string 0), (''instance'', S_string 0),
       (''kubeNodeName'', S_string 0), (''preInstance'', S_string 0),
       (''providers'', S_struct [(''count'', S_int64)] [''count'']), (''publicKey'', S_string 0)]
       [''actors'', ''clusterIssuers'', ''clusterPublicKey'', ''providers'', ''publicKey'']"

text \<open>An object: \<^verbatim>\<open>apiVersion\<close>, \<^verbatim>\<open>kind\<close>, \<^verbatim>\<open>metadata\<close>, and its spec and status, none of which is required.\<close>

definition object_schema :: "schema \<Rightarrow> schema \<Rightarrow> schema" where
  "object_schema spec status =
     S_struct [(''apiVersion'', S_string 0), (''kind'', S_string 0), (''metadata'', S_any), (''spec'', spec),
       (''status'', status)] []"

definition actor_crd :: schema where
  "actor_crd = object_schema actor_spec_schema actor_status_schema"

definition provider_crd :: schema where
  "provider_crd = object_schema provider_spec_schema provider_status_schema"

definition link_crd :: schema where
  "link_crd = object_schema link_spec_schema link_status_schema"

definition host_crd :: schema where
  "host_crd = object_schema host_spec_schema host_status_schema"

section \<open>Merging into an object that conforms\<close>

text \<open>What a member of a patch is good for: it removes what is not required, or gives a value that conforms.\<close>

definition fits :: "crd_ext \<Rightarrow> (json \<Rightarrow> json \<Rightarrow> json) \<Rightarrow> schema \<Rightarrow> json \<Rightarrow> bool" where
  "fits V mg sc v \<longleftrightarrow> (\<forall>old. old = J_null \<or> conforms V sc old \<longrightarrow> conforms V sc (mg old v))"

lemma struct_member:
  assumes "conforms V (S_struct props reqs) (J_obj os)" "hm_get os k = Some v"
  obtains sc where "map_of props k = Some sc" "conforms V sc v"
  by (rule conforms_structE [OF assms(1)]) (use assms(2) that in blast)

lemma merged_conforms:
  assumes "merge_patch mg" "hm_wf ps"
    and old: "old = J_null \<or> conforms V (S_struct props reqs) old"
    and ps: "\<And>k v. hm_get ps k = Some v \<Longrightarrow> v \<noteq> J_null \<Longrightarrow> \<exists>sc. map_of props k = Some sc \<and> fits V mg sc v"
    and reqs: "\<And>k. k \<in> set reqs \<Longrightarrow> (\<exists>v. hm_get ps k = Some v \<and> v \<noteq> J_null) \<or> old \<noteq> J_null \<and> hm_get ps k = None"
  shows "conforms V (S_struct props reqs) (mg old (J_obj ps))"
proof -
  obtain fs where fs: "mg old (J_obj ps) = J_obj fs" "merged mg old ps fs"
    by (rule merge_object [OF assms(1,2)])
  have mem: "\<exists>sc. map_of props k = Some sc \<and> conforms V sc v" if "hm_get (members old) k = Some v" for k v
  proof -
    have "old \<noteq> J_null" using that by (auto simp: members_def)
    with old have c: "conforms V (S_struct props reqs) old" by blast
    then obtain os where "old = J_obj os" by (auto elim: conforms_structE)
    with that c show ?thesis by (auto simp: members_def elim: struct_member)
  qed
  have req: "hm_get (members old) k \<noteq> None" if "k \<in> set reqs" "old \<noteq> J_null" for k
  proof -
    from that(2) old have "conforms V (S_struct props reqs) old" by blast
    then show ?thesis by (rule conforms_structE) (use that(1) in \<open>simp add: members_def\<close>)
  qed
  have "conforms V (S_struct props reqs) (J_obj fs)"
  proof (rule conforms.struct)
    fix k v
    assume v: "hm_get fs k = Some v"
    show "\<exists>sc. map_of props k = Some sc \<and> conforms V sc v"
    proof (cases "hm_get ps k")
      case None
      with v mem show ?thesis using merged_get(3) [OF fs(2) None] by simp
    next
      case (Some w)
      with v have w: "w \<noteq> J_null" using merged_get(2) [OF fs(2)] by auto
      then obtain sc where sc: "map_of props k = Some sc" "fits V mg sc w" using ps [OF Some] by blast
      have "v = mg (hm_get_or J_null (members old) k) w" using merged_get(1) [OF fs(2) Some w] v by simp
      moreover have "hm_get_or J_null (members old) k = J_null \<or> conforms V sc (hm_get_or J_null (members old) k)"
        using mem [of k] sc(1) by (auto simp: hm_get_or_def split: option.split)
      ultimately have "conforms V sc v" using sc(2) [unfolded fits_def, rule_format] by (simp only:)
      with sc(1) show ?thesis by blast
    qed
  next
    fix k
    assume k: "k \<in> set reqs"
    from reqs [OF k] show "hm_get fs k \<noteq> None"
    proof
      assume "\<exists>v. hm_get ps k = Some v \<and> v \<noteq> J_null"
      then show ?thesis using merged_get(1) [OF fs(2), of k] by auto
    next
      assume "old \<noteq> J_null \<and> hm_get ps k = None"
      then show ?thesis using merged_get(3) [OF fs(2), of k] req [OF k] by simp
    qed
  qed
  then show ?thesis by (simp add: fs(1))
qed

lemma fits_struct:
  assumes "merge_patch mg" "hm_wf ps"
    and "\<And>k v. hm_get ps k = Some v \<Longrightarrow> v \<noteq> J_null \<Longrightarrow> \<exists>sc. map_of props k = Some sc \<and> fits V mg sc v"
    and "\<And>k. k \<in> set reqs \<Longrightarrow> \<exists>v. hm_get ps k = Some v \<and> v \<noteq> J_null"
  shows "fits V mg (S_struct props reqs) (J_obj ps)"
  unfolding fits_def using merged_conforms [OF assms(1,2)] assms(3,4) by metis

lemma fits_leaf:
  assumes "merge_patch mg"
  shows "fits V mg (S_string 0) (J_str s)" "fits V mg S_integer (i32_json w)"
    "fits V mg (S_array (S_string 0)) (strs_json xs)" "fits V mg (S_array condition_schema) (J_arr [])"
    "date_time V (wx_write_time W d) \<Longrightarrow> fits V mg S_time (time_json W d)"
    "uint n < 2 ^ 63 \<Longrightarrow> fits V mg S_int64 (u64_json n)"
  using order.trans [OF _ uint_ge_0, of "- (2 ^ 63)" n]
  by (auto simp: fits_def merge_value [OF assms] i32_json_def strs_json_def time_json_def u64_json_def)

section \<open>The statuses the host writes\<close>

text \<open>A schema's members are looked up by computation.\<close>

lemmas member_simps = hm_get_def hm_wf_def opt_json_def

lemma claims_fit:
  assumes "merge_patch mg" "\<forall>d \<in> claims_times c. date_time V (wx_write_time W d)"
  shows "fits V mg claims_schema (claims_json W c)"
  unfolding claims_schema_def claims_json_def
proof (rule fits_struct [OF assms(1)])
  fix k v
  assume "hm_get [(''issuer'', J_str (c_issuer c)), (''subject'', J_str (c_subject c)),
       (''issuedAt'', time_json W (c_issued_at c)), (''notBefore'', opt_json (time_json W) (c_not_before c)),
       (''expires'', opt_json (time_json W) (c_expires c))] k = Some v" "v \<noteq> J_null"
  then show "\<exists>sc. map_of [(''expires'', S_time), (''issuedAt'', S_time), (''issuer'', S_string 0),
      (''notBefore'', S_time), (''subject'', S_string 0)] k = Some sc \<and> fits V mg sc v"
    using assms(2) fits_leaf [OF assms(1)]
    by (auto simp: member_simps claims_times_def split: if_splits option.splits)
qed (auto simp: member_simps time_json_def)

lemma actor_status_fits:
  assumes "merge_patch mg" "ast_conditions st = []"
    and "\<forall>d \<in> claims_times (ast_claims st). date_time V (wx_write_time W d)"
  shows "fits V mg actor_status_schema (actor_status_json W st)"
  unfolding actor_status_schema_def actor_status_json_def
proof (rule fits_struct [OF assms(1)], goal_cases)
  case (2 k v)
  then show ?case
    using assms(2) fits_leaf [OF assms(1)] claims_fit [OF assms(1,3)]
    by (auto simp: member_simps split: if_splits option.splits)
next
  case (3 k)
  then show ?case by (simp add: member_simps i32_json_def claims_json_def) (elim disjE; simp)
qed (simp add: member_simps)

lemma provider_status_fits:
  assumes "merge_patch mg" "pst_conditions st = []"
    and "\<forall>d \<in> claims_times (pst_claims st). date_time V (wx_write_time W d)"
  shows "fits V mg provider_status_schema (provider_status_json W st)"
  unfolding provider_status_schema_def provider_status_json_def
proof (rule fits_struct [OF assms(1)], goal_cases)
  case (2 k v)
  then show ?case
    using assms(2) fits_leaf [OF assms(1)] claims_fit [OF assms(1,3)]
    by (auto simp: member_simps split: if_splits option.splits)
next
  case (3 k)
  then show ?case by (simp add: member_simps strs_json_def claims_json_def) (elim disjE; simp)
qed (simp add: member_simps)

lemma link_status_fits:
  assumes "merge_patch mg" "lst_conditions st = []"
  shows "fits V mg link_status_schema (link_status_json W st)"
  unfolding link_status_schema_def link_status_json_def
proof (rule fits_struct [OF assms(1)], goal_cases)
  case (2 k v)
  then show ?case
    using assms(2) fits_leaf [OF assms(1)] by (auto simp: member_simps split: if_splits)
next
  case (3 k)
  then show ?case by (simp add: member_simps) (elim disjE; simp)
qed (simp add: member_simps)

lemma host_status_fits:
  assumes "merge_patch mg" "uint (hps_count (hst_providers st)) < 2 ^ 63"
    and "uint (has_count (hst_actors st)) < 2 ^ 63" "uint (has_instance_count (hst_actors st)) < 2 ^ 63"
  shows "fits V mg host_status_schema (host_status_json st)"
proof -
  note leaf = fits_leaf [OF assms(1)]
  have "fits V mg (S_struct [(''count'', S_int64)] [''count'']) (host_providers_json (hst_providers st))"
    unfolding host_providers_json_def
    by (rule fits_struct [OF assms(1)])
      (auto simp: member_simps u64_json_def leaf(6) [OF assms(2), unfolded u64_json_def] split: if_splits)
  moreover have "fits V mg (S_struct [(''count'', S_int64), (''instanceCount'', S_int64)] [''count'', ''instanceCount''])
      (host_actors_json (hst_actors st))"
    unfolding host_actors_json_def
    by (rule fits_struct [OF assms(1)])
      (auto simp: member_simps u64_json_def leaf(6) [OF assms(3), unfolded u64_json_def]
        leaf(6) [OF assms(4), unfolded u64_json_def] split: if_splits)
  ultimately have nested: "fits V mg (S_struct [(''count'', S_int64)] [''count'']) (host_providers_json (hst_providers st))"
    "fits V mg (S_struct [(''count'', S_int64), (''instanceCount'', S_int64)] [''count'', ''instanceCount''])
      (host_actors_json (hst_actors st))" by blast+
  show ?thesis
    unfolding host_status_schema_def host_status_json_def
  proof (rule fits_struct [OF assms(1)], goal_cases)
    case (2 k v)
    then show ?case using leaf(1,3) nested by (auto simp: member_simps split: if_splits)
  next
    case (3 k)
    then show ?case
      by (simp add: member_simps strs_json_def host_providers_json_def host_actors_json_def) (elim disjE; simp)
  qed (simp add: member_simps)
qed

text \<open>Patching the status of an object that conforms.\<close>

lemma status_conforms:
  assumes "merge_patch mg" "fits V mg status j" "j \<noteq> J_null" "conforms V (object_schema spec status) obj"
  shows "conforms V (object_schema spec status) (mg obj (J_obj [(''status'', j)]))"
  unfolding object_schema_def
proof (rule merged_conforms [OF assms(1)])
  show "obj = J_null \<or> conforms V (S_struct [(''apiVersion'', S_string 0), (''kind'', S_string 0),
      (''metadata'', S_any), (''spec'', spec), (''status'', status)] []) obj"
    using assms(4) by (simp add: object_schema_def)
qed (use assms(2) in \<open>auto simp: member_simps split: if_splits\<close>)

end
