(* ===== verification/Kasm_Sample_Wire.thy ===== *)
theory Kasm_Sample_Wire
  imports Kasm_Crd Kasm_Go Kasm_Webhook_Props
begin

text \<open>
  Concrete stand-ins for what the API server and the packages do with JSON, and the resources of
  \<^verbatim>\<open>sample.yaml\<close> as JSON: inputs at which the theorems on the wire format are instantiated.
\<close>

section \<open>A merge patch\<close>

text \<open>The pseudo-code of RFC 7386.\<close>

fun merge_json :: "json \<Rightarrow> json \<Rightarrow> json"
  and merge_members :: "(string, json) hmap \<Rightarrow> (string, json) hmap \<Rightarrow> (string, json) hmap" where
  "merge_json t (J_obj ps) = J_obj (merge_members (members t) ps)"
| "merge_json t J_null = J_null"
| "merge_json t (J_bool b) = J_bool b"
| "merge_json t (J_int n) = J_int n"
| "merge_json t (J_str s) = J_str s"
| "merge_json t (J_arr xs) = J_arr xs"
| "merge_members fs [] = fs"
| "merge_members fs ((k, v) # ps) =
     merge_members (if v = J_null then hm_remove k fs
       else hm_insert k (merge_json (hm_get_or J_null fs k) v) fs) ps"

lemma merge_members_get:
  "hm_wf ps \<Longrightarrow> hm_get (merge_members fs ps) k =
     (case hm_get ps k of
        None \<Rightarrow> hm_get fs k
      | Some v \<Rightarrow> if v = J_null then None else Some (merge_json (hm_get_or J_null fs k) v))"
proof (induction ps arbitrary: fs)
  case Nil
  then show ?case by simp
next
  case (Cons p ps)
  obtain k' v where p: "p = (k', v)" by (cases p)
  have wf: "hm_wf ps" and k': "hm_get ps k' = None"
    using Cons.prems by (auto simp: p hm_wf_def hm_get_def map_of_eq_None_iff)
  have get: "hm_get (p # ps) k = (if k = k' then Some v else hm_get ps k)" by (simp add: p hm_get_def)
  show ?case
    using Cons.IH [OF wf] k' by (auto simp: p get [unfolded p] hm_get_or_def split: option.split)
qed

lemma merge_json_patch: "merge_patch merge_json"
  unfolding merge_patch_def
proof (intro allI)
  fix t p
  show "case p of
      J_obj ps \<Rightarrow> hm_wf ps \<longrightarrow>
        (\<exists>fs. merge_json t p = J_obj fs \<and>
          (\<forall>k. hm_get fs k =
            (case hm_get ps k of
               None \<Rightarrow> hm_get (members t) k
             | Some v \<Rightarrow> if v = J_null then None else Some (merge_json (hm_get_or J_null (members t) k) v))))
    | _ \<Rightarrow> merge_json t p = p"
    by (cases p) (simp_all add: merge_members_get)
qed

section \<open>Times\<close>

text \<open>A time is written in strokes; what matters is that it is read as it was written.\<close>

definition write_strokes :: "datetime \<Rightarrow> string" where
  "write_strokes t = (if t < 0 then ''-'' else ''+'') @ replicate (nat \<bar>t\<bar>) (CHR ''I'')"

definition read_strokes :: "string \<Rightarrow> datetime option" where
  "read_strokes s =
     (case s of
        [] \<Rightarrow> None
      | sign # strokes \<Rightarrow> Some (if sign = CHR ''-'' then - int (length strokes) else int (length strokes)))"

lemma read_strokes: "read_strokes (write_strokes t) = Some t"
  by (simp add: read_strokes_def write_strokes_def)

definition sample_wire :: wire_ext where
  "sample_wire = \<lparr>wx_write_time = write_strokes, wx_read_time = read_strokes, wx_write_condition = J_str,
     wx_read_condition = as_str\<rparr>"

text \<open>
  A reader of times in the plain form, for the two readings of one object: the days since 1970 of the civil
  date, counted from March, and the seconds of the day. That a day is in its month is not checked.
\<close>

definition decimal :: "string \<Rightarrow> int" where
  "decimal s = foldl (\<lambda>n c. 10 * n + (of_char c - 48)) 0 s"

definition civil_days :: "int \<Rightarrow> int \<Rightarrow> int \<Rightarrow> int" where
  "civil_days y m d =
     (let y = (if m \<le> 2 then y - 1 else y); m = (if m \<le> 2 then m + 9 else m - 3)
      in 365 * y + y div 4 - y div 100 + y div 400 + (153 * m + 2) div 5 + d - 1 - 719468)"

definition read_plain :: "string \<Rightarrow> datetime option" where
  "read_plain s =
     (if plain_time s
      then Some (86400 * civil_days (decimal (take 4 s)) (decimal (take 2 (drop 5 s))) (decimal (take 2 (drop 8 s))) +
        3600 * decimal (take 2 (drop 11 s)) + 60 * decimal (take 2 (drop 14 s)) + decimal (take 2 (drop 17 s)))
      else None)"

definition plain_wire :: wire_ext where
  "plain_wire = sample_wire\<lparr>wx_read_time := read_plain\<rparr>"

definition sample_go :: go_ext where
  "sample_go = \<lparr>gx_read_time = read_plain, gx_read_condition = as_str\<rparr>"

lemma sample_same_times: "same_times plain_wire sample_go"
  by (simp add: same_times_def plain_wire_def sample_go_def)

lemma read_plain_2024: "read_plain ''2024-01-31T23:59:59Z'' = Some 1706745599"
  by code_simp

section \<open>Objects\<close>

definition http_object :: json where
  "http_object =
     J_obj [(''apiVersion'', J_str ''kasmcloud.io/v1alpha1''), (''kind'', J_str ''Provider''),
       (''metadata'', J_obj [(''name'', J_str ''httpserver'')]),
       (''spec'', J_obj [(''host'', J_str ''default''), (''image'', J_str ''httpserver:0.17.0''), (''link'', J_str ''test'')])]"

text \<open>The same with a status.\<close>

definition http_stored :: json where
  "http_stored =
     J_obj [(''metadata'', J_obj [(''name'', J_str ''httpserver'')]),
       (''spec'', J_obj [(''host'', J_str ''default''), (''image'', J_str ''httpserver:0.17.0''), (''link'', J_str ''test'')]),
       (''status'', J_obj [(''publicKey'', J_str ''VHTTP''), (''contractId'', J_str ''wasmcloud:httpserver''),
          (''claims'', J_obj [(''issuer'', J_str ''ACC''), (''subject'', J_str ''VHTTP''),
             (''issuedAt'', J_str ''2024-01-31T23:59:59Z'')]),
          (''architectureTargets'', J_arr [J_str ''x86_64-linux'']), (''vendor'', J_str ''Cosmonic''),
          (''conditions'', J_arr []), (''instanceId'', J_str [])])]"

definition echo_object :: json where
  "echo_object =
     J_obj [(''apiVersion'', J_str ''kasmcloud.io/v1alpha1''), (''kind'', J_str ''Actor''),
       (''metadata'', J_obj [(''name'', J_str ''echo-default'')]),
       (''spec'', J_obj [(''host'', J_str ''default''), (''image'', J_str ''echo:0.3.8''), (''replicas'', J_int 2)])]"

definition link_object :: json where
  "link_object =
     J_obj [(''apiVersion'', J_str ''kasmcloud.io/v1alpha1''), (''kind'', J_str ''Link''),
       (''metadata'', J_obj [(''name'', J_str ''httpserver-echo'')]),
       (''spec'', J_obj [(''linkName'', J_str ''test''), (''contractId'', J_str ''wasmcloud:httpserver''),
          (''provider'', J_obj [(''key'', J_str ''VHTTP'')]), (''actor'', J_obj [(''key'', J_str ''MECHO'')]),
          (''values'', J_obj [(''address'', J_str ''0.0.0.0:8080'')])])]"

lemmas read_defs =
  read_object_def as_struct_def required_def optional_def defaulted_def hm_get_def as_str_def as_i32_def as_map_def

lemma sample_reads:
  "read_provider W http_object = Some http_provider"
  "read_actor W echo_object = Some (echo_resource 2)"
  "read_link W link_object = Some http_link"
  by (simp_all add: read_provider_def read_actor_def read_link_def http_object_def echo_object_def link_object_def
      read_defs read_provider_spec_def read_actor_spec_def read_link_spec_def read_source_def http_provider_def
      echo_resource_def http_link_def)

lemma sample_stored:
  obtains p where "read_provider plain_wire http_stored = Some p" "p_status p \<noteq> None" "plain_object http_stored"
proof -
  have "plain_time ''2024-01-31T23:59:59Z''" by code_simp
  then have "plain_object http_stored"
    by (simp add: plain_object_def plain_status_def plain_claims_def plain_member_def http_stored_def members_def
        hm_get_or_def hm_get_def)
  moreover have "\<exists>p. read_provider plain_wire http_stored = Some p \<and> p_status p \<noteq> None"
    by (simp add: read_provider_def http_stored_def read_defs read_provider_spec_def read_provider_status_def
        read_claims_def as_time_def as_list_def plain_wire_def read_plain_2024)
  ultimately show ?thesis using that by blast
qed

lemma plain_without_status:
  "plain_object http_object" "plain_object echo_object" "plain_object link_object"
  by (simp_all add: plain_object_def plain_status_def plain_claims_def plain_member_def members_def hm_get_or_def
      hm_get_def http_object_def echo_object_def link_object_def)

end
