(* ===== verification/Kasm_Wire_Props.thy ===== *)
theory Kasm_Wire_Props
  imports Kasm_Sample_Wire
begin

text \<open>
  The controllers and the API server in a loop: a status is patched into the stored object, the object is
  read again, and the event this causes is handled. And the resources whose status never arrives.
\<close>

section \<open>Patches\<close>

definition patch_status_json :: "wire_ext \<Rightarrow> patch \<Rightarrow> json" where
  "patch_status_json W p =
     (case p of
        Patch_actor nm st \<Rightarrow> actor_status_json W st
      | Patch_provider nm st \<Rightarrow> provider_status_json W st
      | Patch_link nm st \<Rightarrow> link_status_json W st
      | Patch_host nm st \<Rightarrow> host_status_json st)"

text \<open>\<^verbatim>\<open>serde_json::json!({ "status": status })\<close>\<close>

definition patch_body :: "wire_ext \<Rightarrow> patch \<Rightarrow> json" where
  "patch_body W p = J_obj [(''status'', patch_status_json W p)]"

text \<open>The stored object after the patches an event has sent, none of which failed.\<close>

definition stored_after :: "(json \<Rightarrow> json \<Rightarrow> json) \<Rightarrow> wire_ext \<Rightarrow> ctx \<Rightarrow> ctx \<Rightarrow> json \<Rightarrow> json" where
  "stored_after mg W c d obj =
     fold (\<lambda>p obj. mg obj (patch_body W p)) (drop (length (ctx_patches c)) (ctx_patches d)) obj"

lemma stored_after_none: "ctx_patches d = ctx_patches c \<Longrightarrow> stored_after mg W c d obj = obj"
  by (simp add: stored_after_def)

lemma stored_after_one:
  "ctx_patches d = ctx_patches c @ [p] \<Longrightarrow> stored_after mg W c d obj = mg obj (patch_body W p)"
  by (simp add: stored_after_def)

lemmas stored_simps = stored_after_none stored_after_one patch_body_def patch_status_json_def send_patch_def

text \<open>
  Times that RFC 3339 can express, the years 0 to 9999, are read as they were written (the documented
  behaviour of \<^verbatim>\<open>chrono\<close>).
\<close>

definition rfc3339_years :: "datetime set" where
  "rfc3339_years = {-62167219200 ..< 253402300800}"

definition rfc3339 :: "wire_ext \<Rightarrow> bool" where
  "rfc3339 W \<longleftrightarrow> (\<forall>d \<in> rfc3339_years. wx_read_time W (wx_write_time W d) = Some d)"

lemma actor_status_times:
  assumes "rfc3339 W" "claims_times (status_claims X claims) \<subseteq> rfc3339_years"
  shows "actor_status_writable W (actor_status_of X spec claims)"
  using assms
  by (auto simp: actor_status_writable_def actor_status_of_def conditions_writable_def rfc3339_def time_writable_def
      Let_def split: option.split)

lemma provider_status_times:
  assumes "rfc3339 W" "claims_times (status_claims X claims) \<subseteq> rfc3339_years"
  shows "provider_status_writable W (provider_status_of X claims)"
  using assms
  by (auto simp: provider_status_writable_def provider_status_of_def conditions_writable_def rfc3339_def
      time_writable_def Let_def split: option.split)

section \<open>Statuses settle\<close>

text \<open>
  An object is settled in a state of the controller if the host can read it and the next event of it
  changes nothing: not the host, not the table of links, and no patch is sent.
\<close>

definition settled :: "(json \<Rightarrow> 'r option) \<Rightarrow> ('r \<Rightarrow> ctx \<Rightarrow> action \<times> ctx) \<Rightarrow> json \<Rightarrow> ctx \<Rightarrow> bool" where
  "settled rd handle obj c \<longleftrightarrow> (\<exists>r. rd obj = Some r \<and> handle r c = (Await_change, c))"

text \<open>The object of an actor after the patches of an event that are addressed to it; an actor event also patches the host.\<close>

definition is_actor_patch :: "string \<Rightarrow> patch \<Rightarrow> bool" where
  "is_actor_patch nm p = (case p of Patch_actor n _ \<Rightarrow> n = nm | _ \<Rightarrow> False)"

definition stored_actor :: "(json \<Rightarrow> json \<Rightarrow> json) \<Rightarrow> wire_ext \<Rightarrow> string \<Rightarrow> ctx \<Rightarrow> ctx \<Rightarrow> json \<Rightarrow> json" where
  "stored_actor mg W nm c d obj =
     fold (\<lambda>p obj. mg obj (patch_body W p))
       (filter (is_actor_patch nm) (drop (length (ctx_patches c)) (ctx_patches d))) obj"

lemma run_actor_applied:
  assumes "as_host (a_spec r) = name (ctx_host c)"
    and "reconcile_actor (cx_actor X) (a_name r) (as_image (a_spec r))
      (i32_as_usize (as_replicas (a_spec r))) (ctx_host c) = (Inr claims, s)"
  shows "run_actor X (Apply r) c = (Await_change, c\<lparr>ctx_host := s, ctx_patches := ctx_patches c @
    (if a_status r = Some (actor_status_of (cx_status X) (a_spec r) claims) then []
     else [Patch_actor (a_name r) (actor_status_of (cx_status X) (a_spec r) claims)]) @
    [Patch_host (name s) (host_status_of (cx_status X) s)]\<rparr>)"
  using assms by (simp add: run_actor_def ctl_reconcile_actor_def update_host_status_def send_patch_def Let_def)

text \<open>
  C18. The status of an actor settles: after a successful reconciliation of an actor of this host and the patches it sends,
  whatever the stored object held before, the host reads back the object with the status it wrote. Handling
  it again, which is the event that the patch causes, succeeds, changes neither the host nor the links and does not
  patch the actor: all it does is to send once more the status of the host object, the same as the last patch
  of the event before. The module must be the same then, and the times of its claims in the years that RFC 3339 can express.
\<close>

theorem actor_report_settles:
  assumes "merge_patch mg" "rfc3339 W" "read_actor W obj = Some r" "as_host (a_spec r) = name (ctx_host c)"
    and "reconcile_actor (cx_actor X) (a_name r) (as_image (a_spec r))
      (i32_as_usize (as_replicas (a_spec r))) (ctx_host c) = (Inr claims, s)"
    and "claims_times (status_claims (cx_status X) claims) \<subseteq> rfc3339_years"
    and "fetch_actor (cx_actor Y) (as_image (a_spec r)) s = Inr act" "rt_claims act = Some claims"
    and "cx_status Y = cx_status X" "d = snd (run_actor X (Apply r) c)"
  shows "\<exists>r'. read_actor W (stored_actor mg W (a_name r) c d obj) = Some r' \<and>
    r' = r\<lparr>a_status := Some (actor_status_of (cx_status X) (a_spec r) claims)\<rparr> \<and>
    run_actor Y (Apply r') d = (Await_change, d\<lparr>ctx_patches := ctx_patches d @ [last (ctx_patches d)]\<rparr>) \<and>
    last (ctx_patches d) = Patch_host (name (ctx_host c)) (host_status_of (cx_status X) (ctx_host d))"
proof -
  let ?st = "actor_status_of (cx_status X) (a_spec r) claims"
  let ?r = "r\<lparr>a_status := Some ?st\<rparr>"
  note d = assms(10) [unfolded run_actor_applied [OF assms(4,5)] snd_conv]
  have s: "name s = name (ctx_host c)" using reconcile_actor_name assms(5) by (metis snd_conv)
  have "read_actor W (stored_actor mg W (a_name r) c d obj) = Some ?r"
  proof (cases "a_status r = Some ?st")
    case True
    then have "r = ?r" by simp
    with True assms(3) show ?thesis by (simp add: d stored_actor_def is_actor_patch_def)
  next
    case False
    then show ?thesis
      using read_patched(1) [OF assms(1,3) actor_status_times [OF assms(2,6)]]
      by (simp add: d stored_actor_def is_actor_patch_def patch_body_def patch_status_json_def)
  qed
  moreover have "reconcile_actor (cx_actor Y) (a_name ?r) (as_image (a_spec ?r))
      (i32_as_usize (as_replicas (a_spec ?r))) (ctx_host d) = (Inr claims, s)"
    using reconcile_actor_again [OF assms(5,7,8)] by (simp add: d)
  moreover have "as_host (a_spec ?r) = name (ctx_host d)" using assms(4) s by (simp add: d)
  ultimately show ?thesis
    using s assms(9) by (simp add: run_actor_applied) (simp add: d)
qed

text \<open>
  C19. The status of a provider settles: after a successful start of a provider of this host and the patch it sends, whatever
  the stored object held before, the host reads back the status it wrote, and the event which the patch
  causes finds the process running, starts none, and leaves the host, the links and the API server alone. The image
  must have the same key and claims then, and their times must be in the years that RFC 3339 can express.
\<close>

theorem provider_report_settles:
  assumes "merge_patch mg" "rfc3339 W" "read_provider W obj = Some r" "ps_host (p_spec r) = name (ctx_host c)"
    and "start_provider (cx_provider X) (ps_link (p_spec r)) (ps_image (p_spec r)) (ctx_host c) = (Inr claims, s)"
    and "claims_times (status_claims (cx_status X) claims) \<subseteq> rfc3339_years"
    and "fetch_provider (cx_provider Y) (ps_image (p_spec r)) (ps_link (p_spec r))
      (hc_allow_file_load (config s)) (registry_settings s) = Inr (path, claims)"
    and "cx_status Y = cx_status X" "d = snd (run_provider X (Apply r) c)"
  shows "(\<exists>r'. read_provider W (stored_after mg W c d obj) = Some r' \<and>
      p_status r' = Some (provider_status_of (cx_status X) claims)) \<and>
    settled (read_provider W) (\<lambda>r'. run_provider Y (Apply r')) (stored_after mg W c d obj) d"
proof -
  let ?st = "provider_status_of (cx_status X) claims"
  let ?r = "r\<lparr>p_status := Some ?st\<rparr>"
  have d: "d = c\<lparr>ctx_host := s, ctx_patches := ctx_patches c @
      (if p_status r = Some ?st then [] else [Patch_provider (p_name r) ?st])\<rparr>"
    using assms(4,5,9) by (simp add: run_provider_def ctl_reconcile_provider_def send_patch_def Let_def)
  have s: "name s = name (ctx_host c)" using start_provider_name assms(5) by (metis snd_conv)
  have "read_provider W (stored_after mg W c d obj) = Some ?r"
  proof (cases "p_status r = Some ?st")
    case True
    then have "r = ?r" by simp
    with True assms(3) show ?thesis by (simp add: d stored_after_none)
  next
    case False
    then show ?thesis
      using read_patched(2) [OF assms(1,3) provider_status_times [OF assms(2,6)]] stored_after_one [of d c]
      by (simp add: d patch_body_def patch_status_json_def)
  qed
  moreover have "start_provider (cx_provider Y) (ps_link (p_spec r)) (ps_image (p_spec r)) s = (Inr claims, s)"
    by (rule start_provider_idempotent [OF assms(5,7) refl])
  then have "run_provider Y (Apply ?r) d = (Await_change, d)"
    using assms(4,8) s by (simp add: run_provider_def ctl_reconcile_provider_def Let_def d)
  ultimately show ?thesis by (auto simp: settled_def)
qed

text \<open>
  C17. The status of a link means the link: after its registration and the patch it sends, the object that is read
  back resolves to the same definition, whatever the API server answers for the resources it names; the event
  which the patch causes changes nothing; and the cleanup of that object releases the identifier that was
  registered.
\<close>

theorem link_report_settles:
  assumes "merge_patch mg" "read_link W obj = Some r" "resolve_link X r = Inr ld" "ld_link_name ld \<noteq> []"
    and "register_link (add_linkdef (cx_digest X) (cx_link X)) (l_name r) ld (ctx_links c, ctx_host c) = (Inr u, tbl, s)"
    and "d = snd (ctl_add_link X r c)" "cx_default_ld Y = cx_default_ld X"
  shows "settled (read_link W) (ctl_add_link Y) (stored_after mg W c d obj) d \<and>
    (\<exists>r' st. read_link W (stored_after mg W c d obj) = Some r' \<and> resolve_link Y r' = Inr ld \<and>
       l_status r' = Some st \<and> status_complete st \<and> link_status_id (l_spec r') st = link_id ld)"
proof -
  let ?r = "r\<lparr>l_status := Some (link_status_of ld)\<rparr>"
  have "read_link W (stored_after mg W c d obj) = Some ?r"
  proof (cases "l_status r = Some (link_status_of ld)")
    case True
    then have "r = ?r" by simp
    with True assms(2,3,5,6) show ?thesis by (simp add: ctl_add_link_def Let_def stored_simps)
  next
    case False
    then show ?thesis
      using assms(3,5,6) read_patched(3) [OF assms(1,2), of "link_status_of ld"]
      by (simp add: ctl_add_link_def Let_def stored_simps link_status_of_def conditions_writable_def)
  qed
  moreover have "resolve_link Y ?r = Inr ld" "status_complete (link_status_of ld)"
      "link_status_id (l_spec ?r) (link_status_of ld) = link_id ld"
    using resolved_link_is_pinned [OF assms(3,7)] assms(4) by simp_all
  moreover have "ctx_links d = tbl" "ctx_host d = s"
    using assms(3,5,6) by (simp_all add: ctl_add_link_def Let_def)
  moreover have "register_link add (l_name r) ld (tbl, s) = (Inr (), tbl, s)" for add
    using assms(5) by (auto simp: register_link_def hm_insert_self split: option.splits prod.splits sum.splits)
  ultimately show ?thesis by (auto simp: settled_def ctl_add_link_def Let_def)
qed

section \<open>Statuses conform to the resource definitions\<close>

definition crd_of :: "patch \<Rightarrow> schema" where
  "crd_of p =
     (case p of
        Patch_actor _ _ \<Rightarrow> actor_crd
      | Patch_provider _ _ \<Rightarrow> provider_crd
      | Patch_link _ _ \<Rightarrow> link_crd
      | Patch_host _ _ \<Rightarrow> host_crd)"

text \<open>What the types of the resources allow and their schemas do not.\<close>

definition expressible :: "patch \<Rightarrow> bool" where
  "expressible p =
     (case p of
        Patch_actor _ st \<Rightarrow> claims_times (ast_claims st) \<subseteq> rfc3339_years
      | Patch_provider _ st \<Rightarrow> claims_times (pst_claims st) \<subseteq> rfc3339_years
      | Patch_link _ _ \<Rightarrow> True
      | Patch_host _ st \<Rightarrow> uint (hps_count (hst_providers st)) < 2 ^ 63 \<and>
          uint (has_count (hst_actors st)) < 2 ^ 63 \<and> uint (has_instance_count (hst_actors st)) < 2 ^ 63)"

definition no_conditions :: "patch \<Rightarrow> bool" where
  "no_conditions p =
     (case p of
        Patch_actor _ st \<Rightarrow> ast_conditions st = []
      | Patch_provider _ st \<Rightarrow> pst_conditions st = []
      | Patch_link _ st \<Rightarrow> lst_conditions st = []
      | Patch_host _ _ \<Rightarrow> True)"

lemma status_conditions [simp]:
  "ast_conditions (actor_status_of X spec claims) = []"
  "pst_conditions (provider_status_of X c) = []"
  "lst_conditions (link_status_of ld) = []"
  by (simp_all add: actor_status_of_def provider_status_of_def link_status_of_def Let_def split: option.split)

lemma handler_patches:
  "\<exists>ps. ctx_patches (snd (ctl_reconcile_actor X r c)) = ctx_patches c @ ps \<and> (\<forall>p \<in> set ps. no_conditions p)"
  "ctx_patches (snd (ctl_delete_actor r c)) = ctx_patches c"
  "\<exists>ps. ctx_patches (snd (ctl_reconcile_provider X pr c)) = ctx_patches c @ ps \<and> (\<forall>p \<in> set ps. no_conditions p)"
  "ctx_patches (snd (ctl_delete_provider X pr c)) = ctx_patches c"
  "\<exists>ps. ctx_patches (snd (ctl_add_link X lr c)) = ctx_patches c @ ps \<and> (\<forall>p \<in> set ps. no_conditions p)"
  "ctx_patches (snd (ctl_delete_link X lr c)) = ctx_patches c"
  by (auto simp: ctl_reconcile_actor_def ctl_delete_actor_def ctl_reconcile_provider_def ctl_delete_provider_def
      ctl_add_link_def ctl_delete_link_def send_patch_def no_conditions_def Let_def
      split: sum.split prod.split option.split)

lemma ctl_step_patches:
  assumes "ctl_step D c d"
  shows "\<exists>ps. ctx_patches d = ctx_patches c @ ps \<and> (\<forall>p \<in> set ps. no_conditions p)"
  using assms
proof cases
  case (link_event X le)
  then show ?thesis using handler_patches(5,6) by (cases le) (simp_all add: run_link_def)
next
  case (actor_event X ae)
  let ?e = "snd (case ae of Apply r \<Rightarrow> ctl_reconcile_actor X r c | Cleanup r \<Rightarrow> ctl_delete_actor r c)"
  have "\<exists>ps. ctx_patches ?e = ctx_patches c @ ps \<and> (\<forall>p \<in> set ps. no_conditions p)"
    using handler_patches(1,2) by (cases ae) simp_all
  then obtain ps where ps: "ctx_patches ?e = ctx_patches c @ ps" "\<forall>p \<in> set ps. no_conditions p" by blast
  have "d = c \<or> d = update_host_status X ?e"
    using actor_event by (auto simp: run_actor_def Let_def case_prod_beta)
  moreover have "ctx_patches (update_host_status X ?e) =
      ctx_patches c @ ps @ [Patch_host (name (ctx_host ?e)) (host_status_of (cx_status X) (ctx_host ?e))]"
    using ps by (simp add: update_host_status_def send_patch_def)
  ultimately show ?thesis using ps by (auto simp: no_conditions_def)
next
  case (provider_event X pe)
  then show ?thesis using handler_patches(3,4) by (cases pe) (simp_all add: run_provider_def Let_def)
qed

text \<open>
  C30. Whatever event the controllers handle, a status that they send, merged onto an object that conforms to
  its resource definition, gives one that conforms: every required member is there, every member is of its
  type, and none is undeclared, so the API server accepts the patch and prunes nothing. The times must lie in
  the years RFC 3339 can express, and the counts fit the \<^verbatim>\<open>int64\<close> of the definition.
\<close>

theorem written_statuses_conform:
  assumes "merge_patch mg" "\<forall>t \<in> rfc3339_years. date_time V (wx_write_time W t)"
    and "ctl_step D c d" "p \<in> set (drop (length (ctx_patches c)) (ctx_patches d))" "expressible p"
    and "conforms V (crd_of p) obj"
  shows "conforms V (crd_of p) (mg obj (patch_body W p))"
proof -
  have p: "no_conditions p" using ctl_step_patches [OF assms(3)] assms(4) by auto
  show ?thesis
  proof (cases p)
    case (Patch_actor nm st)
    then have "fits V mg actor_status_schema (actor_status_json W st)"
      using p assms(2,5) by (intro actor_status_fits [OF assms(1)]) (auto simp: no_conditions_def expressible_def)
    from status_conforms [OF assms(1) this] Patch_actor assms(6) show ?thesis
      by (simp add: crd_of_def patch_body_def patch_status_json_def actor_crd_def actor_status_json_def)
  next
    case (Patch_provider nm st)
    then have "fits V mg provider_status_schema (provider_status_json W st)"
      using p assms(2,5) by (intro provider_status_fits [OF assms(1)]) (auto simp: no_conditions_def expressible_def)
    from status_conforms [OF assms(1) this] Patch_provider assms(6) show ?thesis
      by (simp add: crd_of_def patch_body_def patch_status_json_def provider_crd_def provider_status_json_def)
  next
    case (Patch_link nm st)
    then have "fits V mg link_status_schema (link_status_json W st)"
      using p by (intro link_status_fits [OF assms(1)]) (auto simp: no_conditions_def)
    from status_conforms [OF assms(1) this] Patch_link assms(6) show ?thesis
      by (simp add: crd_of_def patch_body_def patch_status_json_def link_crd_def link_status_json_def)
  next
    case (Patch_host nm st)
    then have "fits V mg host_status_schema (host_status_json st)"
      using assms(5) by (intro host_status_fits [OF assms(1)]) (auto simp: expressible_def)
    from status_conforms [OF assms(1) this] Patch_host assms(6) show ?thesis
      by (simp add: crd_of_def patch_body_def patch_status_json_def host_crd_def host_status_json_def)
  qed
qed

section \<open>A status that is refused\<close>

lemma merged_member_conforms:
  assumes "conforms V (S_struct props reqs) (mg old (J_obj ps))" "merge_patch mg" "hm_wf ps"
    and "hm_get ps k = Some v" "v \<noteq> J_null" "map_of props k = Some sc"
  shows "\<exists>u. conforms V sc (mg u v)"
proof -
  obtain fs where fs: "mg old (J_obj ps) = J_obj fs" "merged mg old ps fs"
    by (rule merge_object [OF assms(2,3)])
  have "conforms V (S_struct props reqs) (J_obj fs)" using assms(1) by (simp add: fs(1))
  moreover have "hm_get fs k = Some (mg (hm_get_or J_null (members old) k) v)"
    by (rule merged_get(1) [OF fs(2) assms(4,5)])
  ultimately show ?thesis using assms(6) by (metis struct_member option.inject)
qed

lemma refused_time:
  assumes "merge_patch mg" "conforms V claims_schema (mg old (claims_json W c))"
  shows "date_time V (wx_write_time W (c_issued_at c))"
proof -
  have "\<exists>u. conforms V S_time (mg u (time_json W (c_issued_at c)))"
    using assms(2) unfolding claims_schema_def claims_json_def
    by (rule merged_member_conforms [where k = "''issuedAt''", OF _ assms(1)]) (simp_all add: member_simps time_json_def)
  then show ?thesis by (simp add: time_json_def merge_value [OF assms(1)])
qed

lemma refused_provider_status:
  assumes "merge_patch mg" "conforms V provider_crd (mg obj (patch_body W (Patch_provider nm st)))"
  shows "date_time V (wx_write_time W (c_issued_at (pst_claims st)))"
proof -
  have "\<exists>u. conforms V provider_status_schema (mg u (provider_status_json W st))"
    using assms(2) unfolding provider_crd_def object_schema_def patch_body_def patch_status_json_def patch.case
    by (rule merged_member_conforms [where k = "''status''", OF _ assms(1)]) (simp_all add: member_simps provider_status_json_def)
  then obtain u where "conforms V provider_status_schema (mg u (provider_status_json W st))" by blast
  then have "\<exists>u. conforms V claims_schema (mg u (claims_json W (pst_claims st)))"
    unfolding provider_status_schema_def provider_status_json_def
    by (rule merged_member_conforms [where k = "''claims''", OF _ assms(1)]) (simp_all add: member_simps claims_json_def)
  then show ?thesis using refused_time [OF assms(1)] by blast
qed

text \<open>
  C36. A provider is started before its status is written, and cleaned up by its status only. If the status
  can never be stored, its process is never stopped: claims whose time of issue \<^verbatim>\<open>chrono\<close> cannot represent
  are reported with \<^verbatim>\<open>MIN_UTC\<close>, which is no \<^verbatim>\<open>date-time\<close>; the API server refuses the patch, the controller
  only logs that; and the cleanup of the resource, which has no status, does nothing and reports success,
  so that the resource goes away and the process stays.
\<close>

theorem refused_status_strands_provider:
  assumes "merge_patch mg" "\<forall>t. date_time V (wx_write_time W t) \<longrightarrow> t \<in> rfc3339_years"
    and "timestamp_opt (cx_status X) (u64_as_i64 (issued_at claims)) = None" "min_utc (cx_status X) \<notin> rfc3339_years"
    and "read_provider W obj = Some r" "p_status r = None" "ps_host (p_spec r) = name (ctx_host c)"
    and "start_provider (cx_provider X) (ps_link (p_spec r)) (ps_image (p_spec r)) (ctx_host c) = (Inr claims, t)"
    and "d = snd (run_provider X (Apply r) c)"
  shows "(\<exists>p. ctx_patches d = ctx_patches c @ [p] \<and> \<not> conforms V provider_crd (mg obj (patch_body W p))) \<and>
    (\<exists>q. child_at (ctx_host d) (subject claims) (ps_link (p_spec r)) = Some q) \<and>
    run_provider Y (Cleanup r) e = (Await_change, e)"
proof -
  let ?st = "provider_status_of (cx_status X) claims"
  have d: "d = send_patch (Patch_provider (p_name r) ?st) (c\<lparr>ctx_host := t\<rparr>)"
    using assms(6-9) by (simp add: run_provider_def ctl_reconcile_provider_def Let_def)
  have "c_issued_at (pst_claims ?st) = min_utc (cx_status X)"
    using assms(3) by (simp add: provider_status_of_def status_claims_def time_of_def Let_def split: option.split)
  then have "\<not> conforms V provider_crd (mg obj (patch_body W (Patch_provider (p_name r) ?st)))"
    using refused_provider_status [OF assms(1)] assms(2,4) by metis
  moreover have "\<exists>q. child_at t (subject claims) (ps_link (p_spec r)) = Some q"
    by (rule start_provider_ok [OF assms(8)]) blast
  moreover have "run_provider Y (Cleanup r) e = (Await_change, e)"
    using assms(6) by (simp add: run_provider_def ctl_delete_provider_def)
  ultimately show ?thesis by (simp add: d send_patch_def)
qed

section \<open>Two resources, one process\<close>

text \<open>
  C35. Links are counted by the resources that refer to them, provider processes are not. Two \<^verbatim>\<open>Provider\<close>
  resources of one host with the same link name, whose images carry the same key, share one process: the
  second is reported as running without a process of its own, and the cleanup of the first kills the process
  the second one names.
\<close>

theorem shared_process_is_killed:
  assumes "system_inv D (ctx_host c)"
    and "ps_host (p_spec r1) = name (ctx_host c)" "ps_host (p_spec r2) = name (ctx_host c)" "ps_link (p_spec r2) = ps_link (p_spec r1)"
    and "start_provider (cx_provider X) (ps_link (p_spec r1)) (ps_image (p_spec r1)) (ctx_host c) = (Inr claims, t)"
    and "fetch_provider (cx_provider Y) (ps_image (p_spec r2)) (ps_link (p_spec r2))
      (hc_allow_file_load (config t)) (registry_settings t) = Inr (path, claims2)"
    and "subject claims2 = subject claims" "subject claims \<noteq> []" "p_status r2 = None"
    and "d = snd (run_provider Y (Apply r2) (snd (run_provider X (Apply r1) c)))"
    and "e = snd (run_provider Z (Cleanup (r1\<lparr>p_status := Some (provider_status_of (cx_status X) claims)\<rparr>)) d)"
  shows "\<exists>q. child_at (ctx_host d) (subject claims) (ps_link (p_spec r1)) = Some q \<and>
    last (ctx_patches d) = Patch_provider (p_name r2) (provider_status_of (cx_status Y) claims2) \<and>
    pst_public_key (provider_status_of (cx_status Y) claims2) = subject claims \<and>
    child_at (ctx_host e) (subject claims) (ps_link (p_spec r2)) = None \<and> q \<notin> set (children (ctx_host e)) \<and>
    set (children (ctx_host d)) = insert q (set (children (ctx_host e)))"
proof -
  let ?l = "ps_link (p_spec r1)" and ?k = "subject claims"
  let ?c1 = "snd (run_provider X (Apply r1) c)" and ?st2 = "provider_status_of (cx_status Y) claims2"
  have c1: "ctx_host ?c1 = t" by (rule run_provider_apply [OF assms(2,5)])
  have steps: "ctl_step D c ?c1" "ctl_step D ?c1 d" "ctl_step D d e"
    unfolding assms(10,11) by (rule ctl_step.provider_event)+
  then have cd: "(ctl_step D)\<^sup>*\<^sup>* c ?c1" "(ctl_step D)\<^sup>*\<^sup>* c d" "(ctl_step D)\<^sup>*\<^sup>* c e" by auto
  have nm: "name t = name (ctx_host c)" "name (ctx_host d) = name (ctx_host c)"
    using ctl_steps_name [OF cd(1) assms(1)] ctl_steps_name [OF cd(2) assms(1)] c1 by simp_all
  obtain q where q: "child_at t ?k ?l = Some q" by (rule start_provider_ok [OF assms(5)]) auto
  have "start_provider (cx_provider Y) (ps_link (p_spec r2)) (ps_image (p_spec r2)) t = (Inr claims2, t)"
    using assms(4,6,7) q by (intro start_provider_running) simp_all
  then have d: "d = send_patch (Patch_provider (p_name r2) ?st2) ?c1"
    using assms(3,9,10) nm(1) c1 by (simp add: run_provider_def ctl_reconcile_provider_def Let_def send_patch_def)
  then have dt: "ctx_host d = t" by (simp add: c1)
  have at: "child_at (ctx_host e) k' l' = (if k' = ?k \<and> l' = ?l then None else child_at t k' l')" for k' l'
    using assms(2,8,11) nm(2) dt
    by (subst assms(11), subst run_provider_cleanup [where st = "provider_status_of (cx_status X) claims"])
      (simp_all add: stop_provider_child_at)
  have inv: "providers_inv t" "providers_inv (ctx_host e)"
    using ctl_sys.steps_inv [OF cd(1) assms(1)] ctl_sys.steps_inv [OF cd(3) assms(1)] c1
    by (simp_all add: system_inv_def)
  note mem = providers_invD(6) [OF inv(1)] providers_invD(6) [OF inv(2)]
  have left: "x \<in> set (children (ctx_host e)) \<longleftrightarrow>
      (\<exists>k' l'. \<not> (k' = ?k \<and> l' = ?l) \<and> child_at t k' l' = Some x)" for x
    unfolding mem(2) at by (metis option.distinct(1))
  have "q \<notin> set (children (ctx_host e))"
    using left providers_invD(7) [OF inv(1)] q by blast
  moreover have "x \<in> set (children t) \<longleftrightarrow> x = q \<or> x \<in> set (children (ctx_host e))" for x
    unfolding mem(1) left using q by (metis option.inject)
  then have "set (children t) = insert q (set (children (ctx_host e)))" by blast
  ultimately show ?thesis
    using q at [of ?k ?l] assms(4,7) dt by (simp add: d send_patch_def)
qed

section \<open>Witnesses\<close>

lemma sample_rfc3339: "rfc3339 sample_wire"
  by (simp add: rfc3339_def sample_wire_def read_strokes)

lemma sample_times:
  "claims_times (status_claims (cx_status (sample_ctl lx)) http_claims) \<subseteq> rfc3339_years"
  "claims_times (status_claims (cx_status (sample_ctl lx)) echo_claims) \<subseteq> rfc3339_years"
  by (simp_all add: claims_times_def status_claims_def http_claims_def echo_claims_def time_of_def sample_ctl_def
      rfc3339_years_def u64_as_i64_def)

theorem actor_report_settles_witness:
  "\<exists>d. d = snd (run_actor (sample_ctl link_up) (Apply (echo_resource 2)) sample_ctx) \<and>
     length (instances_at (ctx_host d) ''MECHO'' ''echo-default'') = 2 \<and>
     (\<exists>r'. read_actor sample_wire (stored_actor merge_json sample_wire ''echo-default'' sample_ctx d echo_object) = Some r' \<and>
        a_status r' = Some (actor_status_of (cx_status (sample_ctl link_up)) (a_spec (echo_resource 2)) echo_claims) \<and>
        run_actor (sample_ctl link_up) (Apply r') d =
          (Await_change, d\<lparr>ctx_patches := ctx_patches d @ [last (ctx_patches d)]\<rparr>))"
proof -
  let ?X = "sample_ctl link_up" and ?r = "echo_resource 2"
  have "hm_get (actor_keys sample_host) ''echo-default'' \<in> {None, Some ''MECHO''}"
    by (simp add: sample_host_def)
  then obtain s where s: "reconcile_actor echo_ext ''echo-default'' ''echo:0.3.8'' (i32_as_usize 2) sample_host =
      (Inr echo_claims, s)"
    by (rule echo_reconciles)
  have rec: "reconcile_actor (cx_actor ?X) (a_name ?r) (as_image (a_spec ?r)) (i32_as_usize (as_replicas (a_spec ?r)))
      (ctx_host sample_ctx) = (Inr echo_claims, s)"
    using s by (simp add: echo_resource_def sample_ctx_def)
  have f: "fetch_actor (cx_actor ?X) (as_image (a_spec ?r)) s = Inr echo_module" "rt_claims echo_module = Some echo_claims"
    using echo_fetched by (simp_all add: fetched_def)
  have h: "as_host (a_spec ?r) = name (ctx_host sample_ctx)" "a_name ?r = ''echo-default''"
    by (simp_all add: echo_resource_def sample_ctx_def sample_host_def)
  have "length (instances_at (ctx_host (snd (run_actor ?X (Apply ?r) sample_ctx))) ''MECHO'' ''echo-default'') = 2"
    using reconcile_actor_count [OF s] by (simp add: run_actor_applied [OF h(1) rec] echo_subject i32_as_usize_nonneg)
  with actor_report_settles [OF merge_json_patch sample_rfc3339 sample_reads(2) h(1) rec sample_times(2) f refl refl]
  show ?thesis unfolding h(2) by auto
qed

theorem provider_report_settles_witness:
  "\<exists>d. d = snd (run_provider (sample_ctl link_up) (Apply http_provider) sample_ctx) \<and> ctx_host d = http_running \<and>
     settled (read_provider sample_wire) (\<lambda>r'. run_provider (sample_ctl link_up) (Apply r'))
       (stored_after merge_json sample_wire sample_ctx d http_object) d"
proof -
  let ?X = "sample_ctl link_up"
  have start: "start_provider (cx_provider ?X) (ps_link (p_spec http_provider))
      (ps_image (p_spec http_provider)) (ctx_host sample_ctx) = (Inr http_claims, http_running)"
    using http_starts by (simp add: http_provider_def sample_ctx_def sample_ctl_def)
  have f: "fetch_provider (cx_provider ?X) (ps_image (p_spec http_provider)) (ps_link (p_spec http_provider))
      (hc_allow_file_load (config http_running)) (registry_settings http_running) = Inr (''/tmp/httpserver'', http_claims)"
    by (simp add: sample_ctl_def http_ext_def)
  have h: "ps_host (p_spec http_provider) = name (ctx_host sample_ctx)"
    by (simp add: http_provider_def sample_ctx_def sample_host_def)
  from provider_report_settles [OF merge_json_patch sample_rfc3339 sample_reads(1) h start sample_times(1) f refl refl]
    run_provider_apply [OF h start]
  show ?thesis by blast
qed

theorem link_report_settles_witness:
  "settled (read_link sample_wire) (ctl_add_link (sample_ctl link_down))
     (stored_after merge_json sample_wire sample_ctx linked_ctx link_object) linked_ctx \<and>
   (\<exists>r' st. read_link sample_wire (stored_after merge_json sample_wire sample_ctx linked_ctx link_object) = Some r' \<and>
      l_status r' = Some st \<and> link_status_id (l_spec r') st = link_id echo_ld)"
proof -
  obtain q tbl s where reg: "register_link (add_linkdef (cx_digest (sample_ctl link_up)) (cx_link (sample_ctl link_up)))
      (l_name http_link) echo_ld (ctx_links sample_ctx, ctx_host sample_ctx) = (q, tbl, s)"
    by (metis prod_cases3)
  have vac: "hm_get (links sample_host) (ld_hash sample_digest echo_ld) = None"
    by (simp add: sample_defs)
  have "fst (add_linkdef sample_digest link_up echo_ld sample_host) = Inr ()"
    by (simp add: add_linkdef_vacant [OF vac]) (simp add: link_up_def)
  then have "q = Inr ()"
    using reg by (auto simp: register_link_def sample_ctx_def hm_get_def split: prod.splits sum.splits)
  with reg have reg': "register_link (add_linkdef (cx_digest (sample_ctl link_up)) (cx_link (sample_ctl link_up)))
      (l_name http_link) echo_ld (ctx_links sample_ctx, ctx_host sample_ctx) = (Inr (), tbl, s)" by simp
  have "resolve_link (sample_ctl link_up) http_link = Inr echo_ld" "ld_link_name echo_ld \<noteq> []"
    "cx_default_ld (sample_ctl link_down) = cx_default_ld (sample_ctl link_up)"
    using http_link_resolves [of link_up] by (simp_all add: echo_ld_def sample_ctl_def)
  from link_report_settles [OF merge_json_patch sample_reads(3) this(1,2) reg' refl this(3)]
  show ?thesis unfolding linked_ctx_def by blast
qed

text \<open>Date-times, in strokes.\<close>

definition sample_crd :: crd_ext where
  "sample_crd = \<lparr>date_time = (\<lambda>s. case read_strokes s of None \<Rightarrow> False | Some t \<Rightarrow> t \<in> rfc3339_years),
     matches = (\<lambda>_ _. True)\<rparr>"

lemma sample_date_time: "date_time sample_crd (wx_write_time sample_wire t) \<longleftrightarrow> t \<in> rfc3339_years"
  by (simp add: sample_crd_def sample_wire_def read_strokes)

lemma http_object_conforms: "conforms V provider_crd http_object"
  unfolding provider_crd_def object_schema_def http_object_def provider_spec_schema_def
  by (auto intro!: conforms.intros simp: hm_get_def split: if_splits)

theorem written_statuses_conform_witness:
  "conforms sample_crd provider_crd (merge_json http_object
     (patch_body sample_wire (Patch_provider ''httpserver'' (provider_status_of (cx_status (sample_ctl link_up)) http_claims))))"
proof -
  let ?X = "sample_ctl link_up" and ?st = "provider_status_of (cx_status (sample_ctl link_up)) http_claims"
  have "start_provider (cx_provider ?X) (ps_link (p_spec http_provider)) (ps_image (p_spec http_provider))
      (ctx_host sample_ctx) = (Inr http_claims, http_running)"
    using http_starts by (simp add: http_provider_def sample_ctx_def sample_ctl_def)
  then have "ctx_patches (snd (run_provider ?X (Apply http_provider) sample_ctx)) = [Patch_provider ''httpserver'' ?st]"
    by (simp add: run_provider_def ctl_reconcile_provider_def send_patch_def Let_def)
      (simp add: http_provider_def sample_ctx_def sample_host_def)
  moreover have "expressible (Patch_provider ''httpserver'' ?st)"
    using sample_times(1) [of link_up] by (simp add: expressible_def provider_status_of_def Let_def split: option.split)
  ultimately show ?thesis
    using written_statuses_conform [OF merge_json_patch _ ctl_step.provider_event, of sample_crd sample_wire
        "Patch_provider ''httpserver'' ?st" sample_ctx ?X "Apply http_provider" http_object]
      http_object_conforms [of sample_crd]
    by (simp add: sample_date_time crd_of_def sample_ctx_def)
qed

text \<open>Claims issued at the largest time a \<^verbatim>\<open>u64\<close> of seconds can hold below the sign bit.\<close>

definition late_claims :: provider_claims where
  "late_claims = http_claims\<lparr>issued_at := 9223372036854775807\<rparr>"

definition late_ctl :: ctl_ext where
  "late_ctl = (sample_ctl link_up)\<lparr>
     cx_provider := http_ext\<lparr>fetch_provider := (\<lambda>_ _ _ _. Inr (''/tmp/httpserver'', late_claims))\<rparr>,
     cx_status := \<lparr>timestamp_opt = (\<lambda>t. if t < 8210266876800 then Some t else None), min_utc = -8334601228800,
       node_name = ''node-1''\<rparr>\<rparr>"

theorem refused_status_strands_provider_witness:
  "\<exists>d q. d = snd (run_provider late_ctl (Apply http_provider) sample_ctx) \<and>
     child_at (ctx_host d) ''VHTTP'' ''test'' = Some q \<and>
     run_provider late_ctl (Cleanup http_provider) d = (Await_change, d)"
proof -
  obtain t where t: "start_provider (cx_provider late_ctl) (ps_link (p_spec http_provider)) (ps_image (p_spec http_provider))
      (ctx_host sample_ctx) = (Inr late_claims, t)"
    by (simp add: late_ctl_def start_provider_def provider_entry_def build_host_data_def launch_def feed_stdin_def
        sample_defs late_claims_def Let_def emit_def u64_try_from_def out_of_range_def sample_ctx_def http_provider_def)
  have "\<forall>t. date_time sample_crd (wx_write_time sample_wire t) \<longrightarrow> t \<in> rfc3339_years"
    by (simp add: sample_date_time)
  moreover have "timestamp_opt (cx_status late_ctl) (u64_as_i64 (issued_at late_claims)) = None"
    "min_utc (cx_status late_ctl) \<notin> rfc3339_years"
    by (simp_all add: late_ctl_def late_claims_def u64_as_i64_def rfc3339_years_def)
  moreover have "p_status http_provider = None" "ps_host (p_spec http_provider) = name (ctx_host sample_ctx)"
    "ps_link (p_spec http_provider) = ''test''" "subject late_claims = ''VHTTP''"
    by (simp_all add: http_provider_def sample_ctx_def sample_host_def late_claims_def http_claims_def)
  ultimately show ?thesis
    using refused_status_strands_provider [OF merge_json_patch _ _ _ sample_reads(1) _ _ t refl] by metis
qed

theorem shared_process_is_killed_witness:
  "\<exists>(d :: ctx) (e :: ctx). child_at (ctx_host d) ''VHTTP'' ''test'' \<noteq> None \<and> child_at (ctx_host e) ''VHTTP'' ''test'' = None \<and>
     last (ctx_patches d) = Patch_provider ''second'' (provider_status_of (cx_status (sample_ctl link_up)) http_claims)"
proof -
  let ?X = "sample_ctl link_up" and ?r2 = "http_provider\<lparr>p_name := ''second''\<rparr>"
  have start: "start_provider (cx_provider ?X) (ps_link (p_spec http_provider)) (ps_image (p_spec http_provider))
      (ctx_host sample_ctx) = (Inr http_claims, http_running)"
    using http_starts by (simp add: http_provider_def sample_ctx_def sample_ctl_def)
  have fetch: "fetch_provider (cx_provider ?X) (ps_image (p_spec ?r2)) (ps_link (p_spec ?r2))
      (hc_allow_file_load (config http_running)) (registry_settings http_running) = Inr (''/tmp/httpserver'', http_claims)"
    by (simp add: sample_ctl_def http_ext_def)
  have sys: "system_inv sample_digest (ctx_host sample_ctx)"
    using sample_system_inv by (simp add: sample_ctx_def)
  have h: "ps_host (p_spec http_provider) = name (ctx_host sample_ctx)" "ps_host (p_spec ?r2) = name (ctx_host sample_ctx)"
    "ps_link (p_spec ?r2) = ps_link (p_spec http_provider)" "subject http_claims \<noteq> []" "p_status ?r2 = None"
    by (simp_all add: http_provider_def sample_ctx_def sample_host_def http_claims_def)
  have k: "ps_link (p_spec http_provider) = ''test''" "subject http_claims = ''VHTTP''" "p_name ?r2 = ''second''"
    by (simp_all add: http_provider_def http_claims_def)
  let ?d = "snd (run_provider ?X (Apply ?r2) (snd (run_provider ?X (Apply http_provider) sample_ctx)))"
  let ?e = "snd (run_provider ?X
    (Cleanup (http_provider\<lparr>p_status := Some (provider_status_of (cx_status ?X) http_claims)\<rparr>)) ?d)"
  have "child_at (ctx_host ?d) ''VHTTP'' ''test'' \<noteq> None \<and> child_at (ctx_host ?e) ''VHTTP'' ''test'' = None \<and>
     last (ctx_patches ?d) = Patch_provider ''second'' (provider_status_of (cx_status ?X) http_claims)"
    using shared_process_is_killed [OF sys h(1-3) start fetch refl h(4,5) refl refl, of ?X]
    unfolding h(3) k by (elim exE conjE) simp
  then show ?thesis by blast
qed

end
