(* ===== verification/Kasm_Admission_Props.thy ===== *)
theory Kasm_Admission_Props
  imports Kasm_Wire_Props
begin

text \<open>
  The two programs on one stored object: the webhook, in Go, decodes what the host, in Rust, reads and
  writes, and what its labels do to the later updates of an object.
\<close>

section \<open>The two readings of an object\<close>

text \<open>A negative number of replicas, which the Rust types and the schemas allow, is no \<^verbatim>\<open>uint\<close>.\<close>

definition no_negative_replicas :: "actor_resource \<Rightarrow> bool" where
  "no_negative_replicas a \<longleftrightarrow> 0 \<le> sint (as_replicas (a_spec a)) \<and>
     (case a_status a of
        None \<Rightarrow> True
      | Some st \<Rightarrow> 0 \<le> sint (ast_replicas st) \<and> 0 \<le> sint (ast_available_replicas st))"

lemma plain_object_status: "plain_object j \<Longrightarrow> hm_get (members j) ''status'' = Some j' \<Longrightarrow> plain_status j'"
  by (simp add: plain_object_def hm_get_or_def)

lemma actor_agrees:
  assumes "same_times W G" "plain_object j" "go_labels_of j = Some ls" "read_actor W j = Some a"
  shows "go_read_actor G j = (if no_negative_replicas a then Some (go_actor_of ls a) else None)"
proof -
  obtain nm sp st where r: "read_object read_actor_spec (read_actor_status W) j = Some (nm, sp, st)"
    and a: "a = \<lparr>a_name = nm, a_spec = sp, a_status = st\<rparr>"
    using assms(4) by (auto simp: read_actor_def)
  let ?sp = "map_option (\<lambda>n. \<lparr>gas_host = as_host sp, gas_image = as_image sp, gas_replicas = n\<rparr>) (as_uint (as_replicas sp))"
  let ?ok = "case st of None \<Rightarrow> True | Some x \<Rightarrow> 0 \<le> sint (ast_replicas x) \<and> 0 \<le> sint (ast_available_replicas x)"
  have "go_read_object go_read_actor_spec (go_read_actor_status G) j =
      Option.bind ?sp (\<lambda>a. Option.bind (if ?ok then Some (go_actor_status_of st) else None) (\<lambda>b. Some (nm, ls, a, b)))"
    by (rule object_agree [OF r assms(3)])
      (auto simp: no_status dest: actor_spec_agree dest!: actor_status_agree [OF assms(1) plain_object_status [OF assms(2)]])
  then show ?thesis
    by (auto simp: go_read_actor_def a no_negative_replicas_def as_uint_def go_actor_of_def split: option.splits)
qed

lemma provider_agrees:
  assumes "same_times W G" "plain_object j" "go_labels_of j = Some ls" "read_provider W j = Some p"
  shows "go_read_provider G j = Some (go_provider_of ls p)"
proof -
  obtain nm sp st where r: "read_object read_provider_spec (read_provider_status W) j = Some (nm, sp, st)"
    and p: "p = \<lparr>p_name = nm, p_spec = sp, p_status = st\<rparr>"
    using assms(4) by (auto simp: read_provider_def)
  have "go_read_object go_read_provider_spec (go_read_provider_status G) j =
      Option.bind (Some \<lparr>gps_host = ps_host sp, gps_image = ps_image sp, gps_link = ps_link sp\<rparr>)
        (\<lambda>a. Option.bind (Some (go_provider_status_of st)) (\<lambda>b. Some (nm, ls, a, b)))"
    by (rule object_agree [OF r assms(3)])
      (auto simp: no_status dest: provider_spec_agree dest!: provider_status_agree [OF assms(1) plain_object_status [OF assms(2)]])
  then show ?thesis by (simp add: go_read_provider_def p go_provider_of_def)
qed

lemma link_agrees:
  assumes "same_times W G" "plain_object j" "go_labels_of j = Some ls" "read_link W j = Some l"
    and "values_omitted (members (hm_get_or J_null (members j) ''spec''))"
  shows "go_read_link G j = Some (go_link_of ls l)"
proof -
  obtain nm sp st where r: "read_object read_link_spec (read_link_status W) j = Some (nm, sp, st)"
    and l: "l = \<lparr>l_name = nm, l_spec = sp, l_status = st\<rparr>"
    using assms(4) by (auto simp: read_link_def)
  have "go_read_object go_read_link_spec (go_read_link_status G) j =
      Option.bind (Some (go_link_spec_of sp)) (\<lambda>a. Option.bind (Some (go_link_status_of st)) (\<lambda>b. Some (nm, ls, a, b)))"
  proof (rule object_agree [OF r assms(3)])
    fix fs j'
    assume "j = J_obj fs" "hm_get fs ''spec'' = Some j'" "read_link_spec j' = Some sp"
    with assms(5) show "\<exists>gs. j' = J_obj gs \<and> go_read_link_spec gs = Some (go_link_spec_of sp)"
      by (intro link_spec_agree) (simp_all add: members_def hm_get_or_def)
  qed (auto simp: no_status dest!: link_status_agree [OF assms(1) plain_object_status [OF assms(2)]])
  then show ?thesis by (simp add: go_read_link_def l go_link_of_def)
qed

text \<open>
  C20. The Rust and the Go types describe the same resources: of every object the host can read, whose status (if any)
  lists no conditions and has its times in the plain form \<^verbatim>\<open>YYYY-MM-DDThh:mm:ssZ\<close>, the webhook decodes the same resource,
  with all its spec and status. There is one difference: where a number of replicas is negative, the host reads
  it and the webhook refuses the object. (A \<^verbatim>\<open>values\<close> map of a link that is present and empty, which the webhook's
  own encoding omits, is excluded.) Of the parsers of times only this is assumed, that Go reads a plain time which
  \<^verbatim>\<open>chrono\<close> reads, and as the same time.
\<close>

theorem rust_and_go_agree:
  assumes "same_times W G" "plain_object j" "go_labels_of j = Some ls"
  shows "(\<forall>a. read_actor W j = Some a \<longrightarrow>
      go_read_actor G j = (if no_negative_replicas a then Some (go_actor_of ls a) else None)) \<and>
    (\<forall>p. read_provider W j = Some p \<longrightarrow> go_read_provider G j = Some (go_provider_of ls p)) \<and>
    (\<forall>l. read_link W j = Some l \<longrightarrow> values_omitted (members (hm_get_or J_null (members j) ''spec'')) \<longrightarrow>
      go_read_link G j = Some (go_link_of ls l))"
  using actor_agrees [OF assms] provider_agrees [OF assms] link_agrees [OF assms] by blast

text \<open>The resources of \<^verbatim>\<open>sample.yaml\<close>, and the provider again with a status that has a time in it.\<close>

theorem rust_and_go_agree_witness:
  "go_read_actor sample_go echo_object = Some (go_actor_of None (echo_resource 2)) \<and>
   go_read_provider sample_go http_object = Some (go_provider_of None http_provider) \<and>
   go_read_link sample_go link_object = Some (go_link_of None http_link) \<and>
   (\<exists>p. p_status p \<noteq> None \<and> read_provider plain_wire http_stored = Some p \<and>
      go_read_provider sample_go http_stored = Some (go_provider_of None p))"
proof -
  have ls: "go_labels_of echo_object = Some None" "go_labels_of http_object = Some None" "go_labels_of link_object = Some None"
    "go_labels_of http_stored = Some None"
    by (simp_all add: go_labels_of_def echo_object_def http_object_def link_object_def http_stored_def go_pointer_def
        go_member_def go_nested_def as_struct_def hm_get_def)
  have "no_negative_replicas (echo_resource 2)"
    by (simp add: no_negative_replicas_def echo_resource_def)
  moreover have "values_omitted (members (hm_get_or J_null (members link_object) ''spec''))"
    by (simp add: values_omitted_def members_def hm_get_or_def link_object_def hm_get_def)
  moreover obtain p where "read_provider plain_wire http_stored = Some p" "p_status p \<noteq> None" "plain_object http_stored"
    by (rule sample_stored)
  ultimately show ?thesis
    using rust_and_go_agree [OF sample_same_times plain_without_status(1) ls(2)]
      rust_and_go_agree [OF sample_same_times plain_without_status(2) ls(1)]
      rust_and_go_agree [OF sample_same_times plain_without_status(3) ls(3)]
      rust_and_go_agree [OF sample_same_times _ ls(4)] sample_reads [of plain_wire] by auto
qed

text \<open>
  The statuses that the host writes are of this kind, if \<^verbatim>\<open>chrono\<close> writes the times of the years 0 to 9999 in the
  plain form.
\<close>

lemma written_claims_plain:
  assumes "\<forall>t \<in> rfc3339_years. plain_time (wx_write_time W t)" "claims_times c \<subseteq> rfc3339_years"
  shows "plain_claims (claims_json W c)"
  using assms
  by (auto simp: plain_claims_def plain_member_def claims_json_def claims_times_def members_def hm_get_def time_json_def
      opt_json_def split: option.split)

lemma written_status_plain:
  assumes "\<forall>t \<in> rfc3339_years. plain_time (wx_write_time W t)" "claims_times (status_claims X claims) \<subseteq> rfc3339_years"
  shows "plain_status (actor_status_json W (actor_status_of X spec claims))"
    and "claims_times (status_claims X claims') \<subseteq> rfc3339_years \<Longrightarrow>
      plain_status (provider_status_json W (provider_status_of X claims'))"
proof -
  have "ast_claims (actor_status_of X spec claims) = status_claims X claims"
    "pst_claims (provider_status_of X claims') = status_claims X claims'"
    by (simp_all add: actor_status_of_def provider_status_of_def Let_def split: option.split)
  then show "plain_status (actor_status_json W (actor_status_of X spec claims))"
    "claims_times (status_claims X claims') \<subseteq> rfc3339_years \<Longrightarrow>
      plain_status (provider_status_json W (provider_status_of X claims'))"
    using assms written_claims_plain [OF assms(1)]
    by (simp_all add: plain_status_def actor_status_json_def provider_status_json_def members_def hm_get_or_def hm_get_def)
qed

section \<open>Labels that are no labels\<close>

text \<open>The characters of which Kubernetes lets the value of a label consist.\<close>

definition label_chars :: "char set" where
  "label_chars = set ''ABCDEFGHIJKLMNOPQRSTUVWXYZabcdefghijklmnopqrstuvwxyz0123456789-_.''"

definition labels_ok :: "(string \<Rightarrow> bool) \<Rightarrow> labels \<Rightarrow> bool" where
  "labels_ok label_ok ls \<longleftrightarrow> (\<forall>k v. hm_get (made ls) k = Some v \<longrightarrow> label_ok v)"

text \<open>
  What an update of a stored actor or provider must get through: the webhook decodes it (a request it cannot
  decode is refused), sets its labels and compares it with the old object, and then the API server checks the values
  of the labels.
\<close>

definition actor_update_passes :: "go_ext \<Rightarrow> (string \<Rightarrow> bool) \<Rightarrow> json \<Rightarrow> json \<Rightarrow> bool" where
  "actor_update_passes G label_ok old upd \<longleftrightarrow>
     (\<exists>o' a. go_read_actor G old = Some o' \<and> go_read_actor G upd = Some a \<and>
        actor_validate_update (actor_default a) o' = Inr () \<and> labels_ok label_ok (ga_labels (actor_default a)))"

definition provider_update_passes :: "go_ext \<Rightarrow> (string \<Rightarrow> bool) \<Rightarrow> json \<Rightarrow> json \<Rightarrow> bool" where
  "provider_update_passes G label_ok old upd \<longleftrightarrow>
     (\<exists>o' a. go_read_provider G old = Some o' \<and> go_read_provider G upd = Some a \<and>
        provider_validate_update (provider_default a) o' = Inr () \<and> labels_ok label_ok (gp_labels (provider_default a)))"

text \<open>The patch reports an actor or a provider whose claims give this name.\<close>

definition reports_name :: "patch \<Rightarrow> string \<Rightarrow> bool" where
  "reports_name p nm \<longleftrightarrow>
     (\<exists>n X spec claims meta. p = Patch_actor n (actor_status_of X spec claims) \<and> metadata claims = Some meta \<and> act_name meta = Some nm) \<or>
     (\<exists>n X claims meta. p = Patch_provider n (provider_status_of X claims) \<and> metadata claims = Some meta \<and> prov_name meta = Some nm)"

lemma stored_name:
  assumes "merge_patch mg" "reports_name p nm"
  obtains fs where "hm_get (members (mg obj (patch_body W p))) ''status'' = Some (J_obj fs)"
    "hm_get fs ''descriptiveName'' = Some (J_str nm)"
proof -
  obtain ps where ps: "patch_status_json W p = J_obj ps" "hm_wf ps" "hm_get ps ''descriptiveName'' = Some (J_str nm)"
    using assms(2) unfolding reports_name_def
    by (auto simp: patch_status_json_def actor_status_of_def provider_status_of_def Let_def actor_status_json_def
        provider_status_json_def hm_wf_def hm_get_def opt_json_def)
  obtain fs where fs: "mg obj (patch_body W p) = J_obj fs" "merged mg obj [(''status'', J_obj ps)] fs"
    unfolding patch_body_def ps(1) using merge_object [OF assms(1), of "[(''status'', J_obj ps)]" obj] by (auto simp: hm_wf_def)
  let ?u = "hm_get_or J_null (members obj) ''status''"
  have st: "hm_get fs ''status'' = Some (mg ?u (J_obj ps))"
    by (rule merged_get(1) [OF fs(2)]) (simp_all add: hm_get_def)
  obtain gs where gs: "mg ?u (J_obj ps) = J_obj gs" "merged mg ?u ps gs" by (rule merge_object [OF assms(1) ps(2)])
  have "hm_get gs ''descriptiveName'' = Some (J_str nm)"
    using merged_get(1) [OF gs(2) ps(3)] by (simp add: merge_value [OF assms(1)])
  with st gs(1) show ?thesis using that by (simp add: fs(1) members_def)
qed

lemma go_name:
  assumes "hm_get (members j) ''status'' = Some (J_obj fs)" "hm_get fs ''descriptiveName'' = Some (J_str nm)"
  shows "go_read_actor G j = Some a \<Longrightarrow> gast_descriptive_name (ga_status a) = nm"
    and "go_read_provider G j = Some p \<Longrightarrow> gpst_descriptive_name (gp_status p) = nm"
  using assms
  by (auto simp: go_read_actor_def go_read_provider_def go_read_object_def go_read_actor_status_def
      go_read_provider_status_def bind_eq_Some_conv struct_json members_def go_nested_def go_member_def as_str_def)

text \<open>
  C37. The webhook copies the name of an actor or a provider into a label. A name need not be a label value: it may have
  a space in it. Once the status with such a name is stored, no update of the object passes: whatever it
  changes apart from the status, be it that it only removes the finalizer, the webhook adds the label, or refuses the request
  itself, and the API server does not accept an object with such a label.
\<close>

theorem name_in_label_blocks_updates:
  assumes "merge_patch mg" "\<forall>v. label_ok v \<longrightarrow> set v \<subseteq> label_chars"
    and "reports_name p nm" "\<not> set nm \<subseteq> label_chars"
    and "hm_get (members upd) ''status'' = hm_get (members (mg obj (patch_body W p))) ''status''"
  shows "\<not> actor_update_passes G label_ok old upd \<and> \<not> provider_update_passes G label_ok old upd"
proof -
  have nm: "nm \<noteq> []" "\<not> label_ok nm" using assms(2,4) by auto
  obtain fs where fs: "hm_get (members (mg obj (patch_body W p))) ''status'' = Some (J_obj fs)"
    "hm_get fs ''descriptiveName'' = Some (J_str nm)"
    by (rule stored_name [OF assms(1,3)])
  note name = go_name [OF assms(5) [unfolded fs(1)] fs(2)]
  have "hm_get (made (ga_labels (actor_default a))) ''desc'' = Some nm" if "go_read_actor G upd = Some a" for a
    using name(1) [OF that] nm(1) by (simp add: actor_default_def made_def Let_def label_if_set_get)
  moreover have "hm_get (made (gp_labels (provider_default a))) ''desc'' = Some nm" if "go_read_provider G upd = Some a" for a
    using name(2) [OF that] nm(1) by (simp add: provider_default_def made_def Let_def label_if_set_get)
  ultimately show ?thesis
    using nm(2) unfolding actor_update_passes_def provider_update_passes_def labels_ok_def by blast
qed

text \<open>
  The HTTP server of \<^verbatim>\<open>sample.yaml\<close> has such a name; the update is the one that takes nothing but time. It passes before
  the status is stored.
\<close>

theorem name_in_label_blocks_updates_witness:
  "\<exists>label_ok p. provider_update_passes sample_go label_ok http_object http_object \<and>
     p = Patch_provider ''httpserver'' (provider_status_of (cx_status (sample_ctl link_up)) http_claims) \<and>
     \<not> provider_update_passes sample_go label_ok http_object (merge_json http_object (patch_body sample_wire p))"
proof -
  let ?p = "Patch_provider ''httpserver'' (provider_status_of (cx_status (sample_ctl link_up)) http_claims)"
  let ?ok = "\<lambda>v. set v \<subseteq> label_chars"
  have "\<exists>meta. metadata http_claims = Some meta \<and> prov_name meta = Some ''HTTP Server''" by (simp add: http_claims_def)
  then have nm: "reports_name ?p ''HTTP Server''" unfolding reports_name_def by blast
  have ok: "\<forall>v. ?ok v \<longrightarrow> set v \<subseteq> label_chars" "\<not> set ''HTTP Server'' \<subseteq> label_chars"
    by (simp_all add: label_chars_def)
  have ls: "go_labels_of http_object = Some None"
    by (simp add: go_labels_of_def http_object_def go_pointer_def go_member_def go_nested_def as_struct_def hm_get_def)
  let ?g = "go_provider_of None http_provider"
  have "v \<in> {''default'', ''test''}" if "hm_get (made (gp_labels (provider_default ?g))) k = Some v" for k v
    using that
    by (simp add: provider_default_def made_def Let_def label_if_set_get go_provider_of_def go_provider_status_of_def
        http_provider_def split: if_splits) (simp add: hm_get_def split: if_splits)
  then have "labels_ok ?ok (gp_labels (provider_default ?g))"
    unfolding labels_ok_def by (fastforce simp: label_chars_def)
  moreover have "provider_validate_update (provider_default ?g) ?g = Inr ()" by (simp add: provider_validate_update_def)
  ultimately have "provider_update_passes sample_go ?ok http_object http_object"
    using provider_agrees [OF sample_same_times plain_without_status(1) ls sample_reads(1)]
    unfolding provider_update_passes_def by blast
  moreover have "\<not> provider_update_passes sample_go ?ok http_object (merge_json http_object (patch_body sample_wire ?p))"
    using name_in_label_blocks_updates [OF merge_json_patch ok(1) nm ok(2) refl] by blast
  ultimately show ?thesis by blast
qed

end
