(* ===== verification/Kasm_Regions.thy ===== *)
theory Kasm_Regions
  imports Kasm_Interleaving_Props Kasm_Locks_Props
begin

text \<open>
  The two models of concurrency agree: the regions of \<open>Kasm_Interleaving\<close> take the locks which the programs
  of \<open>Kasm_Locks\<close> list, and write no shared data but what the write locks among them protect.
\<close>

section \<open>The locks of a region\<close>

text \<open>The group a pointer leads to, in the host's map or out of it.\<close>

definition behind :: "string \<Rightarrow> nat \<Rightarrow> shared \<Rightarrow> actor_group" where
  "behind k gid sh = (case attached k gid (sh_host sh) of Some g \<Rightarrow> g | None \<Rightarrow> detached k gid sh)"

definition table_locks :: "string \<Rightarrow> process \<Rightarrow> lock_op list" where
  "table_locks k s =
     locked Actors Read
       (case hm_get (actors s) k of None \<Rightarrow> [] | Some g \<Rightarrow> locked (Group_links (ag_links g)) Write [])"

fun region_locks :: "activity \<Rightarrow> shared \<Rightarrow> lock_op list" where
  "region_locks (Rec_fetch X n r m) sh = locked Registry_settings Read []"
| "region_locks (Rec_check X n r m act claims) sh = locked Actor_keys Read []"
| "region_locks (Rec_bind X n r m act claims) sh = locked Actor_keys Write []"
| "region_locks (Rec_group X n r m act claims) sh =
     locked Actors Write (on_path (hm_get (actors (sh_host sh)) (subject claims) = None) (locked Links Read []))"
| "region_locks (Rec_scale X n r m act claims gid) sh =
     locked (Group_actors gid) Write
       (on_path (hm_get (ag_actors (behind (subject claims) gid sh)) n \<noteq> None) (locked (Instances gid n) Write []))"
| "region_locks (Rem_lookup n) sh = locked Actor_keys Read []"
| "region_locks (Rem_group n pk) sh =
     locked Actors Write
       (case hm_get (actors (sh_host sh)) pk of
          None \<Rightarrow> []
        | Some g \<Rightarrow>
            locked (Group_actors (ag_links g)) Write
              (on_path (hm_get (ag_actors g) n \<noteq> None) (locked (Instances (ag_links g) n) Write [])) @
            locked (Group_actors (ag_links g)) Read [])"
| "region_locks (Rem_unbind n) sh = locked Actor_keys Write []"
| "region_locks (Put_link X ld) sh = locked Links Write []"
| "region_locks (Put_table X ld) sh = table_locks (ld_actor_id ld) (sh_host sh)"
| "region_locks (Put_publish X ld) sh = []"
| "region_locks (Del_link X ld) sh = locked Links Write []"
| "region_locks (Del_table X ld) sh = table_locks (ld_actor_id ld) (sh_host sh)"
| "region_locks (Del_publish X ld) sh = []"
| "region_locks (Start_provider X l r) sh =
     locked Registry_settings Read
       (case fetch_provider X r l (hc_allow_file_load (config (sh_host sh))) (registry_settings (sh_host sh)) of
          Inl _ \<Rightarrow> []
        | Inr (path, claims) \<Rightarrow>
            locked Providers Write
              (on_path (child_at (sh_host sh) (subject claims) l = None \<and> is_ok (seed (cluster_key (sh_host sh))))
                 (locked Links Read [])))"
| "region_locks (Stop_provider X l k) sh = locked Providers Write []"
| "region_locks (Finished q) sh = []"

text \<open>
  The lock operations of an activity up to its end. Before every one of its moves other activities may have
  changed the shared state in any way.
\<close>

inductive lock_trace :: "digest \<Rightarrow> activity \<Rightarrow> lock_op list \<Rightarrow> bool" for D :: digest where
  ended: "lock_trace D (Finished q) []"
| move: "\<not> finished a \<Longrightarrow> advance D a sh = (b, sh') \<Longrightarrow> lock_trace D b p \<Longrightarrow>
    lock_trace D a (region_locks a sh @ p)"

inductive_cases lock_traceE: "lock_trace D a p"

lemma lock_trace_finished [simp]: "lock_trace D (Finished q) p \<longleftrightarrow> p = []"
  by (auto elim: lock_traceE intro: lock_trace.ended)

lemma lock_trace_move:
  assumes "lock_trace D a p" "\<not> finished a"
  obtains sh q where "p = region_locks a sh @ q" "lock_trace D (fst (advance D a sh)) q"
  using assms(1) by cases (use assms(2) that in auto)

text \<open>The rest of the program from each region on.\<close>

lemma on_path_simps [simp]: "on_path True p = p" "on_path False p = []"
  by (simp_all add: on_path_def)

lemma trace_scale:
  "lock_trace D (Rec_scale X n r m act claims gid) p \<Longrightarrow>
   \<exists>known. p = locked (Group_actors gid) Write (on_path known (locked (Instances gid n) Write []))"
  by (erule lock_trace_move) (auto simp: case_prod_beta)

lemma trace_group:
  assumes "lock_trace D (Rec_group X n r m act claims) p"
  shows "\<exists>new known g. p = locked Actors Write (on_path new (locked Links Read [])) @
    locked (Group_actors g) Write (on_path known (locked (Instances g n) Write []))"
  by (rule lock_trace_move [OF assms]) (auto simp: case_prod_beta dest!: trace_scale)

lemma trace_bind:
  assumes "lock_trace D (Rec_bind X n r m act claims) p"
  shows "\<exists>new known g. p = locked Actor_keys Write [] @
    locked Actors Write (on_path new (locked Links Read [])) @
    locked (Group_actors g) Write (on_path known (locked (Instances g n) Write []))"
  by (rule lock_trace_move [OF assms]) (auto dest!: trace_group)

lemma trace_check:
  assumes "lock_trace D (Rec_check X n r m act claims) p"
  shows "\<exists>ok new known g. p = locked Actor_keys Read [] @
    on_path ok (locked Actor_keys Write [] @
      locked Actors Write (on_path new (locked Links Read [])) @
      locked (Group_actors g) Write (on_path known (locked (Instances g n) Write [])))"
proof (rule lock_trace_move [OF assms])
  fix sh q
  assume p: "p = region_locks (Rec_check X n r m act claims) sh @ q"
    and q: "lock_trace D (fst (advance D (Rec_check X n r m act claims) sh)) q"
  show ?thesis
  proof (cases "finished (fst (advance D (Rec_check X n r m act claims) sh))")
    case True
    then have "q = []" using q by (auto simp: finished_iff)
    then show ?thesis using p by (rule_tac exI [of _ False]) simp
  next
    case False
    then have "lock_trace D (Rec_bind X n r m act claims) q" using q by (auto split: if_splits)
    then show ?thesis using p trace_bind [of D X n r m act claims q] by (rule_tac exI [of _ True]) simp
  qed
qed simp

lemma trace_reconcile:
  assumes "lock_trace D (Rec_fetch X n r m) p"
  shows "\<exists>f ok new known g. p = reconcile_actor_locks f ok new known g n"
proof (rule lock_trace_move [OF assms])
  fix sh q
  assume p: "p = region_locks (Rec_fetch X n r m) sh @ q"
    and q: "lock_trace D (fst (advance D (Rec_fetch X n r m) sh)) q"
  consider oc where "fst (advance D (Rec_fetch X n r m) sh) = Finished oc"
    | act claims where "fst (advance D (Rec_fetch X n r m) sh) = Rec_check X n r m act claims"
    by (cases "fetch_actor X r (sh_host sh)"; cases "rt_claims (projr (fetch_actor X r (sh_host sh)))") auto
  then show ?thesis
  proof cases
    case 1
    then have "q = []" using q by simp
    then show ?thesis
      using p by (rule_tac exI [of _ False]) (simp add: reconcile_actor_locks_def)
  next
    case 2
    then have "lock_trace D (Rec_check X n r m act claims) q" using q by simp
    from trace_check [OF this] show ?thesis
      using p by (rule_tac exI [of _ True]) (simp add: reconcile_actor_locks_def)
  qed
qed simp

lemma trace_unbind: "lock_trace D (Rem_unbind n) p \<Longrightarrow> p = locked Actor_keys Write []"
  by (erule lock_trace_move) auto

lemma trace_rem_group:
  assumes "lock_trace D (Rem_group n pk) p"
  shows "\<exists>grouped known g. p = locked Actors Write
    (on_path grouped
       (locked (Group_actors g) Write (on_path known (locked (Instances g n) Write [])) @
        locked (Group_actors g) Read [])) @ locked Actor_keys Write []"
proof (rule lock_trace_move [OF assms])
  fix sh q
  assume p: "p = region_locks (Rem_group n pk) sh @ q" and q: "lock_trace D (fst (advance D (Rem_group n pk) sh)) q"
  have "q = locked Actor_keys Write []" using q trace_unbind by simp
  then show ?thesis
    using p by (cases "hm_get (actors (sh_host sh)) pk") (simp_all, (metis on_path_simps)+)
qed simp

lemma trace_remove:
  assumes "lock_trace D (Rem_lookup n) p"
  shows "\<exists>bound grouped known g. p = remove_actor_locks bound grouped known g n"
proof (rule lock_trace_move [OF assms])
  fix sh q
  assume p: "p = region_locks (Rem_lookup n) sh @ q" and q: "lock_trace D (fst (advance D (Rem_lookup n) sh)) q"
  show ?thesis
  proof (cases "hm_get (actor_keys (sh_host sh)) n")
    case None
    then have "q = []" using q by simp
    then show ?thesis using p by (rule_tac exI [of _ False]) (simp add: remove_actor_locks_def)
  next
    case (Some pk)
    then have "lock_trace D (Rem_group n pk) q" using q by simp
    from trace_rem_group [OF this] show ?thesis
      using p by (rule_tac exI [of _ True]) (simp add: remove_actor_locks_def)
  qed
qed simp

lemma trace_table:
  assumes "lock_trace D a p" "a = Put_table X ld \<or> a = Del_table X ld"
  shows "\<exists>grouped g. p = locked Actors Read (on_path grouped (locked (Group_links g) Write []))"
proof (rule lock_trace_move [OF assms(1)])
  fix sh q
  assume p: "p = region_locks a sh @ q" and q: "lock_trace D (fst (advance D a sh)) q"
  have "q = []"
    by (rule lock_trace_move [OF q]) (use assms(2) in \<open>auto simp: case_prod_beta\<close>)
  then show ?thesis
    using p assms(2) by (cases "hm_get (actors (sh_host sh)) (ld_actor_id ld)")
      (auto simp: table_locks_def, (metis on_path_simps)+)
qed (use assms(2) in auto)

lemma trace_link:
  assumes "lock_trace D a p" "a = Put_link X ld \<or> a = Del_link X ld"
  shows "\<exists>changed grouped g. p = locked Links Write [] @
    on_path changed (locked Actors Read (on_path grouped (locked (Group_links g) Write [])))"
proof (rule lock_trace_move [OF assms(1)])
  fix sh q
  assume p: "p = region_locks a sh @ q" and q: "lock_trace D (fst (advance D a sh)) q"
  consider oc where "fst (advance D a sh) = Finished oc"
    | ld' where "fst (advance D a sh) = Put_table X ld' \<or> fst (advance D a sh) = Del_table X ld'"
    using assms(2)
    by (cases "hm_get (links (sh_host sh)) (linkdef_hash D (ld_actor_id ld) (ld_contract_id ld) (ld_link_name ld))") auto
  then show ?thesis
  proof cases
    case 1
    then have "q = []" using q by simp
    then show ?thesis using p assms(2) by (rule_tac exI [of _ False]) auto
  next
    case 2
    have "p = locked Links Write [] @ on_path True q" using p assms(2) by auto
    with trace_table [OF q 2] show ?thesis by metis
  qed
qed (use assms(2) in auto)

lemma trace_start:
  assumes "lock_trace D (Start_provider Y l r) p"
  shows "\<exists>f v. p = start_provider_locks f v"
proof (rule lock_trace_move [OF assms])
  fix sh q
  assume p: "p = region_locks (Start_provider Y l r) sh @ q"
    and q: "lock_trace D (fst (advance D (Start_provider Y l r) sh)) q"
  have "q = []" using q by (simp add: case_prod_beta)
  then show ?thesis
    using p by (cases "fetch_provider Y r l (hc_allow_file_load (config (sh_host sh))) (registry_settings (sh_host sh))")
      (auto simp: start_provider_locks_def, (metis on_path_simps)+)
qed simp

lemma trace_stop: "lock_trace D (Stop_provider Y l k) p \<Longrightarrow> p = stop_provider_locks"
  by (erule lock_trace_move) (auto simp: case_prod_beta stop_provider_locks_def)

text \<open>A link operation runs inside the critical section of the controller.\<close>

definition program_of :: "activity \<Rightarrow> lock_op list \<Rightarrow> lock_op list" where
  "program_of a p = (if is_link_op a then locked Ctx_links Write p else p)"

text \<open>
  However the others interrupt an operation of the host between its regions, the locks that it asks for
  from its beginning to its end are those of one of the programs for which freedom from deadlock is shown.
\<close>

lemma activities_follow_programs:
  assumes "starting a" "lock_trace D a p"
  shows "host_program (program_of a p)"
proof (cases a)
  case (Rec_fetch X n r m)
  with assms(2) have "lock_trace D (Rec_fetch X n r m) p" by simp
  from trace_reconcile [OF this] Rec_fetch show ?thesis
    by (auto simp: program_of_def intro: host_program.intros)
next
  case (Rem_lookup n)
  with assms(2) have "lock_trace D (Rem_lookup n) p" by simp
  from trace_remove [OF this] Rem_lookup show ?thesis
    by (auto simp: program_of_def intro: host_program.intros)
next
  case (Put_link X ld)
  with trace_link [OF assms(2)] obtain changed grouped g where
    "program_of a p = link_op_locks True changed grouped g"
    by (auto simp: program_of_def link_op_locks_def)
  then show ?thesis by (simp add: host_program.intros)
next
  case (Del_link X ld)
  with trace_link [OF assms(2)] obtain changed grouped g where
    "program_of a p = link_op_locks True changed grouped g"
    by (auto simp: program_of_def link_op_locks_def)
  then show ?thesis by (simp add: host_program.intros)
next
  case (Start_provider Y l r)
  with assms(2) have "lock_trace D (Start_provider Y l r) p" by simp
  from trace_start [OF this] Start_provider show ?thesis
    by (auto simp: program_of_def intro: host_program.intros)
next
  case (Stop_provider Y l k)
  with assms(2) have "lock_trace D (Stop_provider Y l k) p" by simp
  from trace_stop [OF this] Stop_provider show ?thesis
    by (auto simp: program_of_def intro: host_program.intros)
qed (use assms(1) in auto)

section \<open>What a region writes\<close>

text \<open>An actor apart from its instances, which have a lock of their own.\<close>

definition bare :: "actor \<Rightarrow> actor" where
  "bare a = a\<lparr>ac_instances := []\<rparr>"

text \<open>
  The data behind a lock is the same before and after. The lock of the map of groups protects which groups
  there are; the members of a group, wherever it is, are behind the lock of the group. New cells for link
  tables and targets are nobody else's yet.
\<close>

fun same_data :: "lock \<Rightarrow> shared \<Rightarrow> shared \<Rightarrow> bool" where
  "same_data Registry_settings sh sh' \<longleftrightarrow> registry_settings (sh_host sh') = registry_settings (sh_host sh)"
| "same_data Actor_keys sh sh' \<longleftrightarrow> actor_keys (sh_host sh') = actor_keys (sh_host sh)"
| "same_data Actors sh sh' \<longleftrightarrow>
     (\<forall>k. map_option ag_links (hm_get (actors (sh_host sh')) k) = map_option ag_links (hm_get (actors (sh_host sh)) k))"
| "same_data (Group_actors g) sh sh' \<longleftrightarrow>
     (\<forall>k n. map_option bare (hm_get (ag_actors (behind k g sh')) n) = map_option bare (hm_get (ag_actors (behind k g sh)) n))"
| "same_data (Instances g n) sh sh' \<longleftrightarrow>
     (\<forall>k a b. hm_get (ag_actors (behind k g sh)) n = Some a \<longrightarrow> hm_get (ag_actors (behind k g sh')) n = Some b \<longrightarrow>
        ac_instances b = ac_instances a)"
| "same_data Providers sh sh' \<longleftrightarrow> providers (sh_host sh') = providers (sh_host sh)"
| "same_data Links sh sh' \<longleftrightarrow> links (sh_host sh') = links (sh_host sh)"
| "same_data (Group_links g) sh sh' \<longleftrightarrow>
     (g < length (link_cells (sh_host sh)) \<longrightarrow> link_cells (sh_host sh') ! g = link_cells (sh_host sh) ! g)"
| "same_data Aliases sh sh' \<longleftrightarrow> aliases (sh_host sh') = aliases (sh_host sh)"
| "same_data l sh sh' \<longleftrightarrow> True"

definition takes :: "lock_op list \<Rightarrow> (lock \<times> mode) set" where
  "takes p = {(l, m). Acquire l m \<in> set p}"

lemma takes_simps [simp]:
  "takes [] = {}" "takes (p @ q) = takes p \<union> takes q" "takes (locked l m p) = insert (l, m) (takes p)"
  "takes (on_path b p) = (if b then takes p else {})"
  by (auto simp: takes_def locked_def on_path_def)

text \<open>Regions that leave the groups alone, in the map and out of it.\<close>

lemma behind_cong:
  "actors (sh_host sh') = actors (sh_host sh) \<Longrightarrow> sh_detached sh' = sh_detached sh \<Longrightarrow> behind k g sh' = behind k g sh"
  using detached_cong [of sh' sh k g] by (simp add: behind_def attached_def split: option.split)

lemma same_groups:
  assumes "actors (sh_host sh') = actors (sh_host sh)" "sh_detached sh' = sh_detached sh"
  shows "same_data Actors sh sh'" "same_data (Group_actors g) sh sh'" "same_data (Instances g n) sh sh'"
  using behind_cong [OF assms] assms by simp_all

text \<open>A region that writes one entry of one group.\<close>

lemma scale_actor_member:
  assumes c: "rt_claims act = Some claims" and g: "hm_get (actors s) (subject claims) = Some g"
  obtains (same) "actors (snd (scale_actor X act claims n r m g s)) = actors s"
  | (set) a where "actors (snd (scale_actor X act claims n r m g s)) =
      hm_insert (subject claims) (g\<lparr>ag_actors := hm_insert n a (ag_actors g)\<rparr>) (actors s)"
      "\<And>b. hm_get (ag_actors g) n = Some b \<Longrightarrow> bare b = bare a"
proof (cases "hm_get (ag_actors g) n")
  case None
  show ?thesis
    by (rule scale_absent_cases [OF c None, of m X r s]; rule same set)
      (simp_all add: set_actor_def g None)
next
  case (Some a)
  have one: "actors (set_actor (subject claims) n b t) =
      hm_insert (subject claims) (g\<lparr>ag_actors := hm_insert n b (ag_actors g)\<rparr>) (actors s)"
    if "actors t = actors s" for b t by (simp add: set_actor_def g that)
  have two: "bare (a\<lparr>ac_instances := xs\<rparr>) = bare a" for xs by (simp add: bare_def)
  show ?thesis
  proof (rule scale_present_cases [OF Some, of m X act claims r s], goal_cases)
    case (2 xs)
    then show ?case using g two by (intro set [of "a\<lparr>ac_instances := ac_instances a @ xs\<rparr>"]) (simp_all add: one Some)
  next
    case 4
    let ?d = "length (ac_instances a) - m"
    from 4 show ?case
      using g two by (intro set [of "a\<lparr>ac_instances := drop ?d (ac_instances a)\<rparr>"]) (simp_all add: one Some)
  qed (simp_all add: same)
qed

lemma scale_through_member:
  assumes c: "rt_claims act = Some claims" and sh'_def: "sh' = snd (scale_through X act claims n r m gid sh)"
  obtains (same) "\<And>k g n'. hm_get (ag_actors (behind k g sh')) n' = hm_get (ag_actors (behind k g sh)) n'"
    "same_data Actors sh sh'"
  | (set) a where
      "\<And>k g n'. hm_get (ag_actors (behind k g sh')) n' =
        (if k = subject claims \<and> g = gid \<and> n' = n then Some a else hm_get (ag_actors (behind k g sh)) n')"
      "\<And>b. hm_get (ag_actors (behind (subject claims) gid sh)) n = Some b \<Longrightarrow> bare b = bare a"
      "same_data Actors sh sh'"
proof (cases "attached (subject claims) gid (sh_host sh)")
  case (Some g)
  have g: "hm_get (actors (sh_host sh)) (subject claims) = Some g" "ag_links g = gid"
    using attached_SomeD [OF Some] by simp_all
  have b: "behind (subject claims) gid sh = g" by (simp add: behind_def Some)
  have t: "sh' = sh\<lparr>sh_host := snd (scale_actor X act claims n r m g (sh_host sh))\<rparr>"
    by (simp add: sh'_def scale_through_attached [OF Some])
  show ?thesis
  proof (rule scale_actor_member [OF c g(1), of X n r m])
    assume "actors (snd (scale_actor X act claims n r m g (sh_host sh))) = actors (sh_host sh)"
    then have "actors (sh_host sh') = actors (sh_host sh)" "sh_detached sh' = sh_detached sh" by (simp_all add: t)
    from behind_cong [OF this] same_groups(1) [OF this] show ?thesis by (intro same) simp_all
  next
    fix a
    assume "actors (snd (scale_actor X act claims n r m g (sh_host sh))) =
        hm_insert (subject claims) (g\<lparr>ag_actors := hm_insert n a (ag_actors g)\<rparr>) (actors (sh_host sh))"
      and "\<And>b. hm_get (ag_actors g) n = Some b \<Longrightarrow> bare b = bare a"
    then show ?thesis
      using g by (intro set [of a]) (auto simp: t b behind_def attached_def split: option.split)
  qed
next
  case None
  let ?g = "detached (subject claims) gid sh"
  have b: "behind (subject claims) gid sh = ?g" by (simp add: behind_def None)
  have g: "hm_get (actors (swapped_in (subject claims) gid sh)) (subject claims) = Some ?g" by simp
  let ?t = "snd (scale_actor X act claims n r m ?g (swapped_in (subject claims) gid sh))"
  obtain g' where eq: "sh' = \<lparr>sh_host = ?t\<lparr>actors := actors (sh_host sh)\<rparr>,
        sh_detached = hm_insert (subject claims, gid) g' (sh_detached sh)\<rparr>"
    and g': "hm_get (actors ?t) (subject claims) = Some g'"
    by (rule scale_through_detached [OF c None, of X n r m]) (simp add: sh'_def)
  have at: "attached k g (sh_host sh') = attached k g (sh_host sh)" for k g
    by (simp add: eq attached_def)
  have det: "detached k g sh' = (if k = subject claims \<and> g = gid then g' else detached k g sh)" for k g
    by (simp add: eq)
  have beh: "behind k g sh' = (if k = subject claims \<and> g = gid then g' else behind k g sh)" for k g
    using None by (auto simp: behind_def at det split: option.split)
  show ?thesis
  proof (rule scale_actor_member [OF c g, of X n r m])
    assume "actors ?t = actors (swapped_in (subject claims) gid sh)"
    then have "g' = ?g" using g' by simp
    then show ?thesis by (intro same) (simp_all add: beh b, simp add: eq)
  next
    fix a
    assume "actors ?t = hm_insert (subject claims) (?g\<lparr>ag_actors := hm_insert n a (ag_actors ?g)\<rparr>)
          (actors (swapped_in (subject claims) gid sh))"
      and bare: "\<And>b. hm_get (ag_actors ?g) n = Some b \<Longrightarrow> bare b = bare a"
    then have "g' = ?g\<lparr>ag_actors := hm_insert n a (ag_actors ?g)\<rparr>" using g' by simp
    then show ?thesis using bare by (intro set [of a]) (auto simp: beh b, simp add: eq)
  qed
qed

text \<open>Regions that write one field of the host.\<close>

lemma behind_host [simp]: "actors s = actors (sh_host sh) \<Longrightarrow> behind k g (sh\<lparr>sh_host := s\<rparr>) = behind k g sh"
  by (rule behind_cong) simp_all

lemma same_data_refl: "same_data l sh sh"
  by (cases l) simp_all

lemma same_data_keys: "l \<noteq> Actor_keys \<Longrightarrow> same_data l sh (on_host sh (\<lambda>s. s\<lparr>actor_keys := f s\<rparr>))"
  by (cases l) (simp_all add: on_host_eq)

lemma same_data_links: "l \<noteq> Links \<Longrightarrow> same_data l sh (on_host sh (\<lambda>s. s\<lparr>links := f s\<rparr>))"
  by (cases l) (simp_all add: on_host_eq)

lemma same_data_emit: "same_data l sh (sh\<lparr>sh_host := emit es (sh_host sh)\<rparr>)"
  by (cases l) (simp_all, simp add: emit_def)

lemma same_data_announce: "same_data l sh (sh\<lparr>sh_host := snd (announce X ld verb f (sh_host sh))\<rparr>)"
proof -
  obtain es where "snd (announce X ld verb f (sh_host sh)) = emit es (sh_host sh)" using announce_state by blast
  then show ?thesis by (simp only: same_data_emit)
qed

lemma same_data_table:
  assumes "\<And>g. hm_get (actors (sh_host sh)) k = Some g \<Longrightarrow> l \<noteq> Group_links (ag_links g)"
  shows "same_data l sh (on_host sh (update_table k f))"
proof (cases "hm_get (actors (sh_host sh)) k")
  case None
  then have "update_table k f (sh_host sh) = sh_host sh" by (simp add: update_table_def)
  then show ?thesis by (simp add: on_host_eq same_data_refl)
next
  case (Some g)
  then have "update_table k f (sh_host sh) = (sh_host sh)\<lparr>link_cells :=
      (link_cells (sh_host sh))[ag_links g := f (link_cells (sh_host sh) ! ag_links g)]\<rparr>"
    by (simp add: update_table_def)
  then show ?thesis
    using assms [OF Some] by (cases l) (simp_all add: on_host_eq)
qed

lemma same_data_providers:
  assumes "actor_part t = actor_part (sh_host sh)" "registry_settings t = registry_settings (sh_host sh)" "l \<noteq> Providers"
  shows "same_data l sh (sh\<lparr>sh_host := t\<rparr>)"
  using assms by (cases l) (simp_all add: actor_part_def)

lemma provider_entry_registry: "provider_entry c r s = (p, t) \<Longrightarrow> registry_settings t = registry_settings s"
  by (auto simp: provider_entry_def Let_def split: option.splits)

lemma start_provider_registry:
  assumes "providers_inv s"
  shows "registry_settings (snd (start_provider X l r s)) = registry_settings s"
  by (rule start_provider_cases [OF providers_invD(4) [OF assms], of X l r])
    (auto simp: emit_def dest: provider_entry_registry)

lemma stop_provider_registry: "registry_settings (snd (stop_provider X l k s)) = registry_settings s"
  by (simp add: stop_provider_def request_shutdown_def drop_child_def emit_def Let_def case_prod_beta
      split: option.split sum.split)

lemma scale_actor_registry:
  assumes "rt_claims act = Some claims"
  shows "registry_settings (snd (scale_actor X act claims n r m g s)) = registry_settings s"
proof -
  have [simp]: "registry_settings (set_actor k n a t) = registry_settings t"
    "registry_settings (spawn_tasks tp j t) = registry_settings t"
    "registry_settings (with_targets t) = registry_settings t"
    "registry_settings (abort_calls xs t) = registry_settings t" for k a t tp j xs
    by (simp_all add: set_actor_def spawn_tasks_def with_targets_def abort_calls_def emit_def split: option.split)
  show ?thesis
  proof (cases "hm_get (ag_actors g) n")
    case None
    show ?thesis by (rule scale_absent_cases [OF assms None, of m X r s]) simp_all
  next
    case (Some a)
    show ?thesis by (rule scale_present_cases [OF Some, of m X act claims r s]) simp_all
  qed
qed

text \<open>Regions of actors.\<close>

lemma same_data_group_entry:
  assumes inv: "shared_inv P D sh" and l: "l \<noteq> Actors"
  shows "same_data l sh (sh\<lparr>sh_host := snd (group_entry k (sh_host sh))\<rparr>)"
proof (cases "hm_get (actors (sh_host sh)) k")
  case (Some g)
  then show ?thesis by (simp add: group_entry_def same_data_refl)
next
  case None
  let ?sh = "sh\<lparr>sh_host := snd (group_entry k (sh_host sh))\<rparr>" and ?new = "length (link_cells (sh_host sh))"
  have old: "hm_get (sh_detached sh) (k, ?new) = None"
    using shared_invD(5) [OF inv, of k ?new] by (cases "hm_get (sh_detached sh) (k, ?new)") auto
  have beh: "ag_actors (behind k' g ?sh) = ag_actors (behind k' g sh)" for k' g
    using None old by (auto simp: behind_def attached_def group_entry_def Let_def detached_def hm_get_or_def split: option.split)
  show ?thesis
    using l None by (cases l) (simp_all add: beh, simp_all add: group_entry_def Let_def nth_append)
qed

lemma same_data_leave:
  assumes inv: "shared_inv P D sh"
    and l: "l \<noteq> Actors" "\<And>g. hm_get (actors (sh_host sh)) k = Some g \<Longrightarrow> l \<noteq> Group_actors (ag_links g)"
  shows "same_data l sh (on_host sh (leave_group n k))"
proof -
  let ?sh = "on_host sh (leave_group n k)"
  have left: "actors (leave_group n k (sh_host sh)) = groups_without k n (sh_host sh)"
    by (simp add: leave_group_eq abort_calls_actors)
  have det: "detached k' g ?sh = detached k' g sh" for k' g by simp
  have beh: "hm_get (ag_actors (behind k' g ?sh)) n' =
      (if k' = k \<and> n' = n \<and> (\<exists>h. hm_get (actors (sh_host sh)) k = Some h \<and> ag_links h = g) then None
       else hm_get (ag_actors (behind k' g sh)) n')" for k' g n'
  proof (cases "\<exists>h. k' = k \<and> hm_get (actors (sh_host sh)) k = Some h \<and> ag_links h = g")
    case True
    then obtain h where h: "k' = k" "hm_get (actors (sh_host sh)) k = Some h" "ag_links h = g" by blast
    have "ag_actors (detached k g sh) = []"
      using shared_invD(4) [OF inv h(2)] h(3) by (simp add: detached_def hm_get_or_def)
    then have "ag_actors (behind k g ?sh) = hm_remove n (ag_actors h)"
      using h by (cases "hm_remove n (ag_actors h) = []")
        (simp_all add: behind_def attached_def left groups_without_def Let_def)
    moreover have "behind k g sh = h" using h by (simp add: behind_def attached_def)
    ultimately show ?thesis using h by simp
  next
    case False
    then have "attached k' g (sh_host ?sh) = attached k' g (sh_host sh)"
      by (auto simp: attached_def left groups_without_def Let_def split: option.splits)
    with False show ?thesis by (auto simp: behind_def split: option.split)
  qed
  have fr: "registry_settings (leave_group n k s) = registry_settings s" "providers (leave_group n k s) = providers s"
    "aliases (leave_group n k s) = aliases s" for s
    by (simp_all add: leave_group_eq) (simp_all add: abort_calls_def emit_def)
  show ?thesis
    using l by (cases l) (auto simp: beh fr)
qed

lemma same_data_scale:
  assumes c: "rt_claims act = Some claims"
    and l: "l \<noteq> Group_actors gid" "l = Instances gid n \<Longrightarrow> hm_get (ag_actors (behind (subject claims) gid sh)) n = None"
  shows "same_data l sh (snd (scale_through X act claims n r m gid sh))"
proof -
  let ?sh = "snd (scale_through X act claims n r m gid sh)"
  have act: "same_data Actors sh ?sh \<and> (\<forall>k g n'. (k, g, n') \<noteq> (subject claims, gid, n) \<longrightarrow>
      hm_get (ag_actors (behind k g ?sh)) n' = hm_get (ag_actors (behind k g sh)) n')"
    by (rule scale_through_member [OF c refl, of X n r m gid sh]) auto
  have reg: "registry_settings (sh_host ?sh) = registry_settings (sh_host sh)"
    using scale_actor_registry [OF c] by (simp add: scale_through_def case_prod_beta Let_def split: option.split)
  have prov: "provider_part (sh_host ?sh) = provider_part (sh_host sh)"
    using scale_actor_provider_part [OF c]
    by (simp add: scale_through_def case_prod_beta Let_def provider_part_def split: option.split)
  show ?thesis
  proof (cases l)
    case (Instances g n')
    have "ac_instances b = ac_instances a"
      if "hm_get (ag_actors (behind k g sh)) n' = Some a" "hm_get (ag_actors (behind k g ?sh)) n' = Some b" for k a b
      using act l(2) Instances that by (cases "(k, g, n') = (subject claims, gid, n)") auto
    then show ?thesis by (simp only: Instances same_data.simps) blast
  qed (use act reg prov l scale_through_frames [OF c, of X n r m gid sh] in \<open>auto simp: provider_part_def\<close>)
qed

text \<open>
  C11. A region writes only what it holds a write lock for: whatever else the lock protects is the same after the
  region as before.
\<close>

theorem regions_write_what_they_lock:
  assumes inv: "conc_inv D w" and i: "i < length (wd_acts w)" "\<not> finished (wd_acts w ! i)"
    and l: "(l, Write) \<notin> takes (region_locks (wd_acts w ! i) (wd_shared w))"
  shows "same_data l (wd_shared w) (snd (advance D (wd_acts w ! i) (wd_shared w)))"
proof -
  let ?sh = "wd_shared w"
  have sinv: "shared_inv (\<Union> (pending ` set (wd_acts w))) D ?sh" and ok: "act_ok D ?sh (wd_acts w ! i)"
    using inv i(1) by (simp_all add: conc_inv_def)
  note provs = shared_invD(2) [OF sinv]
  show ?thesis
  proof (cases "wd_acts w ! i")
    case (Rec_fetch X n r m)
    then show ?thesis by (simp add: same_data_refl)
  next
    case (Rec_check X n r m act claims)
    then show ?thesis by (simp add: same_data_refl)
  next
    case (Rem_lookup n)
    then show ?thesis by (simp add: same_data_refl)
  next
    case (Rec_bind X n r m act claims)
    then show ?thesis
      using l same_data_keys [of l ?sh] by (cases "hm_get (actor_keys (sh_host ?sh)) n") (auto simp: on_host_eq same_data_refl)
  next
    case (Rem_unbind n)
    then show ?thesis using l same_data_keys [of l ?sh] by auto
  next
    case (Rec_group X n r m act claims)
    then show ?thesis
      using l same_data_group_entry [OF sinv, of l "subject claims"] by (auto simp: case_prod_beta split: if_splits)
  next
    case (Rec_scale X n r m act claims gid)
    then show ?thesis
      using l ok by (auto simp: case_prod_beta split: if_splits intro!: same_data_scale)
  next
    case (Rem_group n k)
    then show ?thesis using l by (auto intro!: same_data_leave [OF sinv])
  next
    case (Put_link X ld)
    then show ?thesis
      using l same_data_links [of l ?sh] by (auto simp: Let_def same_data_refl split: option.split)
  next
    case (Del_link X ld)
    then show ?thesis
      using l same_data_links [of l ?sh] by (auto simp: Let_def same_data_refl split: option.split)
  next
    case (Put_table X ld)
    then show ?thesis using l by (auto simp: table_locks_def intro!: same_data_table)
  next
    case (Del_table X ld)
    then show ?thesis using l by (auto simp: table_locks_def intro!: same_data_table)
  next
    case (Start_provider Y k r)
    show ?thesis
    proof (cases "fetch_provider Y r k (hc_allow_file_load (config (sh_host ?sh))) (registry_settings (sh_host ?sh))")
      case (Inl e)
      with Start_provider show ?thesis by (simp add: start_provider_def same_data_refl)
    next
      case (Inr pc)
      with Start_provider show ?thesis
        using l start_provider_actor_part [OF provs, of Y k r] start_provider_registry [OF provs, of Y k r]
        by (auto simp: case_prod_beta intro!: same_data_providers)
    qed
  next
    case (Stop_provider Y k key)
    then show ?thesis
      using l stop_provider_actor_part [of Y k key "sh_host ?sh"] stop_provider_registry [of Y k key "sh_host ?sh"]
      by (auto simp: case_prod_beta intro!: same_data_providers)
  qed (use i(2) in \<open>auto simp: case_prod_beta same_data_announce\<close>)
qed

text \<open>A link is registered: the links are written under their lock, the providers are not touched.\<close>

theorem regions_write_what_they_lock_witness:
  "\<exists>w. wd_acts w = [Put_link link_up echo_ld] \<and> conc_inv sample_digest w \<and>
     same_data Providers (wd_shared w) (snd (advance sample_digest (wd_acts w ! 0) (wd_shared w))) \<and>
     \<not> same_data Links (wd_shared w) (snd (advance sample_digest (wd_acts w ! 0) (wd_shared w))) \<and>
     (Links, Write) \<in> takes (region_locks (wd_acts w ! 0) (wd_shared w))"
proof -
  let ?w = "(idle sample_host)\<lparr>wd_acts := [Put_link link_up echo_ld]\<rparr>"
  have "conc_step sample_digest (idle sample_host) ?w"
    using conc_step.arrive [of "Put_link link_up echo_ld" "idle sample_host" sample_digest] by simp
  then have inv: "conc_inv sample_digest ?w"
    by (rule conc_sys.reachable_inv [OF sample_idle r_into_rtranclp])
  have none: "links sample_host = []" by (simp add: sample_host_def)
  have "(Providers, Write) \<notin> takes (region_locks (wd_acts ?w ! 0) (wd_shared ?w))" by simp
  with regions_write_what_they_lock [OF inv, of 0 Providers]
  have "same_data Providers (wd_shared ?w) (snd (advance sample_digest (wd_acts ?w ! 0) (wd_shared ?w)))" by simp
  moreover have "\<not> same_data Links (wd_shared ?w) (snd (advance sample_digest (wd_acts ?w ! 0) (wd_shared ?w)))"
    using none by (simp add: Let_def hm.get_emp hm_insert_def)
  ultimately show ?thesis using inv by (intro exI [of _ ?w]) simp
qed

end
