(* ===== verification/Kasm_Large_Answers.thy ===== *)
theory Kasm_Large_Answers
  imports Kasm_Rpc_Props
begin

text \<open>
  Answers above the chunk threshold (\<^verbatim>\<open>handle_call\<close> in \<^verbatim>\<open>actor.rs\<close> and the end of
  \<^verbatim>\<open>call_operation_with_payload\<close> in \<^verbatim>\<open>handler.rs\<close>): where the host of the called actor puts the answer and where
  the caller looks for it.
\<close>

section \<open>Lemmas\<close>

lemma respond_large:
  assumes "call_threshold Y < length msg" "chunkify_response Y (inv_id ivc) msg = Inr ()"
  shows "respond Y ivc (Inr msg) =
    (Inr ((response_default Y)\<lparr>ir_msg := [], ir_invocation_id := inv_id ivc,
       ir_content_length := word_of_nat (length msg)\<rparr>), [Chunked (inv_id ivc) msg])"
  using assms by (simp add: respond_def Let_def) (simp add: pure_def)

text \<open>The host of the called actor sends nothing but the chunks of the answer before its reply.\<close>

lemma handle_call_chunks:
  assumes "decode_inv Y p = Inr ivc" "antiforgery Y ivc (in_valid_issuers i) = Inr ()"
    and "(if call_threshold Y < unat (inv_content_length ivc) then fetch_chunks Y (inv_id ivc)
          else Inr (inv_msg ivc)) = Inr msg"
    and "handle_invocation G i (ent_contract_id (inv_origin ivc)) (inv_operation ivc) msg = Inr ans"
  shows "snd (handle_call G Y i p) = snd (respond Y ivc ans)"
  using assms
  by (auto simp: handle_call_def rbind_pure_fst usize_try_from_def rbind_def pure_def
      split: sum.splits prod.splits)

text \<open>The caller's side, when the length in the response is above the threshold.\<close>

lemma call_answered_large:
  assumes "split_once (CHR ''/'') op = Some (package, rest)"
    and "resolve_target X tgt (hm_get (link_cells s ! hd_links hdl) package) (aliases s) = Inr ent"
    and "inv_new X (hd_cluster_key hdl) (hd_host_key hdl) (hd_origin hdl) ent op req (trace_context X) = Inr ivc"
    and "ensure_actor_capability (metadata (hd_claims hdl)) (ent_contract_id (inv_target ivc)) = Inr ()"
    and "chunk_threshold X < length req \<Longrightarrow> chunkify X (inv_id ivc) (inv_msg ivc) = Inr ()"
    and "sent = (if chunk_threshold X < length req then ivc\<lparr>inv_msg := []\<rparr> else ivc)"
    and "encode_inv X sent = Inr p"
    and "send_request X (call_topic (hd_lattice_prefix hdl) tgt (inv_target ivc)) p
           (chunk_threshold X < length req) (injector_to_headers X) = Inr q"
    and "decode_resp X q = Inr resp" "ir_invocation_id resp = inv_id ivc" "ir_error resp = None"
    and "chunk_threshold X < unat (ir_content_length resp)"
  shows "fst (call_operation_with_payload X s hdl tgt op req) =
    map_sum id Inr (with_context ''failed to dechunk response'' (get_unchunkified X (inv_id ivc)))"
proof -
  have *: "fst (rbind (pure r) (\<lambda>x. pure (Inr (Inr x)))) = map_sum id Inr r" for r :: "bytes res"
    by (cases r) (simp_all add: pure_def)
  show ?thesis
    using assms
    by (cases "chunk_threshold X < length req")
      (simp_all add: call_operation_with_payload_def usize_try_from_def ensure_def Let_def *)
qed

section \<open>Properties\<close>

text \<open>
  C38. The answer to a call that is larger than the threshold is stored by \<^verbatim>\<open>chunkify_response\<close>, and the response
  carries none of it. What the caller returns is whatever \<^verbatim>\<open>get_unchunkified\<close> finds under the identifier of the
  invocation, the name of the chunks of its own request: its failure is the failure of the call, and its bytes
  are taken for the answer. Nothing else of the call depends on what the guest answered. So the call can
  return the answer only if the chunk store keeps responses where it keeps requests.
\<close>

theorem large_answer_is_read_as_request:
  assumes target: "split_once (CHR ''/'') op = Some (package, rest)"
      "resolve_target X tgt (hm_get (link_cells s ! hd_links hdl) package) (aliases s) = Inr ent"
    and new: "inv_new X (hd_cluster_key hdl) (hd_host_key hdl) (hd_origin hdl) ent op req (trace_context X) = Inr ivc"
      "inv_origin ivc = hd_origin hdl" "inv_target ivc = ent" "inv_operation ivc = op" "inv_msg ivc = req"
      "inv_content_length ivc = word_of_nat (length req)"
    and cap: "ensure_actor_capability (metadata (hd_claims hdl)) (ent_contract_id ent) = Inr ()"
    and same: "call_threshold Y = chunk_threshold X" "length req < 2 ^ 64" "length msg < 2 ^ 64"
    and chunks: "chunk_threshold X < length req \<longrightarrow>
      chunkify X (inv_id ivc) req = Inr () \<and> fetch_chunks Y (inv_id ivc) = Inr req"
    and codec: "sent = (if chunk_threshold X < length req then ivc\<lparr>inv_msg := []\<rparr> else ivc)"
      "encode_inv X sent = Inr p" "decode_inv Y p = Inr sent"
      "encode_resp Y resp = Inr q" "decode_resp X q = Inr resp"
    and network: "\<And>h b. send_request X (call_topic (hd_lattice_prefix hdl) tgt ent) p b h = fst (handle_call G Y i p)"
    and accepts: "antiforgery Y sent (in_valid_issuers i) = Inr ()"
    and default: "response_default Y = \<lparr>ir_invocation_id = [], ir_msg = [], ir_content_length = 0, ir_error = None\<rparr>"
    and answer: "handle_invocation G i (ent_contract_id (hd_origin hdl)) op req = Inr (Inr msg)"
      "chunk_threshold X < length msg" "chunkify_response Y (inv_id ivc) msg = Inr ()"
      "fst (respond Y sent (Inr msg)) = Inr resp"
  shows "snd (handle_call G Y i p) = [Chunked (inv_id ivc) msg] \<and> ir_msg resp = [] \<and>
    fst (call_operation_with_payload X s hdl tgt op req) =
      map_sum id Inr (with_context ''failed to dechunk response'' (get_unchunkified X (inv_id ivc)))"
proof -
  have sent: "inv_origin sent = hd_origin hdl" "inv_operation sent = op" "inv_id sent = inv_id ivc"
    "unat (inv_content_length sent) = length req"
    using new same(2) by (simp_all add: codec(1) unat_word_of_nat_64)
  have body: "(if call_threshold Y < unat (inv_content_length sent) then fetch_chunks Y (inv_id sent)
      else Inr (inv_msg sent)) = Inr req"
    unfolding sent same(1) using chunks new(5) by (simp add: codec(1))
  have ans: "handle_invocation G i (ent_contract_id (inv_origin sent)) (inv_operation sent) req = Inr (Inr msg)"
    by (simp add: sent answer(1))
  have large: "respond Y sent (Inr msg) = (Inr resp, [Chunked (inv_id ivc) msg])"
    "ir_invocation_id resp = inv_id ivc" "ir_error resp = None" "unat (ir_content_length resp) = length msg" "ir_msg resp = []"
    using respond_large [of Y msg sent] answer(2-4) same(1,3) by (auto simp: sent default unat_word_of_nat_64)
  have q: "fst (handle_call G Y i p) = Inr q"
    by (rule handle_call_ok [OF codec(3) accepts body ans answer(4) codec(4)])
  have "snd (handle_call G Y i p) = [Chunked (inv_id ivc) msg]"
    using handle_call_chunks [OF codec(3) accepts body ans] large(1) by simp
  moreover have "fst (call_operation_with_payload X s hdl tgt op req) =
      map_sum id Inr (with_context ''failed to dechunk response'' (get_unchunkified X (inv_id ivc)))"
    by (rule call_answered_large [OF target new(1) _ _ codec(1,2) _ codec(5) large(2,3)])
      (use cap chunks new network q large(4) answer(2) in simp_all)
  ultimately show ?thesis using large(5) by simp
qed

text \<open>
  A threshold of two bytes, and a chunk store that keeps a response under a name of its own. The call fails
  although the guest answered.
\<close>

definition tiny_call :: call_ext where
  "tiny_call = sample_call\<lparr>call_threshold := 2, decode_inv := (\<lambda>_. Inr (sample_inv\<lparr>inv_msg := []\<rparr>)),
     fetch_chunks := (\<lambda>_. Inr [1, 2, 3])\<rparr>"

definition tiny_resp :: invocation_response where
  "tiny_resp = \<lparr>ir_invocation_id = ''id-1'', ir_msg = [], ir_content_length = 4, ir_error = None\<rparr>"

definition tiny_rpc :: rpc_ext where
  "tiny_rpc = sample_rpc\<lparr>chunk_threshold := 2, get_unchunkified := (\<lambda>_. Inl (Msg ''object not found'')),
     decode_resp := (\<lambda>_. Inr tiny_resp),
     send_request := (\<lambda>_ p _ _. fst (handle_call sample_guest tiny_call sample_instance p))\<rparr>"

theorem large_answer_is_read_as_request_witness:
  "fst (call_operation_with_payload tiny_rpc sample_host sample_handler
     (Some (Actor (Key \<lparr>key_pair_type = OtherKey, public_key = ''MECHO'', seed = Inr []\<rparr>)))
     ''echo/Echo.Run'' [1, 2, 3]) = Inl (Wrap ''failed to dechunk response'' (Msg ''object not found''))"
proof -
  let ?tgt = "Some (Actor (Key \<lparr>key_pair_type = OtherKey, public_key = ''MECHO'', seed = Inr []\<rparr>))"
  have "handle_invocation sample_guest sample_instance (ent_contract_id (hd_origin sample_handler))
      ''echo/Echo.Run'' [1, 2, 3] = Inr (Inr [9, 1, 2, 3])"
    by (simp add: handle_invocation_def ensure_actor_capability_def handle_operation_eq sample_guest_def
        sample_handler_def no_entity_def)
  then have "fst (call_operation_with_payload tiny_rpc sample_host sample_handler ?tgt ''echo/Echo.Run'' [1, 2, 3]) =
      map_sum id Inr (with_context ''failed to dechunk response'' (get_unchunkified tiny_rpc (inv_id sample_inv)))"
    by (intro large_answer_is_read_as_request [where package = "''echo''" and rest = "''Echo.Run''" and
          sent = "sample_inv\<lparr>inv_msg := []\<rparr>" and p = "[5]" and q = "[7]" and Y = tiny_call and G = sample_guest and
          i = sample_instance and resp = tiny_resp and ent = "no_entity\<lparr>ent_public_key := ''MECHO''\<rparr>" and
          msg = "[9, 1, 2, 3]", THEN conjunct2, THEN conjunct2])
      (simp_all add: tiny_rpc_def tiny_call_def tiny_resp_def resolve_target_def sample_rpc_def sample_inv_def
        sample_handler_def sample_call_def respond_def pure_def no_entity_def ensure_actor_capability_def)
  then show ?thesis by (simp add: tiny_rpc_def)
qed

end
