(* ===== verification/Kasm_Concurrent_Calls.thy ===== *)
theory Kasm_Concurrent_Calls
  imports Kasm_Interleaving_Props Kasm_Rpc_Props
begin

text \<open>
  Calls that guests make while the controllers change the host. A call reads the links of its actor once, under
  their lock, which it keeps to its end: it happens between two regions of the other operations.
\<close>

text \<open>
  C3. Capability safety, with any number of operations in progress: when a running instance calls through a link
  and anything leaves the host, be it a message or the chunks of a large request, then, unless a link operation is
  just changing that very place, the package of the operation is the contract of a registered link of the actor
  under that link name, that contract is among the capabilities of the actor's claims (or empty), and a message
  goes to the provider of that link. The
  hypothesis on \<^verbatim>\<open>Invocation::new\<close> is that it keeps the target it is given.
\<close>

theorem concurrent_call_is_authorised:
  assumes reach: "initial_world w" "(conc_step D)\<^sup>*\<^sup>* w v" "i \<in> set (instances_at (wd_host v) k n)"
    and keeps: "\<forall>ck hk orig ent op req tr ivc. inv_new X ck hk orig ent op req tr = Inr ivc \<longrightarrow> inv_target ivc = ent"
    and link: "via_link tgt = Some l"
    and sent: "ev \<in> set (snd (call_operation_with_payload X (wd_host v) (in_handler i) tgt op req))"
  shows "\<exists>package rest. op = package @ ''/'' @ rest \<and>
    ((\<exists>a \<in> set (wd_acts v). (k, package, l) \<in> pending a) \<or>
     (\<exists>ld. hm_get (links (wd_host v)) (linkdef_hash D k package l) = Some ld \<and> link_matches k package l ld \<and>
        (\<forall>topic p b. ev = Sent topic p b \<longrightarrow>
           topic = ''wasmbus.rpc.'' @ hd_lattice_prefix (in_handler i) @ ''.'' @ ld_provider_id ld @ ''.'' @ l) \<and>
        (package = [] \<or> (\<exists>a caps. metadata (hd_claims (in_handler i)) = Some a \<and> act_caps a = Some caps \<and>
           package \<in> set caps))))"
proof (rule call_through_link [OF keeps link sent])
  fix package rest ent
  let ?h = "in_handler i" and ?s = "wd_host v"
  assume op: "op = package @ ''/'' @ rest" and ent: "table_get (link_cells ?s ! hd_links ?h) package l = Some ent"
    and topic: "\<And>topic p b. ev = Sent topic p b \<Longrightarrow>
       topic = ''wasmbus.rpc.'' @ hd_lattice_prefix ?h @ ''.'' @ ent_public_key ent @ ''.'' @ ent_link_name ent"
    and cap: "ent_contract_id ent = [] \<or> (\<exists>a caps. metadata (hd_claims ?h) = Some a \<and> act_caps a = Some caps \<and>
       ent_contract_id ent \<in> set caps)"
  show ?thesis
  proof (cases "(k, package, l) \<in> \<Union> (pending ` set (wd_acts v))")
    case True
    with op show ?thesis by blast
  next
    case False
    have "linked ?s k package l = Some ent"
      using ent interleaved_table [OF reach False] by simp
    then obtain ld where ld: "hm_get (links ?s) (linkdef_hash D k package l) = Some ld"
      "link_matches k package l ld" "ent = entity_of ld"
      by (auto simp: linked_lookup [OF host_inv_uptoD(2) [OF conc_reachable [OF reach(1,2)]]]
          split: option.splits if_splits)
    with topic cap have "\<forall>topic p b. ev = Sent topic p b \<longrightarrow>
        topic = ''wasmbus.rpc.'' @ hd_lattice_prefix ?h @ ''.'' @ ld_provider_id ld @ ''.'' @ l"
      "package = [] \<or> (\<exists>a caps. metadata (hd_claims ?h) = Some a \<and> act_caps a = Some caps \<and> package \<in> set caps)"
      by (auto simp: entity_of_def link_matches_def)
    with op ld show ?thesis by blast
  qed
qed

text \<open>The echo actor calls through the link that was registered while it was being started.\<close>

theorem concurrent_call_is_authorised_witness:
  "\<exists>v i topic. (conc_step sample_digest)\<^sup>*\<^sup>* (idle sample_host) v \<and>
     i \<in> set (instances_at (wd_host v) ''MECHO'' ''echo-default'') \<and>
     Sent topic [5] False \<in> set (snd (call_operation_with_payload
       (sample_rpc\<lparr>inv_new := (\<lambda>_ _ _ ent _ _ _. Inr (sample_inv\<lparr>inv_target := ent\<rparr>))\<rparr>) (wd_host v) (in_handler i)
       (Some (Link (Some ''test''))) ''wasmcloud:httpserver/Run'' [1])) \<and>
     (\<exists>package rest ld. ''wasmcloud:httpserver/Run'' = package @ ''/'' @ rest \<and>
        link_matches ''MECHO'' package ''test'' ld \<and>
        topic = ''wasmbus.rpc.'' @ hd_lattice_prefix (in_handler i) @ ''.'' @ ld_provider_id ld @ ''.'' @ ''test'')"
proof (rule sample_interleaving)
  fix v i
  let ?X = "sample_rpc\<lparr>inv_new := (\<lambda>_ _ _ ent _ _ _. Inr (sample_inv\<lparr>inv_target := ent\<rparr>))\<rparr>"
  let ?tgt = "Some (Link (Some ''test''))" and ?op = "''wasmcloud:httpserver/Run''" and ?t = "wd_host v"
  assume v: "(conc_step sample_digest)\<^sup>*\<^sup>* (idle sample_host) v" "i \<in> set (instances_at ?t ''MECHO'' ''echo-default'')"
    and fin: "\<forall>a \<in> set (wd_acts v). finished a"
    and l: "linked ?t ''MECHO'' ''wasmcloud:httpserver'' ''test'' = Some (entity_of echo_ld)"
    and hc: "hd_claims (in_handler i) = echo_claims"
  have none: "\<not> (\<exists>a \<in> set (wd_acts v). p \<in> pending a)" for p using fin by (auto simp: finished_iff)
  have keeps: "\<forall>ck hk orig ent op req tr ivc. inv_new ?X ck hk orig ent op req tr = Inr ivc \<longrightarrow> inv_target ivc = ent"
    by auto
  have via: "via_link ?tgt = Some ''test''" by (simp add: via_link_def)
  have res: "resolve_target ?X ?tgt (hm_get (link_cells ?t ! hd_links (in_handler i)) ''wasmcloud:httpserver'') (aliases ?t) =
      Inr (entity_of echo_ld)"
    using interleaved_table [OF sample_idle v] none l by (simp add: resolve_target_link [OF via])
  have cap: "ensure_actor_capability (metadata (hd_claims (in_handler i))) (ent_contract_id (entity_of echo_ld)) = Inr ()"
    by (simp add: hc ensure_actor_capability_iff echo_claims_def entity_of_def echo_ld_def)
  let ?topic = "call_topic (hd_lattice_prefix (in_handler i)) ?tgt (inv_target (sample_inv\<lparr>inv_target := entity_of echo_ld\<rparr>))"
  have sent: "Sent ?topic [5] False \<in> set (snd (call_operation_with_payload ?X ?t (in_handler i) ?tgt ?op [1]))"
    by (rule call_sends [where package = "''wasmcloud:httpserver''" and rest = "''Run''", OF _ res])
      (use cap in simp_all, simp_all add: sample_rpc_def)
  from concurrent_call_is_authorised [OF sample_idle v keeps via sent] none
  obtain package rest ld where op: "?op = package @ ''/'' @ rest" and ld: "link_matches ''MECHO'' package ''test'' ld"
    and topic: "\<forall>topic p b. Sent ?topic [5] False = Sent topic p b \<longrightarrow>
      topic = ''wasmbus.rpc.'' @ hd_lattice_prefix (in_handler i) @ ''.'' @ ld_provider_id ld @ ''.'' @ ''test''"
    by metis
  from topic have "?topic = ''wasmbus.rpc.'' @ hd_lattice_prefix (in_handler i) @ ''.'' @ ld_provider_id ld @ ''.'' @ ''test''"
    by blast
  with v sent op ld show ?thesis by metis
qed

end
