(* ===== verification/Kasm_Critical.thy ===== *)
theory Kasm_Critical
  imports Kasm_Interleaving_Props Kasm_Controller_Props
begin

text \<open>
  The critical section of the controllers (\<^verbatim>\<open>src/main.rs\<close>, \<^verbatim>\<open>add_link\<close> and \<^verbatim>\<open>delete_link\<close> from the lock of
  \<^verbatim>\<open>Ctx.links\<close> on): the table of references is written before and after the operation of the host, whose
  regions interleave with those of every other operation. \<open>register_link\<close> and \<open>release_link\<close> are the same
  section taken as one step.
\<close>

section \<open>The section, region by region\<close>

text \<open>Who is inside: a registration or the release of the last reference, and the activity it waits for.\<close>

datatype critical = Registering string link_definition nat | Releasing string nat

record controllers =
  cr_table :: ref_table
  cr_task :: "critical option"
  cr_world :: world

abbreviation cr_acts :: "controllers \<Rightarrow> activity list" where
  "cr_acts c \<equiv> wd_acts (cr_world c)"

abbreviation cr_host :: "controllers \<Rightarrow> process" where
  "cr_host c \<equiv> wd_host (cr_world c)"

definition launch_act :: "activity \<Rightarrow> world \<Rightarrow> world" where
  "launch_act a w = w\<lparr>wd_acts := wd_acts w @ [a]\<rparr>"

inductive crit_step :: "digest \<Rightarrow> controllers \<Rightarrow> controllers \<Rightarrow> bool" for D :: digest where
  arrive: "starting a \<Longrightarrow> \<not> is_link_op a \<Longrightarrow> \<forall>b \<in> set (cr_acts c). \<not> clash a b \<Longrightarrow>
    crit_step D c (c\<lparr>cr_world := launch_act a (cr_world c)\<rparr>)"
| advance: "conc_move D (cr_world c) v \<Longrightarrow> crit_step D c (c\<lparr>cr_world := v\<rparr>)"
| register_known: "cr_task c = None \<Longrightarrow> hm_get (cr_table c) (link_id ld) = Some (ld', names) \<Longrightarrow>
    crit_step D c (c\<lparr>cr_table := hm_insert (link_id ld) (ld', insert nm names) (cr_table c)\<rparr>)"
| register_new: "cr_task c = None \<Longrightarrow> hm_get (cr_table c) (link_id ld) = None \<Longrightarrow>
    crit_step D c (c\<lparr>cr_task := Some (Registering nm ld (length (cr_acts c))),
      cr_world := launch_act (Put_link X ld) (cr_world c)\<rparr>)"
| registered: "cr_task c = Some (Registering nm ld i) \<Longrightarrow> cr_acts c ! i = Finished (Unit_outcome r) \<Longrightarrow>
    crit_step D c (c\<lparr>cr_task := None,
      cr_table := (if is_ok r then hm_insert (link_id ld) (ld, {nm}) (cr_table c) else cr_table c)\<rparr>)"
| release_shared: "cr_task c = None \<Longrightarrow> hm_get (cr_table c) j = Some (ld, names) \<Longrightarrow> names - {nm} \<noteq> {} \<Longrightarrow>
    crit_step D c (c\<lparr>cr_table := hm_insert j (ld, names - {nm}) (cr_table c)\<rparr>)"
| release_last: "cr_task c = None \<Longrightarrow> hm_get (cr_table c) j = Some (ld, names) \<Longrightarrow> names - {nm} = {} \<Longrightarrow>
    crit_step D c (c\<lparr>cr_table := hm_insert j (ld, {}) (cr_table c),
      cr_task := Some (Releasing j (length (cr_acts c))), cr_world := launch_act (Del_link X ld) (cr_world c)\<rparr>)"
| released: "cr_task c = Some (Releasing j i) \<Longrightarrow> cr_acts c ! i = Finished (Unit_outcome r) \<Longrightarrow>
    crit_step D c (c\<lparr>cr_task := None,
      cr_table := (if is_ok r then hm_remove j (cr_table c) else cr_table c)\<rparr>)"





section \<open>The invariant\<close>









section \<open>Steps keep it\<close>








lemma launch_act_simps [simp]:
  "wd_shared (launch_act a w) = wd_shared w" "wd_acts (launch_act a w) = wd_acts w @ [a]"
  by (simp_all add: launch_act_def)












section \<open>A section that nobody interrupts\<close>

text \<open>
  The moves of the host between two steps of the controllers, under any condition \<open>P\<close> that moves keep. With
  the condition \<^term>\<open>True\<close> the next two lemmas say that a whole section is the step of the atomic model.
\<close>

lemma crit_moves:
  assumes "(conc_move D)\<^sup>*\<^sup>* w v" "cr_world c = w" "P c"
    and keep: "\<And>c v. P c \<Longrightarrow> conc_move D (cr_world c) v \<Longrightarrow> P (c\<lparr>cr_world := v\<rparr>)"
  shows "(\<lambda>c d. crit_step D c d \<and> P d)\<^sup>*\<^sup>* c (c\<lparr>cr_world := v\<rparr>) \<and> P (c\<lparr>cr_world := v\<rparr>)"
  using assms(1)
proof (induction rule: rtranclp_induct)
  case base
  have "c\<lparr>cr_world := w\<rparr> = c" using assms(2) by auto
  with assms(3) show ?case by simp
next
  case (step u v)
  from step(2) have mv: "conc_move D (cr_world (c\<lparr>cr_world := u\<rparr>)) v" by simp
  from keep [OF _ mv] step(3) have "P (c\<lparr>cr_world := v\<rparr>)" by simp
  with crit_step.advance [OF mv] step(3) show ?case by (auto intro: rtranclp.rtrancl_into_rtrancl)
qed

text \<open>A state of the controllers with idle locks, and an activity of its own at the end.\<close>

abbreviation after_task :: "controllers \<Rightarrow> ref_table \<Rightarrow> process \<Rightarrow> unit res \<Rightarrow> controllers" where
  "after_task c tbl s r \<equiv> c\<lparr>cr_table := tbl, cr_task := None, cr_world := \<lparr>wd_shared = (wd_shared (cr_world c))\<lparr>sh_host := s\<rparr>,
     wd_acts = cr_acts c @ [Finished (Unit_outcome r)]\<rparr>\<rparr>"

lemma launch_moves:
  assumes "advance_n D k (a, wd_shared w) = (a', sh)"
  shows "(conc_move D)\<^sup>*\<^sup>* (launch_act a w) \<lparr>wd_shared = sh, wd_acts = wd_acts w @ [a']\<rparr>"
  using moves [of "length (wd_acts w)" "wd_acts w @ [a]" D "wd_shared w" k] assms
  by (cases w) (simp add: launch_act_def)


text \<open>The last reference of a link is released.\<close>

lemma release_uninterrupted:
  assumes idle: "cr_task c = None" "hm_get (cr_table c) j = Some (ld, names)" "names - {nm} = {}"
    and rel: "release_link (delete_linkdef D X) nm j (cr_table c, cr_host c) = (r, tbl, s)"
  shows "(crit_step D)\<^sup>*\<^sup>* c (after_task c tbl s r)"
proof -
  let ?tbl = "hm_insert j (ld, {}) (cr_table c)"
  let ?c = "c\<lparr>cr_table := ?tbl, cr_task := Some (Releasing j (length (cr_acts c))),
    cr_world := launch_act (Del_link X ld) (cr_world c)\<rparr>"
  have del: "delete_linkdef D X ld (cr_host c) = (r, s)"
    and tbl: "tbl = (if is_ok r then hm_remove j ?tbl else ?tbl)"
    using rel release_link_last [OF idle(2,3), of "delete_linkdef D X" "cr_host c"]
    by (auto simp: hm_remove_insert split: prod.splits sum.splits)
  have one: "crit_step D c ?c" using crit_step.release_last [OF idle] by simp
  let ?v = "\<lparr>wd_shared = (wd_shared (cr_world c))\<lparr>sh_host := s\<rparr>, wd_acts = cr_acts c @ [Finished (Unit_outcome r)]\<rparr>"
  have "(conc_move D)\<^sup>*\<^sup>* (cr_world ?c) ?v"
    using launch_moves [OF del_alone [of D X ld "wd_shared (cr_world c)"]] by (simp add: del)
  from crit_moves [where P = "\<lambda>c. True", OF this refl] have two: "(crit_step D)\<^sup>*\<^sup>* ?c (?c\<lparr>cr_world := ?v\<rparr>)" by simp
  have "crit_step D (?c\<lparr>cr_world := ?v\<rparr>) (after_task c tbl s r)"
    using crit_step.released [of "?c\<lparr>cr_world := ?v\<rparr>" j "length (cr_acts c)" r D] tbl
    by (cases c; cases r) simp_all
  with one two show ?thesis by (meson converse_rtranclp_into_rtranclp rtranclp.rtrancl_into_rtrancl)
qed

section \<open>A sample run\<close>



section \<open>Properties\<close>



end
