(* ===== verification/Spec2Isabelle.thy ===== *)
theory Spec2Isabelle
  imports Kasm_Link_Props Kasm_Actor_Props Kasm_Provider_Props Kasm_Controller_Props Kasm_Rpc_Props
    Kasm_Interleaving_Props Kasm_Provider_View Kasm_Locks_Props Kasm_Webhook_Props Kasm_Main
    Kasm_Admission_Props Kasm_Regions Kasm_Large_Answers Kasm_Concurrent_Calls Kasm_Critical
begin

text \<open>
  \<^bold>\<open>The program.\<close> KasmCloud runs wasmCloud actors under Kubernetes. One Rust process per node is a
  \<^emph>\<open>host\<close>: it watches the custom resources \<^verbatim>\<open>Actor\<close>, \<^verbatim>\<open>Provider\<close> and \<^verbatim>\<open>Link\<close> that carry its name and makes
  the node agree with them. An actor is a WebAssembly module, run in several instances that share one
  NATS queue; a capability provider is an operating-system process; a link definition connects an actor
  to a provider under a contract and a link name. The parts, outside in:

  \<^item> the \<^emph>\<open>controllers\<close> (\<^verbatim>\<open>src/main.rs\<close>) turn resource events into operations of the host, count the
    resources that refer to a link, and report statuses;
  \<^item> the \<^emph>\<open>host\<close> (\<^verbatim>\<open>crates/host/src/lib.rs\<close>, \<^verbatim>\<open>provider.rs\<close>) keeps the running actors, the provider
    processes and the registry of link definitions;
  \<^item> an \<^emph>\<open>actor instance\<close> (\<^verbatim>\<open>crates/host/src/actor.rs\<close>) serves the calls that arrive on its queue;
  \<^item> a \<^emph>\<open>handler\<close> (\<^verbatim>\<open>crates/host/src/handler.rs\<close>) makes the calls of an instance to actors and providers,
    directly or through the blob store, key-value, logging and messaging interfaces;
  \<^item> the \<^emph>\<open>resource types\<close> (\<^verbatim>\<open>crates/apis/src/v1alpha1\<close>);
  \<^item> an \<^emph>\<open>admission webhook\<close> in Go (\<^verbatim>\<open>api/v1alpha1\<close>) labels the resources and refuses edits of them before
    the controllers see them; it decodes the same objects into types of its own;
  \<^item> the \<^emph>\<open>resource definitions\<close> (\<^verbatim>\<open>deploy/crds\<close>), by which the API server checks and prunes what is stored.

  The host and its instances share memory: an instance's handler points to the link table of its actor
  group, which the host updates when link definitions come and go, and to the targets its guests chose. So
  both are cells of explicit stores (\<open>link_cells\<close>, \<open>target_cells\<close>), and the handler holds the indices.

  \<^bold>\<open>Theories and sources.\<close>

  \<^item> \<open>Kasm_Prelude\<close>: \<^verbatim>\<open>anyhow\<close> errors and the \<^verbatim>\<open>?\<close> operator, hash maps, transition systems with their
    invariants and simulations, list and word lemmas. The locale \<open>hash_map\<close> states what the host uses of
    \<^verbatim>\<open>HashMap\<close>; \<open>transition_system\<close> is the interface of every state machine below.
  \<^item> \<open>Kasm_External\<close>: the data of the packages the program is built on, by the fields the source uses.
  \<^item> \<open>Kasm_Apis\<close>: the resources (\<^verbatim>\<open>actor.rs\<close>, \<^verbatim>\<open>link.rs\<close>, \<^verbatim>\<open>provider.rs\<close>, \<^verbatim>\<open>host.rs\<close>, \<^verbatim>\<open>claims.rs\<close>).
  \<^item> \<open>Kasm_Host_State\<close>: the structs \<^verbatim>\<open>Host\<close>, \<^verbatim>\<open>HostConfig\<close>, \<^verbatim>\<open>ActorGroup\<close>, \<^verbatim>\<open>Actor\<close>, \<^verbatim>\<open>ActorInstance\<close>,
    \<^verbatim>\<open>Handler\<close>, \<^verbatim>\<open>Provider\<close>; the record \<open>process\<close> adds the link-table cells, the live tasks, the child
    processes and the trace of what left the process.
  \<^item> \<open>Kasm_Links\<close>: \<^verbatim>\<open>linkdef_hash\<close>, \<^verbatim>\<open>get_actor_links\<close>, \<^verbatim>\<open>add_linkdef\<close>, \<^verbatim>\<open>delete_linkdef\<close> of \<^verbatim>\<open>lib.rs\<close>.
  \<^item> \<open>Kasm_Actors\<close>, \<open>Kasm_Reconcile\<close>: \<^verbatim>\<open>fetch_actor\<close>, \<^verbatim>\<open>instantiate_actor\<close>, \<^verbatim>\<open>start_actor\<close>,
    \<^verbatim>\<open>reconcile_actor\<close>, \<^verbatim>\<open>remove_actor\<close>, \<^verbatim>\<open>stats\<close>; the second theory gives their effect on instances and
    tasks as equations.
  \<^item> \<open>Kasm_Providers\<close>: \<^verbatim>\<open>start_provider\<close>, \<^verbatim>\<open>stop_provider\<close>.
  \<^item> \<open>Kasm_Host\<close>: \<^verbatim>\<open>connect_nats\<close>, \<^verbatim>\<open>Host::new\<close>, and the step relation \<open>host_step\<close> of all operations with
    the invariant \<open>system_inv\<close>.
  \<^item> \<open>Kasm_Interleaving\<close>: the same operations one lock region at a time (\<open>advance\<close>), any number of them at
    once (\<open>conc_step\<close>), with the invariant \<open>conc_inv\<close>. \<open>Kasm_Provider_View\<close> adds what each provider process
    has been told in such a run.
  \<^item> \<open>Kasm_Locks\<close>: the lock operations of each operation, and their order. \<open>Kasm_Regions\<close> gives each region of
    \<open>advance\<close> its locks and relates the two models.
  \<^item> \<open>Kasm_Handler\<close>, \<open>Kasm_Wasi\<close>, \<open>Kasm_Targets\<close>: \<^verbatim>\<open>handler.rs\<close>, the calls and the capability interfaces,
    and who shares the targets that guests choose.
  \<^item> \<open>Kasm_Invocation\<close>: \<^verbatim>\<open>actor.rs\<close>, the incoming calls. \<open>Kasm_Rpc\<close> holds the lemmas on calls.
  \<^item> \<open>Kasm_Link_Registry\<close>: the reference counting of links in \<^verbatim>\<open>main.rs\<close>. The locale \<open>link_registry\<close> is
    what it expects of a host; the host's link operations are its interpretation \<open>host_links\<close>.
  \<^item> \<open>Kasm_Status\<close>, \<open>Kasm_Controller\<close>, \<open>Kasm_Config\<close>: the rest of \<^verbatim>\<open>main.rs\<close>: statuses, event handlers
    (\<open>run_actor\<close>, \<open>run_link\<close>, \<open>run_provider\<close> and the step relation \<open>ctl_step\<close>), and the settings with their
    layers (\<open>read_settings\<close>). \<open>Kasm_Main\<close> composes them to \<^verbatim>\<open>main\<close> (\<open>main_program\<close>).
  \<^item> \<open>Kasm_Critical\<close>: the critical section of \<^verbatim>\<open>add_link\<close> and \<^verbatim>\<open>delete_link\<close> (under the lock of \<^verbatim>\<open>Ctx.links\<close>) as
    steps between the regions of the host (\<open>crit_step\<close>). \<open>registry\<close> interprets \<open>link_registry\<close> on the map of
    the host by itself; the lemmas \<open>register_uninterrupted\<close> and \<open>release_uninterrupted\<close> relate a section
    that nobody interrupts to \<open>register_link\<close> and \<open>release_link\<close>.
  \<^item> \<open>Kasm_Wire\<close>: the JSON of the resources, as the derived \<^verbatim>\<open>Serialize\<close> and \<^verbatim>\<open>Deserialize\<close> of the types
    write and read it (member names in camel case, optional, defaulted and omitted members), and what a
    reader sees of an object a status was merged into. The locale \<open>wire_type\<close> states that contract and is
    interpreted on all four statuses.
  \<^item> \<open>Kasm_Crd\<close>: the resource definitions as schemas, with the inductive relation \<open>conforms\<close>.
  \<^item> \<open>Kasm_Go\<close>, \<open>Kasm_Webhook\<close>: the Go types and how they are decoded; \<^verbatim>\<open>actor_webhook.go\<close>,
    \<^verbatim>\<open>provider_webhook.go\<close>, \<^verbatim>\<open>link_webhook.go\<close>, and the edits they admit.
  \<^item> \<open>Kasm_Samples\<close>, \<open>Kasm_Sample_Codec\<close>, \<open>Kasm_Sample_Wire\<close>: concrete inputs, after \<^verbatim>\<open>sample.yaml\<close>, and
    concrete codecs and a merge patch.
  \<^item> \<open>Kasm_Link_Props\<close>, \<open>Kasm_Actor_Props\<close>, \<open>Kasm_Provider_Props\<close>, \<open>Kasm_Rpc_Props\<close>, \<open>Kasm_Large_Answers\<close>,
    \<open>Kasm_Concurrent_Calls\<close>, \<open>Kasm_Controller_Props\<close>, \<open>Kasm_Interleaving_Props\<close>, \<open>Kasm_Locks_Props\<close>, \<open>Kasm_Webhook_Props\<close>,
    \<open>Kasm_Wire_Props\<close>, \<open>Kasm_Admission_Props\<close> and this theory: the properties.

  \<^bold>\<open>How the code is read.\<close> A method that takes \<^verbatim>\<open>&self\<close> and changes the state behind its locks is a
  function from \<open>process\<close> to a result and a \<open>process\<close>; \<open>Inl\<close> is \<^verbatim>\<open>Err\<close>, and the state beside an error is
  the state the early return leaves behind. A hash map is an association list with distinct keys, whose
  order is the order of iteration; where the order can show, a property says that it does not. Pointers
  that the code shares (\<^verbatim>\<open>Arc<RwLock<..>>\<close> of link tables) are indices into a store. Spawned tasks are
  numbered and live in \<open>tasks\<close> until they are aborted; a child process lives until its handle is dropped
  (\<^verbatim>\<open>kill_on_drop\<close>). \<^verbatim>\<open>i32\<close>, \<^verbatim>\<open>u32\<close>, \<^verbatim>\<open>u64\<close> and \<^verbatim>\<open>usize\<close> are words where they are converted or bounded.

  What is not in the repository is an argument: records named \<open>.._ext\<close> collect, per operation, the
  outcomes of the calls that leave the program (publishing, subscribing, fetching, encoding, the guest
  module), a call that an operation makes repeatedly being indexed by the attempt. The theorems
  quantify over them, so every failure at every point is covered. All functions are total; loops of the
  source run over finite collections and are structural recursions, so they need no fuel.

  \<^bold>\<open>What is shown.\<close>

  \<^item> \<^emph>\<open>Links\<close> (C25, C39): registration and deletion have their effect on every group at once and undo each
    other; which links are lost when two hash alike, and (\<open>failed_put_never_announced\<close>) which announcements are
    never made after a failed publication.
  \<^item> \<^emph>\<open>Actors\<close> (C8, C12-C14, C33): a successful reconciliation reaches the replicas asked for, keeps the
    newest instances and touches no other actor; it succeeds when the outside does, and then nothing runs that the
    host does not know of; which tasks a failed reconciliation leaves behind for ever.
  \<^item> \<^emph>\<open>Providers\<close> (C22-C24, C35): every child process is reachable from the host's table, the order of a stop,
    what a new process reads on its standard input; two resources may share one
    process, which the deletion of either ends.
  \<^item> \<^emph>\<open>Concurrency\<close> (C2, C7, C9-C11, C31, C32): in every interleaving each running instance resolves exactly the
    registered links of its actor and is served by a live task of its own, and each provider process knows its links;
    operations do not block each other; a region writes only what it has locked; the race that loses a group, and the
    calls that block each other. Lemmas relate the models to each other: an operation that is not interrupted is the
    one-step operation (\<open>uninterrupted_is_atomic\<close>), and the regions of an
    operation take the locks of its program (\<open>activities_follow_programs\<close>).
  \<^item> \<^emph>\<open>Calls\<close> (C3, C4, C21, C26-C28, C38): whatever the host is doing meanwhile, nothing leaves it through a
    link, be it a message or the chunks of a request, unless the link is registered (or just being written) and the actor
    claims the capability; a request of any size reaches the guest unchanged and
    its answer the caller, unless the answer is larger than the threshold; replies answer authentic invocations only;
    the two implementations of calling agree; whom the choice of a target reaches; the numbers that pass the
    capability interfaces keep their value or are refused.
  \<^item> \<^emph>\<open>Controllers\<close> (C5, C6, C40): the last event of an \<^verbatim>\<open>Actor\<close> resource decides which instances run, whatever
    happens to other resources; with the critical sections of the controllers interleaved with all operations,
    links are registered, and found by the instances of their actor, exactly while they are referred to; and
    the failure after which a link is lost for good. That the controllers act on the host through its operations only is
    the lemma \<open>ctl_steps_simulate\<close> (\<open>ctl_step\<close> by \<open>host_step\<close>).
  \<^item> \<^emph>\<open>Controllers and API server\<close> (C17-C19, C30, C36): the statuses that are written conform to the resource
    definitions; merged into the stored object and read again they settle: the event they cause changes nothing, but
    that of an actor sends the status of the host once more; a process whose status is refused is stranded.
  \<^item> \<^emph>\<open>Webhook and controllers\<close> (C15, C16, C20, C34, C37): both programs read the same resources; what is
    cleaned up after any edits the webhook admits, the edit that strands a process, and the label that
    keeps a resource from being updated.
  \<^item> \<^emph>\<open>The whole\<close> (C1, C29): from the settings to a program that serves, and from a \<^verbatim>\<open>Link\<close> resource to a
    call that an instance resolves.

  \<^bold>\<open>Limits.\<close> \<open>host_step\<close> and \<open>ctl_step\<close> take an operation as one step; \<open>conc_step\<close> and \<open>crit_step\<close> take a
  lock region as one, and do not split a provider's start or stop, which hold the lock of the providers from
  before they read anything shared to the end. A call of a guest, which keeps the lock of its links, happens
  between two regions (\<open>Kasm_Concurrent_Calls\<close>); its locks are in \<open>Kasm_Locks\<close>. Of the controllers \<open>crit_step\<close>
  has the critical sections; what surrounds them reads and writes only the API server. C5 is about runs in which
  publishing works; C40 shows what a failure leaves behind. The two programs are compared (C20) on statuses without
  conditions whose times have the plain form that the host writes, for RFC 3339 is all that both parsers of times are documented
  to read. Connecting to NATS twice
  (\<^verbatim>\<open>try_join\<close>) is done in sequence. JSON numbers are integers; a struct is read from an object only (serde also
  takes an array), and an object has no member twice. The JSON of a \<^verbatim>\<open>Condition\<close>, of which the program writes
  none, is a parameter; its schema is not. Formats and regular expressions of the schemas are parameters, and so
  are the conversions of settings (by the package \<^verbatim>\<open>config\<close>) and the reading of environment and file.

  \<^bold>\<open>Not modelled.\<close> The watch, finalizer and back-off machinery of \<^verbatim>\<open>kube-runtime\<close> is a library: its events are
  the steps of \<open>ctl_step\<close>, in any order. The reading of the command line and the set-up of tracing, log output, and
  the server around the admission functions of the webhook are input and output without state of the program. The
  byte streams between a guest and \<^verbatim>\<open>call\<close> are replaced by what is read and written. The Go type of the host
  object and the printer columns of the resource definitions are declarations that no code of the repository reads.
\<close>

section \<open>From the settings to a running program\<close>

lemma key_or_new_type:
  assumes "key_or_new Y t msg k = Inr kp" "\<And>t. key_pair_type (new_key_pair Y t) = t"
  shows "key_pair_type kp = t"
  using assms by (auto simp: key_or_new_def and_then_Inr ensure_def split: option.splits if_splits)

lemma host_new_fields:
  assumes "host_new Y nm cfg = Inr s"
  shows "name s = nm" "lattice_prefix s = hc_lattice_prefix cfg"
    "cluster_issuers s = issuers_with (cluster_key s) (hc_cluster_issuers cfg)"
    "key_or_new Y Cluster ''Condition failed: `cluster_key.key_pair_type() == KeyPairType::Cluster`''
       (hc_cluster_key cfg) = Inr (cluster_key s)"
    "key_or_new Y Server ''Condition failed: `host_key.key_pair_type() == KeyPairType::Server`''
       (hc_host_key cfg) = Inr (host_key s)"
    "connect_nats Y (hc_rpc_config cfg) = Inr ()" "config s = cfg"
  using assms by (auto simp: host_new_def and_then_Inr)

text \<open>What \<^verbatim>\<open>main\<close> has made of the settings when it serves.\<close>

lemma served_host:
  assumes "main_start X c = Serves d" and "\<And>t. key_pair_type (new_key_pair (mx_new X) t) = t"
  shows "initial_ctx d \<and> get_hostname (mx_config X) c = Inr (name (ctx_host d)) \<and>
    url_parse (mx_config X) (nats_url c) = Inr (nc_url (hc_rpc_config (config (ctx_host d)))) \<and>
    lattice_prefix (ctx_host d) = ''default'' \<and>
    key_pair_type (cluster_key (ctx_host d)) = Cluster \<and> key_pair_type (host_key (ctx_host d)) = Server \<and>
    public_key (cluster_key (ctx_host d)) \<in> set (cluster_issuers (ctx_host d)) \<and>
    (\<forall>issuers. kc_cluster_issuers c = Some issuers \<longrightarrow> set issuers \<subseteq> set (cluster_issuers (ctx_host d))) \<and>
    (kc_nats_jwt c = None \<longleftrightarrow> kc_nats_seed c = None) \<and>
    mx_create X \<in> {Inr (), Inl (Api_error ''AlreadyExists'')} \<and>
    (\<exists>node st. mx_node_name X = Some node \<and> ctx_patches d = [Patch_host (name (ctx_host d)) st] \<and>
       hst_kube_node_name st = node \<and> hst_public_key st = public_key (host_key (ctx_host d)) \<and>
       has_instance_count (hst_actors st) = 0 \<and> hps_count (hst_providers st) = 0)"
proof (rule main_start_serves [OF assms(1)])
  let ?s = "ctx_host d"
  fix nm cfg node
  assume conf: "build_host_config (mx_config X) c = Inr (nm, cfg)" and new: "host_new (mx_new X) nm cfg = Inr ?s"
    and rest: "mx_node_name X = Some node" "ctx_links d = []"
      "ctx_patches d = [Patch_host (name ?s) (host_status_of (status_env X node) ?s)]"
      "mx_create X \<in> {Inr (), Inl (Api_error ''AlreadyExists'')}"
  note host = host_new_fields [OF new]
  have "nc_jwt (hc_rpc_config cfg) = None \<longleftrightarrow> nc_key (hc_rpc_config cfg) = None"
    using host(6) by (auto simp: connect_nats_def Let_def and_then_Inr split: option.splits)
  moreover have "nc_jwt (hc_rpc_config cfg) = kc_nats_jwt c"
    "key_of_seed (mx_config X) (kc_nats_seed c) = Inr (nc_key (hc_rpc_config cfg))"
    using conf by (auto simp: build_host_config_def and_then_Inr Let_def)
  ultimately have auth: "kc_nats_jwt c = None \<longleftrightarrow> kc_nats_seed c = None"
    by (cases "kc_nats_seed c"; cases "from_seed (mx_config X) (the (kc_nats_seed c))") (auto simp: key_of_seed_def)
  have "initial_ctx d" using new rest(2) by (auto simp: initial_ctx_def initial_host_def)
  with auth rest host(1-3,7) key_or_new_type [OF host(4) assms(2)] key_or_new_type [OF host(5) assms(2)]
    build_host_config_ok [OF conf] host_new_empty [OF new]
  show ?thesis
    by (auto simp: issuers_with_def Let_def host_status_of_def status_env_def stats_def hm_values_def)
qed

text \<open>
  C29. A program that comes up serves with an empty host under the name of its settings, whose server key
  and cluster key are of the right types and which trusts its own cluster key besides the configured
  issuers; the first status it has written is that of this host. Each of the fourteen settings is the one of the file, else
  of the environment, else the default, if there is one. It comes up the same when the host object exists already, and every
  other error of creating that object ends it. The hypothesis on the key generator is that it makes keys of the type it is asked for.
\<close>

theorem started_program:
  assumes "main_program X S = Serves d" and "\<And>t. key_pair_type (new_key_pair (mx_new X) t) = t"
  shows "main_program (X\<lparr>mx_create := Inl (Api_error ''AlreadyExists'')\<rparr>) S = Serves d \<and>
    (\<forall>err. err \<noteq> Api_error ''AlreadyExists'' \<longrightarrow> (\<exists>e. main_program (X\<lparr>mx_create := Inl err\<rparr>) S = Exits e)) \<and>
    (\<exists>c. read_settings S = Inr c \<and> from_layers S c \<and>
    initial_ctx d \<and> get_hostname (mx_config X) c = Inr (name (ctx_host d)) \<and>
    url_parse (mx_config X) (nats_url c) = Inr (nc_url (hc_rpc_config (config (ctx_host d)))) \<and>
    lattice_prefix (ctx_host d) = ''default'' \<and>
    key_pair_type (cluster_key (ctx_host d)) = Cluster \<and> key_pair_type (host_key (ctx_host d)) = Server \<and>
    public_key (cluster_key (ctx_host d)) \<in> set (cluster_issuers (ctx_host d)) \<and>
    (\<forall>issuers. kc_cluster_issuers c = Some issuers \<longrightarrow> set issuers \<subseteq> set (cluster_issuers (ctx_host d))) \<and>
    (kc_nats_jwt c = None \<longleftrightarrow> kc_nats_seed c = None) \<and>
    mx_create X \<in> {Inr (), Inl (Api_error ''AlreadyExists'')} \<and>
    (\<exists>node st. mx_node_name X = Some node \<and> ctx_patches d = [Patch_host (name (ctx_host d)) st] \<and>
       hst_kube_node_name st = node \<and> hst_public_key st = public_key (host_key (ctx_host d)) \<and>
       has_instance_count (hst_actors st) = 0 \<and> hps_count (hst_providers st) = 0))"
proof -
  obtain c where c: "read_settings S = Inr c" "main_start X c = Serves d"
    using assms(1) by (auto simp: main_program_def split: sum.splits)
  have up: "main_program (X\<lparr>mx_create := Inl (Api_error ''AlreadyExists'')\<rparr>) S = Serves d"
    using main_start_exists [OF c(2)] by (simp add: main_program_def c(1))
  have down: "\<exists>e. main_program (X\<lparr>mx_create := Inl err\<rparr>) S = Exits e" if "err \<noteq> Api_error ''AlreadyExists''" for err
    using main_start_refused [OF c(2) that] by (simp add: main_program_def c(1))
  show ?thesis
    by (intro conjI, rule up, use down in blast, rule exI [of _ c],
        rule conjI [OF c(1) conjI [OF read_settings_layered [OF c(1)] served_host [OF c(2) assms(2)]]])
qed

definition sample_settings :: kasmcloud_config where
  "sample_settings = \<lparr>kc_temporary = False, kc_host_name = Some ''default'', kc_nats_host = ''127.0.0.1'',
     kc_nats_port = 4222, kc_nats_jwt = None, kc_nats_seed = None, kc_js_domain = None, kc_host_seed = None,
     kc_cluster_seed = None, kc_cluster_issuers = None, kc_log_level = ''info'',
     kc_enable_structured_logging = False, kc_otel_traces_exporter = None,
     kc_otel_exporter_otlp_endpoint = None\<rparr>"

text \<open>Settings as texts: the host name from the environment, the log level from the file, the rest by default.\<close>

definition sample_sources :: "string settings_ext" where
  "sample_sources = \<lparr>sx_env = [''host_name'' \<mapsto> ''default'', ''log_level'' \<mapsto> ''debug'', ''nats_url'' \<mapsto> ''nats://nats:4222''],
     sx_file = Some (Inr [''log_level'' \<mapsto> ''info'']), sx_text = id, sx_flag = (\<lambda>b. if b then ''true'' else ''false''),
     sx_bool = (\<lambda>v. if v = ''false'' then Inr False else Inl (Msg ''expected a flag'')), sx_string = Inr,
     sx_u16 = (\<lambda>v. if v = ''4222'' then Inr 4222 else Inl (Msg ''expected a port'')),
     sx_strings = (\<lambda>_. Inl (Msg ''expected a list''))\<rparr>"

lemma sample_read: "read_settings sample_sources = Inr sample_settings"
  by (simp add: read_settings_def settings_def sample_sources_def default_settings_def setting_def setting_opt_def
      sample_settings_def map_add_def)

definition sample_parsers :: config_ext where
  "sample_parsers = \<lparr>generate_name = None, from_seed = (\<lambda>_. Inl (Msg ''no seed'')),
     url_parse = (\<lambda>_. Inr ''nats://127.0.0.1:4222''), parse_level = Inr\<rparr>"

definition sample_main :: main_ext where
  "sample_main = \<lparr>mx_config = sample_parsers, mx_new = sample_new, mx_client = Inr (),
     mx_create = Inl (Api_error ''AlreadyExists''), mx_show_error = (\<lambda>_. []), mx_node_name = Some ''node-1'',
     mx_patch_status = (\<lambda>_. Inr ()), mx_timestamp_opt = Some, mx_min_utc = 0\<rparr>"

theorem started_program_witness:
  "\<exists>d. main_program sample_main sample_sources = Serves d \<and> initial_ctx d \<and>
     nc_url (hc_rpc_config (config (ctx_host d))) = ''nats://127.0.0.1:4222''"
proof -
  have cfg: "build_host_config sample_parsers sample_settings = Inr (''default'', sample_cfg)"
    by (simp add: build_host_config_def get_hostname_def key_of_seed_def sample_parsers_def sample_settings_def
        sample_cfg_def sample_nats_def)
  obtain d where d: "main_program sample_main sample_sources = Serves d"
    by (simp add: main_program_def sample_read main_start_def)
      (simp add: sample_main_def cfg sample_host_new create_host_object_def Let_def)
  have keys: "key_pair_type (new_key_pair (mx_new sample_main) t) = t" for t
    by (simp add: sample_main_def sample_new_def sample_kp_def)
  from started_program [OF d keys] d show ?thesis by (auto simp: sample_main_def sample_parsers_def)
qed

section \<open>From a resource to a call\<close>

text \<open>
  C1. End to end: in every state the controllers reach while the network works and the links in play do
  not collide, as long as some \<^verbatim>\<open>Link\<close> resource refers to a link, every running instance of its actor
  resolves a call through that link to a provider, under the contract and the link name of the link.
\<close>

theorem referenced_link_is_callable:
  assumes "initial_ctx c" "(ctl_run D L)\<^sup>*\<^sup>* c d" "separate (ld_hash D) L" "ld \<in> L"
    and "\<forall>ld1 \<in> L. \<forall>ld2 \<in> L. link_id ld1 = link_id ld2 \<longrightarrow>
      link_matches (ld_actor_id ld1) (ld_contract_id ld1) (ld_link_name ld1) ld2"
    and "refs_of (ctx_links d) (link_id ld) \<noteq> {}"
    and "i \<in> set (instances_at (ctx_host d) (ld_actor_id ld) n)"
  shows "\<exists>ent. resolve_target X (Some (Link (Some (ld_link_name ld))))
      (hm_get (link_cells (ctx_host d) ! hd_links (in_handler i)) (ld_contract_id ld)) (aliases (ctx_host d)) = Inr ent \<and>
    ent_contract_id ent = ld_contract_id ld \<and> ent_link_name ent = ld_link_name ld"
proof -
  let ?h = "ctx_host d"
  have steps: "initial_host (ctx_host c)" "(host_step D)\<^sup>*\<^sup>* (ctx_host c) ?h"
    using assms(1,2) ctl_steps_simulate [of D c d] ctl_run_step mono_rtranclp [of "ctl_run D L" "ctl_step D" c d]
    by (auto simp: initial_ctx_def)
  have wf: "links_wf D ?h"
    using ctl_run_reachable(2) [OF assms(1,3,2)] by (simp add: system_inv_def host_invD)
  have "linked ?h (ld_actor_id ld) (ld_contract_id ld) (ld_link_name ld) \<noteq> None"
    using referenced_linked [OF assms(1-5)] assms(6) by simp
  then obtain ent where ent: "linked ?h (ld_actor_id ld) (ld_contract_id ld) (ld_link_name ld) = Some ent" by auto
  then have "ent_contract_id ent = ld_contract_id ld" "ent_link_name ent = ld_link_name ld"
    by (auto simp: linked_lookup [OF wf] entity_of_def link_matches_def split: option.splits if_splits)
  moreover have "via_link (Some (Link (Some (ld_link_name ld)))) = Some (ld_link_name ld)"
    by (simp add: via_link_def)
  ultimately show ?thesis
    using ent reachable_table [OF steps assms(7)] by (simp add: resolve_target_link)
qed

theorem referenced_link_is_callable_witness:
  "\<exists>d i ent. (ctl_run sample_digest {echo_ld})\<^sup>*\<^sup>* sample_ctx d \<and>
     i \<in> set (instances_at (ctx_host d) ''MECHO'' ''echo-default'') \<and>
     resolve_target sample_rpc (Some (Link (Some ''test'')))
       (hm_get (link_cells (ctx_host d) ! hd_links (in_handler i)) ''wasmcloud:httpserver'') (aliases (ctx_host d)) = Inr ent"
proof -
  let ?X = "sample_ctl link_up" and ?r = "echo_resource 1"
  let ?d = "snd (run_actor ?X (Apply ?r) linked_ctx)" and ?s = "ctx_host linked_ctx"
  have steps: "(ctl_run sample_digest {echo_ld})\<^sup>*\<^sup>* sample_ctx ?d"
    using linked_ctx_run ctl_run.actor_event [of sample_digest "{echo_ld}" linked_ctx ?X "Apply ?r"]
    by (meson rtranclp.rtrancl_into_rtrancl rtranclp.rtrancl_refl)
  have "running_part ?s = running_part sample_host"
    unfolding linked_ctx_fields by (rule add_linkdef_running_part)
  then have "hm_get (actor_keys ?s) ''echo-default'' \<in> {None, Some ''MECHO''}"
    by (simp add: running_part_def) (simp add: sample_host_def)
  then obtain t where t: "reconcile_actor echo_ext ''echo-default'' ''echo:0.3.8'' 1 ?s = (Inr echo_claims, t)"
    by (rule echo_reconciles)
  have nm: "name ?s = ''default''"
    unfolding linked_ctx_fields by (rule add_linkdef_snd [of sample_host sample_digest echo_ld link_up])
      (simp_all add: link_put_def update_table_def emit_def sample_host_def)
  have host: "ctx_host ?d = t"
    using t nm by (simp add: run_actor_def case_prod_beta ctl_reconcile_actor_host echo_resource_def i32_as_usize_def)
  obtain i where i: "i \<in> set (instances_at (ctx_host ?d) ''MECHO'' ''echo-default'')"
    using reconcile_actor_count [OF t] host
    by (cases "instances_at t ''MECHO'' ''echo-default''") (auto simp: echo_subject)
  have refs: "refs_of (ctx_links ?d) (link_id echo_ld) \<noteq> {}"
    by (simp add: run_actor_def Let_def case_prod_beta ctl_links_frames refs_of_def linked_ctx_fields hm_get_def)
  have ld: "ld_actor_id echo_ld = ''MECHO''" "ld_link_name echo_ld = ''test''"
    "ld_contract_id echo_ld = ''wasmcloud:httpserver''" by (simp_all add: echo_ld_def)
  have "\<exists>ent. resolve_target sample_rpc (Some (Link (Some ''test'')))
       (hm_get (link_cells (ctx_host ?d) ! hd_links (in_handler i)) ''wasmcloud:httpserver'') (aliases (ctx_host ?d)) = Inr ent"
    using referenced_link_is_callable [OF sample_ctx_initial steps sample_separate, of echo_ld i "''echo-default''" sample_rpc]
      refs i by (auto simp: ld link_matches_def)
  with steps i show ?thesis by blast
qed

end
